(* ===== verification/Prelude.thy ===== *)
theory Prelude
  imports Main "HOL-Library.Sublist"
begin

text \<open>
  Shared vocabulary of the development: the error monad in which every throwing operation
  is written, the few list and string operations of the JavaScript library that several
  components use (\<open>indexOf\<close>, \<open>join\<close>, \<open>split\<close>, the ASCII case functions, decimal
  printing of integers), and the collections the component proofs draw their rewriting
  rules from.
  A JavaScript string is a sequence of code units; it is modelled by HOL's \<open>string\<close>, one
  \<open>char\<close> per code unit, and the case functions act on the ASCII letters.
\<close>

named_theorems codec \<comment> \<open>equations that evaluate parsers and builders\<close>
named_theorems lifecycle_simps \<comment> \<open>equations of the start and stop operations\<close>
named_theorems inv_intro \<comment> \<open>preservation lemmas of the state machines\<close>

section \<open>Results that may be errors\<close>

definition rbind :: "('e + 'a) \<Rightarrow> ('a \<Rightarrow> 'e + 'b) \<Rightarrow> 'e + 'b" where
  "rbind m f = (case m of Inl e \<Rightarrow> Inl e | Inr a \<Rightarrow> f a)"

lemma rbind_simps [simp]:
  "rbind (Inl e) f = Inl e"
  "rbind (Inr a) f = f a"
  by (simp_all add: rbind_def)

lemma rbind_eq_Inr: "rbind m f = Inr b \<longleftrightarrow> (\<exists>a. m = Inr a \<and> f a = Inr b)"
  by (cases m) auto

lemma rbind_eq_Inl:
  "rbind m f = Inl e \<longleftrightarrow> m = Inl e \<or> (\<exists>a. m = Inr a \<and> f a = Inl e)"
  by (cases m) auto

fun is_Inl :: "'a + 'b \<Rightarrow> bool" where
  "is_Inl (Inl _) = True"
| "is_Inl (Inr _) = False"

section \<open>Lists and strings\<close>

text \<open>\<open>Array.prototype.indexOf\<close> and \<open>String.prototype.indexOf\<close> of one code unit.\<close>

fun js_index_of :: "'a \<Rightarrow> 'a list \<Rightarrow> int" where
  "js_index_of x [] = -1"
| "js_index_of x (y # ys) =
     (if y = x then 0
      else let i = js_index_of x ys in if i < 0 then -1 else i + 1)"

lemma js_index_of_ge: "-1 \<le> js_index_of x ys"
  by (induction ys) (auto simp: Let_def)

lemma js_index_of_neg: "js_index_of x ys < 0 \<longleftrightarrow> x \<notin> set ys"
proof (induction ys)
  case Nil
  show ?case by simp
next
  case (Cons y ys)
  then show ?case using js_index_of_ge [of x ys] by (auto simp: Let_def)
qed

lemma js_index_of_append:
  "x \<notin> set xs \<Longrightarrow> js_index_of x (xs @ x # ys) = int (length xs)"
  by (induction xs) (auto simp: Let_def)

lemma js_index_of_split:
  assumes "0 \<le> js_index_of x ys"
  shows "\<exists>as bs. ys = as @ x # bs \<and> x \<notin> set as \<and> js_index_of x ys = int (length as)"
proof -
  from assms have "x \<in> set ys" using js_index_of_neg [of x ys] by linarith
  then obtain as bs where "ys = as @ x # bs" "x \<notin> set as"
    by (meson split_list_first)
  then show ?thesis using js_index_of_append by metis
qed

lemma js_index_of_bound: "js_index_of x ys < int (length ys) \<or> js_index_of x ys = -1"
  by (induction ys) (auto simp: Let_def)

text \<open>A list without its \<open>i\<close>-th element.\<close>

definition remove_nth :: "nat \<Rightarrow> 'a list \<Rightarrow> 'a list" where
  "remove_nth i xs = take i xs @ drop (Suc i) xs"

lemma set_remove_nth: "set (remove_nth i xs) \<subseteq> set xs"
  by (auto simp: remove_nth_def dest: in_set_takeD in_set_dropD)

text \<open>\<open>Array.prototype.join\<close>.\<close>

fun js_join :: "string \<Rightarrow> string list \<Rightarrow> string" where
  "js_join sep [] = []"
| "js_join sep [s] = s"
| "js_join sep (s # t # ts) = s @ sep @ js_join sep (t # ts)"

text \<open>\<open>String.prototype.split\<close> at a single code unit; the result is never empty.\<close>

fun js_split :: "char \<Rightarrow> string \<Rightarrow> string list" where
  "js_split c [] = [[]]"
| "js_split c (x # xs) =
     (if x = c then [] # js_split c xs
      else (case js_split c xs of [] \<Rightarrow> [[x]] | s # ss \<Rightarrow> (x # s) # ss))"

lemma js_split_ne [simp]: "js_split c s \<noteq> []"
  by (induction s) (auto split: list.splits)

lemma js_join_split: "js_join [c] (js_split c s) = s"
proof (induction s)
  case Nil
  show ?case by simp
next
  case (Cons x xs)
  then show ?case
    by (cases "js_split c xs"; cases "tl (js_split c xs)") auto
qed

lemma js_split_free: "t \<in> set (js_split c s) \<Longrightarrow> c \<notin> set t"
  by (induction s arbitrary: t) (auto split: if_splits list.splits)

section \<open>Characters\<close>

definition code :: "char \<Rightarrow> nat" where
  "code c = of_char c"

definition is_lower :: "char \<Rightarrow> bool" where
  "is_lower c \<longleftrightarrow> 97 \<le> code c \<and> code c \<le> 122"

definition is_upper :: "char \<Rightarrow> bool" where
  "is_upper c \<longleftrightarrow> 65 \<le> code c \<and> code c \<le> 90"

definition is_digit :: "char \<Rightarrow> bool" where
  "is_digit c \<longleftrightarrow> 48 \<le> code c \<and> code c \<le> 57"

definition to_upper :: "char \<Rightarrow> char" where
  "to_upper c = (if is_lower c then char_of (code c - 32) else c)"

definition to_lower :: "char \<Rightarrow> char" where
  "to_lower c = (if is_upper c then char_of (code c + 32) else c)"

lemmas char_simps = is_lower_def is_upper_def is_digit_def code_def

lemma code_less [simp]: "code c < 256"
  by (simp add: code_def)

lemma code_char_of [simp]: "n < 256 \<Longrightarrow> code (char_of n) = n"
  by (simp add: code_def)

lemma char_of_code [simp]: "char_of (code c) = c"
  by (simp add: code_def)

lemma code_inject [simp]: "code c = code d \<longleftrightarrow> c = d"
  by (simp add: code_def)

lemma code_to_upper: "code (to_upper c) = (if is_lower c then code c - 32 else code c)"
  by (simp add: to_upper_def less_imp_diff_less)

lemma code_to_lower: "code (to_lower c) = (if is_upper c then code c + 32 else code c)"
  by (simp add: to_lower_def) (simp add: is_upper_def)

lemma to_upper_to_lower [simp]: "is_upper c \<Longrightarrow> to_upper (to_lower c) = c"
  by (rule code_inject [THEN iffD1])
    (auto simp add: code_to_upper code_to_lower is_lower_def is_upper_def)

lemma to_lower_to_upper [simp]: "is_lower c \<Longrightarrow> to_lower (to_upper c) = c"
  by (rule code_inject [THEN iffD1])
    (auto simp add: code_to_upper code_to_lower is_lower_def is_upper_def)

lemma to_lower_id [simp]: "\<not> is_upper c \<Longrightarrow> to_lower c = c"
  by (simp add: to_lower_def)

lemma to_upper_id [simp]: "\<not> is_lower c \<Longrightarrow> to_upper c = c"
  by (simp add: to_upper_def)

lemma is_upper_to_upper [simp]: "is_lower c \<Longrightarrow> is_upper (to_upper c)"
  by (auto simp add: is_upper_def code_to_upper is_lower_def)

lemma is_lower_to_lower [simp]: "is_upper c \<Longrightarrow> is_lower (to_lower c)"
  by (auto simp add: is_lower_def code_to_lower is_upper_def)

lemma lower_not_upper: "is_lower c \<Longrightarrow> \<not> is_upper c"
  by (simp add: is_lower_def is_upper_def)

lemma digit_not_letter: "is_digit c \<Longrightarrow> \<not> is_upper c \<and> \<not> is_lower c"
  by (simp add: is_lower_def is_upper_def is_digit_def)

section \<open>Decimal printing of integers\<close>

definition digit_char :: "nat \<Rightarrow> char" where
  "digit_char n = char_of (48 + n)"

fun nat_digits :: "nat \<Rightarrow> string" where
  "nat_digits n =
     (if n < 10 then [digit_char n] else nat_digits (n div 10) @ [digit_char (n mod 10)])"

declare nat_digits.simps [simp del]

definition int_digits :: "int \<Rightarrow> string" where
  "int_digits i = (if i < 0 then CHR ''-'' # nat_digits (nat (- i)) else nat_digits (nat i))"

text \<open>The value of a digit string, read from the left.\<close>

definition digits_val :: "string \<Rightarrow> nat" where
  "digits_val s = foldl (\<lambda>acc c. 10 * acc + (code c - 48)) 0 s"

lemma code_digit_char [simp]: "n < 10 \<Longrightarrow> code (digit_char n) = 48 + n"
  by (simp add: digit_char_def)

lemma is_digit_digit_char: "n < 10 \<Longrightarrow> is_digit (digit_char n)"
  by (simp add: is_digit_def)

lemma digits_val_snoc: "digits_val (s @ [c]) = 10 * digits_val s + (code c - 48)"
  by (simp add: digits_val_def)

lemma digits_val_nat_digits [simp]: "digits_val (nat_digits n) = n"
proof (induction n rule: nat_digits.induct)
  case (1 n)
  show ?case
  proof (cases "n < 10")
    case True
    then show ?thesis by (simp add: nat_digits.simps [of n] digits_val_def)
  next
    case False
    with "1" show ?thesis by (simp add: nat_digits.simps [of n] digits_val_snoc)
  qed
qed

lemma nat_digits_digits: "c \<in> set (nat_digits n) \<Longrightarrow> is_digit c"
proof (induction n rule: nat_digits.induct)
  case (1 n)
  then show ?case
    by (cases "n < 10") (auto simp: nat_digits.simps [of n] is_digit_digit_char)
qed

lemma nat_digits_ne [simp]: "nat_digits n \<noteq> []"
  by (subst nat_digits.simps) simp

lemma nat_digits_inject: "nat_digits m = nat_digits n \<longleftrightarrow> m = n"
  by (metis digits_val_nat_digits)

lemma minus_not_digit: "\<not> is_digit (CHR ''-'')"
  by (simp add: char_simps)

lemma int_digits_inject: "int_digits i = int_digits j \<longleftrightarrow> i = j"
proof
  assume eq: "int_digits i = int_digits j"
  have no: "nat_digits n \<noteq> CHR ''-'' # s" for n s
    using nat_digits_digits [of "CHR ''-''" n] minus_not_digit by auto
  then have no': "CHR ''-'' # s \<noteq> nat_digits n" for n s by metis
  show "i = j"
    using eq no no' by (auto simp: int_digits_def nat_digits_inject split: if_splits)
qed simp

section \<open>White space\<close>

text \<open>What \<open>\s\<close> matches and \<open>String.prototype.trim\<close> removes, of the characters up to 255.\<close>

definition js_space :: "char \<Rightarrow> bool" where
  "js_space c \<longleftrightarrow> (9 \<le> code c \<and> code c \<le> 13) \<or> code c = 32 \<or> code c = 160"

definition js_trim :: "string \<Rightarrow> string" where
  "js_trim s = rev (dropWhile js_space (rev (dropWhile js_space s)))"

end
