(* ===== verification/JsMap.thy ===== *)
theory JsMap
  imports Prelude
begin

text \<open>
  JavaScript's insertion-ordered \<open>Map\<close>, which the program uses for the services of a
  server, the dispatchers of a bus and of a transport, and the table of pending calls.
  The interface is the locale \<open>js_map\<close>; its client lemmas are proved once inside it and
  reach the components through the interpretation \<open>jm\<close> on the association-list model.
\<close>

section \<open>The interface\<close>

locale js_map =
  fixes empty :: "'m"
    and get :: "'m \<Rightarrow> 'k \<Rightarrow> 'v option"
    and put :: "'m \<Rightarrow> 'k \<Rightarrow> 'v \<Rightarrow> 'm"
    and del :: "'m \<Rightarrow> 'k \<Rightarrow> 'm"
    and keys :: "'m \<Rightarrow> 'k list"
    and wf :: "'m \<Rightarrow> bool"
  assumes get_empty: "get empty k = None"
    and get_put: "get (put m k v) k' = (if k' = k then Some v else get m k')"
    and get_del: "get (del m k) k' = (if k' = k then None else get m k')"
    and keys_empty: "keys empty = []"
    and keys_get: "k \<in> set (keys m) \<longleftrightarrow> get m k \<noteq> None"
    and keys_put: "keys (put m k v) = (if get m k = None then keys m @ [k] else keys m)"
    and keys_del: "keys (del m k) = filter (\<lambda>x. x \<noteq> k) (keys m)"
    and wf_iff: "wf m \<longleftrightarrow> distinct (keys m)"
begin

lemma wf_empty: "wf empty"
  by (simp add: wf_iff keys_empty)

lemma wf_put: "wf m \<Longrightarrow> wf (put m k v)"
  using keys_get [of k m] by (auto simp: wf_iff keys_put)

lemma wf_del: "wf m \<Longrightarrow> wf (del m k)"
  by (simp add: wf_iff keys_del)

lemma get_put_same: "get (put m k v) k = Some v"
  by (simp add: get_put)

lemma get_put_other: "k' \<noteq> k \<Longrightarrow> get (put m k v) k' = get m k'"
  by (simp add: get_put)

lemma get_del_same: "get (del m k) k = None"
  by (simp add: get_del)

lemma get_del_Some: "get (del m k) k' = Some v \<Longrightarrow> k' \<noteq> k \<and> get m k' = Some v"
  by (simp add: get_del split: if_splits)

lemma get_fold_del: "get (fold (\<lambda>k m. del m k) ks m) k = (if k \<in> set ks then None else get m k)"
  by (induction ks arbitrary: m) (auto simp: get_del)

text \<open>Deleting every key while walking over them, as the transports' \<open>stop\<close> does.\<close>

lemma del_all_keys: "keys (fold (\<lambda>k m. del m k) (keys m) m) = []"
proof -
  have "get (fold (\<lambda>k m. del m k) (keys m) m) k = None" for k
    using keys_get [of k m] by (auto simp: get_fold_del)
  then have "\<forall>k. k \<notin> set (keys (fold (\<lambda>k m. del m k) (keys m) m))"
    by (metis keys_get)
  then show ?thesis by (cases "keys (fold (\<lambda>k m. del m k) (keys m) m)") auto
qed

end

section \<open>The model: association lists without duplicate keys\<close>

type_synonym ('k, 'v) jsmap = "('k \<times> 'v) list"

definition jm_get :: "('k, 'v) jsmap \<Rightarrow> 'k \<Rightarrow> 'v option" where
  "jm_get m k = map_of m k"

text \<open>\<open>Map.prototype.set\<close>: a present key keeps its place, a new one goes last.\<close>

fun jm_set :: "('k, 'v) jsmap \<Rightarrow> 'k \<Rightarrow> 'v \<Rightarrow> ('k, 'v) jsmap" where
  "jm_set [] k v = [(k, v)]"
| "jm_set ((k', v') # m) k v =
     (if k' = k then (k, v) # m else (k', v') # jm_set m k v)"

definition jm_delete :: "('k, 'v) jsmap \<Rightarrow> 'k \<Rightarrow> ('k, 'v) jsmap" where
  "jm_delete m k = filter (\<lambda>(k', _). k' \<noteq> k) m"

definition jm_keys :: "('k, 'v) jsmap \<Rightarrow> 'k list" where
  "jm_keys m = map fst m"

definition jm_has :: "('k, 'v) jsmap \<Rightarrow> 'k \<Rightarrow> bool" where
  "jm_has m k = (jm_get m k \<noteq> None)"

definition jm_wf :: "('k, 'v) jsmap \<Rightarrow> bool" where
  "jm_wf m = distinct (map fst m)"

lemma jm_get_set: "jm_get (jm_set m k v) k' = (if k' = k then Some v else jm_get m k')"
  by (induction m k v rule: jm_set.induct) (auto simp: jm_get_def)

lemma jm_get_delete: "jm_get (jm_delete m k) k' = (if k' = k then None else jm_get m k')"
  by (induction m) (auto simp: jm_get_def jm_delete_def)

lemma jm_keys_set:
  "jm_keys (jm_set m k v) = (if jm_get m k = None then jm_keys m @ [k] else jm_keys m)"
  by (induction m k v rule: jm_set.induct) (auto simp: jm_get_def jm_keys_def)

lemma jm_keys_delete: "jm_keys (jm_delete m k) = filter (\<lambda>x. x \<noteq> k) (jm_keys m)"
  by (induction m) (auto simp: jm_keys_def jm_delete_def)

lemma jm_keys_get: "k \<in> set (jm_keys m) \<longleftrightarrow> jm_get m k \<noteq> None"
  by (simp add: jm_keys_def jm_get_def map_of_eq_None_iff)

lemma jm_empty: "jm_get [] k = None" "jm_keys [] = []"
  by (simp_all add: jm_get_def jm_keys_def)

lemma jm_wf_keys: "jm_wf m \<longleftrightarrow> distinct (jm_keys m)"
  by (simp add: jm_wf_def jm_keys_def)

interpretation jm: js_map "[]" jm_get jm_set jm_delete jm_keys jm_wf
  by unfold_locales
    (rule jm_empty jm_get_set jm_get_delete jm_keys_get jm_keys_set jm_keys_delete jm_wf_keys)+

lemmas jm_simps [simp] =
  jm.get_empty jm.get_put jm.get_del jm.keys_empty jm.keys_put jm.keys_del
  jm.wf_empty jm.wf_put jm.wf_del

lemma jm_get_mem: "jm_wf m \<Longrightarrow> jm_get m k = Some v \<longleftrightarrow> (k, v) \<in> set m"
  by (simp add: jm_get_def jm_wf_def)

lemma jm_has_set [simp]: "jm_has (jm_set m k v) k' \<longleftrightarrow> k' = k \<or> jm_has m k'"
  by (auto simp: jm_has_def)

lemma jm_has_delete [simp]: "jm_has (jm_delete m k) k' \<longleftrightarrow> k' \<noteq> k \<and> jm_has m k'"
  by (auto simp: jm_has_def)

end
