(* ===== verification/JsValue.thy ===== *)
theory JsValue
  imports JsMap
begin

text \<open>
  The JavaScript values that cross the program's interfaces, the operators the code applies
  to them (\<open>typeof\<close>, property read, \<open>in\<close>, \<open>??\<close>, truthiness, \<open>String\<close>), and the values
  that can be thrown.
  An object is the list of its own properties in insertion order. A \<open>Number\<close> is an integer
  here: the code passes fractional numbers through untouched and looks at a number only
  with \<open>typeof\<close>. Objects the code passes through without looking inside (functions, class
  instances) are objects of this type too.
\<close>

section \<open>Values\<close>

datatype jsval =
    JUndef
  | JNull
  | JBool bool
  | JNum int
  | JStr string
  | JArr "jsval list"
  | JObj "(string \<times> jsval) list"

type_synonym js_object = "(string \<times> jsval) list"

fun js_typeof :: "jsval \<Rightarrow> string" where
  "js_typeof JUndef = ''undefined''"
| "js_typeof JNull = ''object''"
| "js_typeof (JBool _) = ''boolean''"
| "js_typeof (JNum _) = ''number''"
| "js_typeof (JStr _) = ''string''"
| "js_typeof (JArr _) = ''object''"
| "js_typeof (JObj _) = ''object''"

text \<open>Reading a property that is absent gives \<open>undefined\<close>.\<close>

definition obj_get :: "js_object \<Rightarrow> string \<Rightarrow> jsval" where
  "obj_get ps k = (case map_of ps k of None \<Rightarrow> JUndef | Some v \<Rightarrow> v)"

fun js_get :: "jsval \<Rightarrow> string \<Rightarrow> jsval" where
  "js_get (JObj ps) k = obj_get ps k"
| "js_get _ k = JUndef"

definition obj_has :: "js_object \<Rightarrow> string \<Rightarrow> bool" where
  "obj_has ps k \<longleftrightarrow> map_of ps k \<noteq> None"

fun js_nullish :: "jsval \<Rightarrow> jsval \<Rightarrow> jsval" where
  "js_nullish JUndef d = d"
| "js_nullish JNull d = d"
| "js_nullish v d = v"

text \<open>A default parameter value replaces \<open>undefined\<close> only.\<close>

fun js_default :: "jsval \<Rightarrow> jsval \<Rightarrow> jsval" where
  "js_default d JUndef = d"
| "js_default d v = v"

fun js_truthy :: "jsval \<Rightarrow> bool" where
  "js_truthy JUndef = False"
| "js_truthy JNull = False"
| "js_truthy (JBool b) = b"
| "js_truthy (JNum n) = (n \<noteq> 0)"
| "js_truthy (JStr s) = (s \<noteq> [])"
| "js_truthy (JArr _) = True"
| "js_truthy (JObj _) = True"

text \<open>\<open>String(v)\<close>: arrays join their elements, null and undefined elements print empty.\<close>

fun js_string :: "jsval \<Rightarrow> string" where
  "js_string JUndef = ''undefined''"
| "js_string JNull = ''null''"
| "js_string (JBool b) = (if b then ''true'' else ''false'')"
| "js_string (JNum n) = int_digits n"
| "js_string (JStr s) = s"
| "js_string (JArr vs) =
     js_join '','' (map (\<lambda>v. if v = JUndef \<or> v = JNull then [] else js_string v) vs)"
| "js_string (JObj _) = ''[object Object]''"

lemma js_nullish_id [simp]: "v \<noteq> JUndef \<Longrightarrow> v \<noteq> JNull \<Longrightarrow> js_nullish v d = v"
  by (cases v) auto

lemma js_default_id [simp]: "v \<noteq> JUndef \<Longrightarrow> js_default d v = v"
  by (cases v) auto

lemma obj_get_simps [simp]:
  "obj_get [] k = JUndef"
  "obj_get ((k', v) # ps) k = (if k = k' then v else obj_get ps k)"
  by (simp_all add: obj_get_def)

lemma obj_has_simps [simp]:
  "obj_has [] k = False"
  "obj_has ((k', v) # ps) k = (k = k' \<or> obj_has ps k)"
  by (auto simp: obj_has_def)

lemma obj_get_absent: "\<not> obj_has ps k \<Longrightarrow> obj_get ps k = JUndef"
  by (simp add: obj_has_def obj_get_def)

section \<open>Thrown values\<close>

text \<open>
  \<open>err_kind\<close> is the class a thrown \<open>Error\<close> is an instance of, with the fields that class
  declares; \<open>err_extra\<close> are the further own properties of the object. \<open>KOther\<close> stands for
  every class outside the program (a validation library's error, a Redis error).
\<close>

datatype err_kind =
    KError
  | KTypeError
  | KInvalidRequest
  | KRpcError int jsval
  | KProtocolError
  | KTransportError jsval
  | KOther

record js_error =
  err_kind :: err_kind
  err_name :: string
  err_message :: string
  err_extra :: js_object

datatype thrown = Err js_error | Val jsval

text \<open>
  \<open>Object.getOwnPropertyNames\<close> of an error with the values of the properties. The text of
  \<open>stack\<close> is not modelled: the code never reads it.
\<close>

fun kind_props :: "err_kind \<Rightarrow> string \<Rightarrow> js_object" where
  "kind_props KError n = []"
| "kind_props KTypeError n = []"
| "kind_props KInvalidRequest n = [(''code'', JNum (-32600))]"
| "kind_props (KRpcError c d) n =
     [(''code'', JNum c), (''data'', d), (''name'', JStr n)]"
| "kind_props KProtocolError n = [(''name'', JStr n)]"
| "kind_props (KTransportError c) n = [(''cause'', c), (''name'', JStr n)]"
| "kind_props KOther n = []"

definition own_props :: "js_error \<Rightarrow> js_object" where
  "own_props e =
     [(''stack'', JStr []), (''message'', JStr (err_message e))]
     @ kind_props (err_kind e) (err_name e) @ err_extra e"

definition new_error :: "string \<Rightarrow> thrown" where
  "new_error msg =
     Err \<lparr>err_kind = KError, err_name = ''Error'', err_message = msg, err_extra = []\<rparr>"

definition type_error :: "string \<Rightarrow> thrown" where
  "type_error msg =
     Err \<lparr>err_kind = KTypeError, err_name = ''TypeError'', err_message = msg, err_extra = []\<rparr>"

text \<open>A caught value stored in a field of type \<open>unknown\<close>; an error object is an object.\<close>

fun thrown_value :: "thrown \<Rightarrow> jsval" where
  "thrown_value (Err e) = JObj (own_props e)"
| "thrown_value (Val v) = v"

text \<open>\<open>(e as Error).message\<close> of a caught value.\<close>

fun thrown_message :: "thrown \<Rightarrow> string" where
  "thrown_message (Err e) = err_message e"
| "thrown_message (Val v) =
     (case js_get v ''message'' of JStr s \<Rightarrow> s | u \<Rightarrow> js_string u)"

section \<open>Log records\<close>

datatype log_level = LogWarn | LogError

record log_record =
  log_level :: log_level
  log_msg :: string
  log_err :: thrown
  log_fields :: js_object

end
