(* ===== verification/Errors.thy ===== *)
theory Errors
  imports JsValue
begin

text \<open>
  \<open>ts/packages/protocol/src/error.ts\<close>: the three error classes and the function that turns
  any thrown value into the plain data an error response carries. The lemmas say what that
  data always holds and that nothing but JSON scalars and flat lists of them gets into it.
\<close>

section \<open>The error classes\<close>

definition new_rpc_error :: "int \<Rightarrow> string \<Rightarrow> jsval \<Rightarrow> thrown" where
  "new_rpc_error c msg d =
     Err \<lparr>err_kind = KRpcError c (js_default JNull d), err_name = ''RpcError'',
          err_message = msg, err_extra = []\<rparr>"

definition new_protocol_error :: "string \<Rightarrow> thrown" where
  "new_protocol_error msg =
     Err \<lparr>err_kind = KProtocolError, err_name = ''ClamatorProtocolError'',
          err_message = msg, err_extra = []\<rparr>"

definition new_transport_error :: "string \<Rightarrow> jsval \<Rightarrow> thrown" where
  "new_transport_error msg cause =
     Err \<lparr>err_kind = KTransportError (js_default JNull cause),
          err_name = ''ClamatorTransportError'', err_message = msg, err_extra = []\<rparr>"

definition transport_error :: "string \<Rightarrow> thrown" where
  "transport_error msg = new_transport_error msg JUndef"

text \<open>\<open>e instanceof RpcError\<close>, with the fields the dispatcher reads.\<close>

fun as_rpc_error :: "thrown \<Rightarrow> (int \<times> string \<times> jsval) option" where
  "as_rpc_error (Err e) =
     (case err_kind e of KRpcError c d \<Rightarrow> Some (c, err_message e, d) | _ \<Rightarrow> None)"
| "as_rpc_error (Val _) = None"

lemma as_rpc_error_new [simp]:
  "as_rpc_error (new_rpc_error c m d) = Some (c, m, js_default JNull d)"
  by (simp add: new_rpc_error_def)

section \<open>\<open>exceptionToErrorData\<close>\<close>

definition serializable_types :: "string list" where
  "serializable_types = [''string'', ''number'', ''boolean'']"

definition serializable_scalar :: "jsval \<Rightarrow> bool" where
  "serializable_scalar v \<longleftrightarrow> v = JNull \<or> js_typeof v \<in> set serializable_types"

text \<open>A property value is kept when it is such a scalar, or an array of them.\<close>

definition serializable_prop :: "jsval \<Rightarrow> bool" where
  "serializable_prop v \<longleftrightarrow>
     serializable_scalar v
     \<or> (case v of JArr vs \<Rightarrow> list_all serializable_scalar vs | _ \<Rightarrow> False)"

text \<open>The loop over \<open>Object.getOwnPropertyNames(err)\<close>, assigning into \<open>out\<close>.\<close>

fun copy_props :: "js_object \<Rightarrow> js_object \<Rightarrow> js_object" where
  "copy_props out [] = out"
| "copy_props out ((k, v) # ps) =
     (if k = ''stack'' \<or> k = ''message'' \<or> k = ''name'' then copy_props out ps
      else if serializable_prop v then copy_props (jm_set out k v) ps
      else copy_props out ps)"

fun exception_to_error_data :: "thrown \<Rightarrow> jsval" where
  "exception_to_error_data (Err e) =
     JObj (copy_props [(''name'', JStr (err_name e)), (''message'', JStr (err_message e))]
             (own_props e))"
| "exception_to_error_data (Val v) =
     JObj [(''name'', JStr (js_typeof v)), (''message'', JStr (js_string v))]"

lemma obj_get_jm: "obj_get ps k = (case jm_get ps k of None \<Rightarrow> JUndef | Some v \<Rightarrow> v)"
  by (simp add: obj_get_def jm_get_def)

lemma copy_props_reserved:
  "k \<in> {''stack'', ''message'', ''name''} \<Longrightarrow> jm_get (copy_props out ps) k = jm_get out k"
  by (induction out ps rule: copy_props.induct) auto

lemma copy_props_absent:
  "k \<notin> fst ` set ps \<Longrightarrow> jm_get (copy_props out ps) k = jm_get out k"
  by (induction out ps rule: copy_props.induct) auto

text \<open>Every other own property is kept exactly when its value is serializable.\<close>

lemma copy_props_own:
  assumes "distinct (map fst ps)" "(k, v) \<in> set ps" "k \<notin> {''stack'', ''message'', ''name''}"
  shows "jm_get (copy_props out ps) k = (if serializable_prop v then Some v else jm_get out k)"
  using assms
proof (induction out ps rule: copy_props.induct)
  case (1 out)
  then show ?case by simp
next
  case (2 out k' v' ps)
  show ?case
  proof (cases "k' = k")
    case True
    with "2.prems" have "v' = v" "k \<notin> fst ` set ps" by (auto simp: image_iff)
    with True "2.prems" show ?thesis by (simp add: copy_props_absent)
  next
    case False
    with "2.prems" have "(k, v) \<in> set ps" by simp
    with False "2.prems" show ?thesis by (auto simp: "2.IH")
  qed
qed

lemma copy_props_values:
  "(k, v) \<in> set (copy_props out ps) \<Longrightarrow> (k, v) \<in> set out \<or> serializable_prop v"
proof (induction out ps rule: copy_props.induct)
  case (1 out)
  then show ?case by simp
next
  case (2 out k' v' ps)
  have "(k, v) \<in> set (jm_set out k' v') \<Longrightarrow> (k, v) \<in> set out \<or> v = v'" for out :: js_object
    by (induction out k' v' rule: jm_set.induct) (auto split: if_splits)
  with 2 show ?case by (auto split: if_splits)
qed

text \<open>The shape every consumer of the data can rely on: a flat, acyclic value.\<close>

fun flat_object :: "jsval \<Rightarrow> bool" where
  "flat_object (JObj ps) = list_all (\<lambda>(k, v). serializable_prop v) ps"
| "flat_object _ = False"

lemma exception_to_error_data_flat: "flat_object (exception_to_error_data e)"
proof (cases e)
  case (Err x)
  then show ?thesis
    by (auto simp: list_all_iff serializable_prop_def serializable_scalar_def
        serializable_types_def dest!: copy_props_values)
next
  case (Val x)
  then show ?thesis
    by (simp add: serializable_prop_def serializable_scalar_def serializable_types_def)
qed

lemma exception_to_error_data_name:
  "js_get (exception_to_error_data (Err e)) ''name'' = JStr (err_name e)"
  "js_get (exception_to_error_data (Err e)) ''message'' = JStr (err_message e)"
  "js_get (exception_to_error_data (Err e)) ''stack'' = JUndef"
  by (simp_all add: obj_get_jm copy_props_reserved) (simp_all add: jm_get_def)

lemma exception_to_error_data_obj: "\<exists>ps. exception_to_error_data e = JObj ps"
  by (cases e) auto

section \<open>Properties\<close>


definition sample_error :: js_error where
  "sample_error = \<lparr>err_kind = KRpcError 7 (JArr [JNum 1, JNull]), err_name = ''RpcError'',
     err_message = ''bad'', err_extra = [(''hint'', JObj [])]\<rparr>"


end
