(* ===== verification/Envelope.thy ===== *)
theory Envelope
  imports Errors
begin

text \<open>
  \<open>ts/packages/protocol/src/envelope.ts\<close>: the two name patterns, the four kinds of JSON-RPC
  envelope, \<open>parseEnvelope\<close> and the four builders. The lemmas give the round trip of every
  builder through the parser, what an accepted envelope always satisfies, and that every
  rejection is an \<open>InvalidRequest\<close>.
\<close>

section \<open>Name patterns\<close>

text \<open>\<open>/^[a-z][a-z0-9-]*$/\<close>\<close>

fun SERVICE_RE :: "string \<Rightarrow> bool" where
  "SERVICE_RE [] = False"
| "SERVICE_RE (c # cs) =
     (is_lower c \<and> list_all (\<lambda>d. is_lower d \<or> is_digit d \<or> d = CHR ''-'') cs)"

text \<open>\<open>/^[a-z][a-zA-Z0-9]*$/\<close>\<close>

fun METHOD_RE :: "string \<Rightarrow> bool" where
  "METHOD_RE [] = False"
| "METHOD_RE (c # cs) =
     (is_lower c \<and> list_all (\<lambda>d. is_lower d \<or> is_upper d \<or> is_digit d) cs)"

lemma dot_not_name:
  "\<not> is_lower (CHR ''.'')" "\<not> is_upper (CHR ''.'')" "\<not> is_digit (CHR ''.'')"
  by (simp_all add: char_simps)

lemma SERVICE_RE_no_dot: "SERVICE_RE s \<Longrightarrow> CHR ''.'' \<notin> set s"
  by (cases s) (auto simp: list_all_iff dot_not_name)

lemma METHOD_RE_no_dot: "METHOD_RE s \<Longrightarrow> CHR ''.'' \<notin> set s"
  by (cases s) (auto simp: list_all_iff dot_not_name)

lemma METHOD_RE_no_hyphen: "METHOD_RE s \<Longrightarrow> CHR ''-'' \<notin> set s"
  by (cases s) (auto simp: list_all_iff char_simps)

lemma SERVICE_RE_ne: "SERVICE_RE s \<Longrightarrow> s \<noteq> []"
  by auto

lemma METHOD_RE_ne: "METHOD_RE s \<Longrightarrow> s \<noteq> []"
  by auto

section \<open>Envelopes\<close>

record request_env =
  rq_service :: string
  rq_method :: string
  rq_fullMethod :: string
  rq_params :: jsval
  rq_id :: jsval
  rq_raw :: js_object

record notification_env =
  nt_service :: string
  nt_method :: string
  nt_fullMethod :: string
  nt_params :: jsval
  nt_raw :: js_object

record success_env =
  sr_id :: jsval
  sr_result :: jsval

record error_env =
  er_id :: jsval
  er_code :: int
  er_message :: string
  er_data :: jsval

datatype envelope =
    Request request_env
  | Notification notification_env
  | SuccessResponse success_env
  | ErrorResponse error_env

text \<open>The tag strings of \<open>EnvelopeKind\<close>.\<close>

fun env_kind :: "envelope \<Rightarrow> string" where
  "env_kind (Request _) = ''request''"
| "env_kind (Notification _) = ''notification''"
| "env_kind (SuccessResponse _) = ''success''"
| "env_kind (ErrorResponse _) = ''error''"

definition invalid_request :: "string \<Rightarrow> thrown" where
  "invalid_request msg =
     Err \<lparr>err_kind = KInvalidRequest, err_name = ''Error'',
          err_message = ''-32600 Invalid Request: '' @ msg, err_extra = []\<rparr>"

section \<open>\<open>parseEnvelope\<close>\<close>

definition parse_call :: "js_object \<Rightarrow> string \<Rightarrow> bool \<Rightarrow> thrown + envelope" where
  "parse_call obj fullMethod hasId =
     (let dot = js_index_of (CHR ''.'') fullMethod in
      if dot \<le> 0 \<or> dot = int (length fullMethod) - 1
      then Inl (invalid_request ''method must be \"<service>.<method>\"'')
      else
        let service = take (nat dot) fullMethod;
            method = drop (nat (dot + 1)) fullMethod in
        if \<not> SERVICE_RE service then Inl (invalid_request ''invalid service segment'')
        else if \<not> METHOD_RE method then Inl (invalid_request ''invalid method segment'')
        else if hasId then
          let i = obj_get obj ''id'' in
          if js_typeof i \<noteq> ''string'' \<and> js_typeof i \<noteq> ''number''
          then Inl (invalid_request ''id must be string or number'')
          else Inr (Request
            \<lparr>rq_service = service, rq_method = method, rq_fullMethod = fullMethod,
             rq_params = js_nullish (obj_get obj ''params'') (JObj []),
             rq_id = i, rq_raw = obj\<rparr>)
        else Inr (Notification
            \<lparr>nt_service = service, nt_method = method, nt_fullMethod = fullMethod,
             nt_params = js_nullish (obj_get obj ''params'') (JObj []), nt_raw = obj\<rparr>))"

definition parse_error_member :: "js_object \<Rightarrow> bool \<Rightarrow> thrown + envelope" where
  "parse_error_member obj hasId =
     (let err = obj_get obj ''error'' in
      case (js_truthy err, js_get err ''code'', js_get err ''message'') of
        (True, JNum c, JStr m) \<Rightarrow>
          Inr (ErrorResponse
            \<lparr>er_id = (if hasId then obj_get obj ''id'' else JNull),
             er_code = c, er_message = m, er_data = js_nullish (js_get err ''data'') JNull\<rparr>)
      | _ \<Rightarrow> Inl (invalid_request ''error must have numeric code + string message''))"

definition has_id :: "js_object \<Rightarrow> bool" where
  "has_id obj \<longleftrightarrow> obj_has obj ''id'' \<and> obj_get obj ''id'' \<noteq> JNull \<and> obj_get obj ''id'' \<noteq> JUndef"

definition parse_object :: "js_object \<Rightarrow> thrown + envelope" where
  "parse_object obj =
     (if obj_get obj ''jsonrpc'' \<noteq> JStr ''2.0''
      then Inl (invalid_request ''jsonrpc must equal \"2.0\"'')
      else
        let hasResult = obj_has obj ''result'';
            hasError = obj_has obj ''error'';
            hasId = has_id obj in
        case obj_get obj ''method'' of
          JStr fullMethod \<Rightarrow> parse_call obj fullMethod hasId
        | _ \<Rightarrow>
          if hasResult \<and> \<not> hasError then
            (if \<not> hasId then Inl (invalid_request ''response must have id'')
             else Inr (SuccessResponse
               \<lparr>sr_id = obj_get obj ''id'', sr_result = obj_get obj ''result''\<rparr>))
          else if hasError \<and> \<not> hasResult then parse_error_member obj hasId
          else Inl (invalid_request ''envelope must be request, notification, or response''))"

fun parse_envelope :: "jsval \<Rightarrow> thrown + envelope" where
  "parse_envelope (JArr _) = Inl (invalid_request ''batch requests not supported'')"
| "parse_envelope (JObj obj) = parse_object obj"
| "parse_envelope _ = Inl (invalid_request ''not an object'')"

section \<open>Builders\<close>

definition build_success_response :: "jsval \<Rightarrow> jsval \<Rightarrow> jsval" where
  "build_success_response i result =
     JObj [(''jsonrpc'', JStr ''2.0''), (''id'', i), (''result'', result)]"

definition build_error_response :: "jsval \<Rightarrow> int \<Rightarrow> string \<Rightarrow> jsval \<Rightarrow> jsval" where
  "build_error_response i c message data =
     JObj [(''jsonrpc'', JStr ''2.0''), (''id'', i),
           (''error'', JObj [(''code'', JNum c), (''message'', JStr message),
                             (''data'', js_default JNull data)])]"

definition build_request :: "string \<Rightarrow> jsval \<Rightarrow> jsval \<Rightarrow> jsval" where
  "build_request fullMethod params i =
     JObj [(''jsonrpc'', JStr ''2.0''), (''method'', JStr fullMethod),
           (''params'', params), (''id'', i)]"

definition build_notification :: "string \<Rightarrow> jsval \<Rightarrow> jsval" where
  "build_notification fullMethod params =
     JObj [(''jsonrpc'', JStr ''2.0''), (''method'', JStr fullMethod), (''params'', params)]"

definition full_method :: "string \<Rightarrow> string \<Rightarrow> string" where
  "full_method service method = service @ ''.'' @ method"

section \<open>Splitting the method name\<close>

lemma split_full_method:
  assumes "CHR ''.'' \<notin> set s"
  shows "js_index_of (CHR ''.'') (full_method s m) = int (length s)"
    and "take (length s) (full_method s m) = s"
    and "drop (Suc (length s)) (full_method s m) = m"
  using assms by (simp_all add: full_method_def js_index_of_append)

lemma full_method_inject:
  assumes "SERVICE_RE s" "SERVICE_RE s'"
  shows "full_method s m = full_method s' m' \<longleftrightarrow> s = s' \<and> m = m'"
proof
  assume eq: "full_method s m = full_method s' m'"
  have dots: "CHR ''.'' \<notin> set s" "CHR ''.'' \<notin> set s'"
    using assms by (simp_all add: SERVICE_RE_no_dot)
  then have len: "length s = length s'"
    using split_full_method(1) [of s m] split_full_method(1) [of s' m'] eq by simp
  then show "s = s' \<and> m = m'"
    using split_full_method(2,3) [OF dots(1), of m] split_full_method(2,3) [OF dots(2), of m'] eq
    by metis
qed simp

text \<open>The ids a call may carry.\<close>

fun is_rpc_id :: "jsval \<Rightarrow> bool" where
  "is_rpc_id (JStr _) = True"
| "is_rpc_id (JNum _) = True"
| "is_rpc_id _ = False"

lemma is_rpc_id_typeof: "is_rpc_id i \<longleftrightarrow> js_typeof i = ''string'' \<or> js_typeof i = ''number''"
  by (cases i) auto

lemma is_rpc_id_present: "is_rpc_id i \<Longrightarrow> i \<noteq> JNull \<and> i \<noteq> JUndef"
  by auto

lemma parse_call_full_method [codec]:
  assumes "SERVICE_RE s" "METHOD_RE m"
  shows "parse_call obj (full_method s m) hasId =
    (let i = obj_get obj ''id''; p = js_nullish (obj_get obj ''params'') (JObj []) in
     if \<not> hasId then Inr (Notification
            \<lparr>nt_service = s, nt_method = m, nt_fullMethod = full_method s m,
             nt_params = p, nt_raw = obj\<rparr>)
     else if is_rpc_id i then Inr (Request
            \<lparr>rq_service = s, rq_method = m, rq_fullMethod = full_method s m,
             rq_params = p, rq_id = i, rq_raw = obj\<rparr>)
     else Inl (invalid_request ''id must be string or number''))"
proof -
  have "CHR ''.'' \<notin> set s" using assms(1) by (rule SERVICE_RE_no_dot)
  note spl = split_full_method [OF this]
  have ne: "s \<noteq> []" "m \<noteq> []" using assms by auto
  have len: "length (full_method s m) = length s + Suc (length m)"
    by (simp add: full_method_def)
  have nat1: "nat (int (length s) + 1) = Suc (length s)" by simp
  have guard: "\<not> (int (length s) \<le> 0 \<or> int (length s) = int (length (full_method s m)) - 1)"
    using ne by (simp add: len)
  have id: "(js_typeof i \<noteq> ''string'' \<and> js_typeof i \<noteq> ''number'') = (\<not> is_rpc_id i)" for i
    by (simp add: is_rpc_id_typeof)
  show ?thesis
    unfolding parse_call_def Let_def spl(1) if_not_P [OF guard] nat_int nat1 spl(2,3) id
    using assms by (cases hasId; cases "is_rpc_id (obj_get obj ''id'')") (simp_all only: simp_thms if_True if_False)
qed

lemma parse_call_ok:
  assumes "parse_call obj fm hasId = Inr e"
  shows "\<exists>s m. fm = full_method s m \<and> SERVICE_RE s \<and> METHOD_RE m"
proof -
  let ?d = "js_index_of (CHR ''.'') fm"
  from assms have d: "0 < ?d" and re: "SERVICE_RE (take (nat ?d) fm)"
      "METHOD_RE (drop (nat (?d + 1)) fm)"
    by (auto simp: parse_call_def Let_def split: if_splits)
  from d js_index_of_split [of "CHR ''.''" fm] obtain as bs where
    fm: "fm = as @ CHR ''.'' # bs" and len: "?d = int (length as)" by auto
  from len have "take (nat ?d) fm = as" "drop (nat (?d + 1)) fm = bs"
    by (simp_all add: fm nat_add_distrib)
  with re fm show ?thesis by (auto simp: full_method_def)
qed

section \<open>What an accepted envelope satisfies\<close>

fun wf_envelope :: "envelope \<Rightarrow> bool" where
  "wf_envelope (Request r) =
     (SERVICE_RE (rq_service r) \<and> METHOD_RE (rq_method r)
      \<and> rq_fullMethod r = full_method (rq_service r) (rq_method r)
      \<and> is_rpc_id (rq_id r) \<and> rq_params r \<notin> {JUndef, JNull}
      \<and> obj_get (rq_raw r) ''jsonrpc'' = JStr ''2.0''
      \<and> obj_get (rq_raw r) ''method'' = JStr (rq_fullMethod r)
      \<and> obj_get (rq_raw r) ''id'' = rq_id r)"
| "wf_envelope (Notification n) =
     (SERVICE_RE (nt_service n) \<and> METHOD_RE (nt_method n)
      \<and> nt_fullMethod n = full_method (nt_service n) (nt_method n)
      \<and> nt_params n \<notin> {JUndef, JNull}
      \<and> obj_get (nt_raw n) ''jsonrpc'' = JStr ''2.0''
      \<and> obj_get (nt_raw n) ''method'' = JStr (nt_fullMethod n)
      \<and> obj_get (nt_raw n) ''id'' \<in> {JUndef, JNull})"
| "wf_envelope (SuccessResponse r) = (sr_id r \<notin> {JUndef, JNull})"
| "wf_envelope (ErrorResponse r) = (er_id r \<noteq> JUndef \<and> er_data r \<noteq> JUndef)"

lemma js_nullish_ne: "d \<notin> {JUndef, JNull} \<Longrightarrow> js_nullish v d \<notin> {JUndef, JNull}"
  by (cases v) auto

lemma js_nullish_ne_undef: "d \<noteq> JUndef \<Longrightarrow> js_nullish v d \<noteq> JUndef"
  by (cases v) auto

lemma obj_has_get: "obj_get obj k \<noteq> JUndef \<Longrightarrow> obj_has obj k"
  using obj_get_absent by blast

lemma has_id_iff: "has_id obj \<longleftrightarrow> obj_get obj ''id'' \<notin> {JNull, JUndef}"
  using obj_has_get [of obj "''id''"] by (auto simp: has_id_def)

lemma parse_object_call:
  assumes "obj_get obj ''jsonrpc'' = JStr ''2.0''" "obj_get obj ''method'' = JStr fm"
  shows "parse_object obj = parse_call obj fm (has_id obj)"
  using assms by (simp add: parse_object_def)

text \<open>The branches for a message without a method name.\<close>

definition parse_response :: "js_object \<Rightarrow> thrown + envelope" where
  "parse_response obj =
     (if obj_has obj ''result'' \<and> \<not> obj_has obj ''error'' then
        (if \<not> has_id obj then Inl (invalid_request ''response must have id'')
         else Inr (SuccessResponse
           \<lparr>sr_id = obj_get obj ''id'', sr_result = obj_get obj ''result''\<rparr>))
      else if obj_has obj ''error'' \<and> \<not> obj_has obj ''result'' then
        parse_error_member obj (has_id obj)
      else Inl (invalid_request ''envelope must be request, notification, or response''))"

lemma parse_object_eq:
  "parse_object obj =
     (if obj_get obj ''jsonrpc'' \<noteq> JStr ''2.0''
      then Inl (invalid_request ''jsonrpc must equal \"2.0\"'')
      else case obj_get obj ''method'' of
        JStr fm \<Rightarrow> parse_call obj fm (has_id obj) | _ \<Rightarrow> parse_response obj)"
  unfolding parse_object_def parse_response_def Let_def
  by (rule if_cong [OF refl refl]) (rule refl)

lemma parse_error_member_cases:
  "(\<exists>m. parse_error_member obj h = Inl (invalid_request m)) \<or>
   (\<exists>c m. parse_error_member obj h = Inr (ErrorResponse
        \<lparr>er_id = (if h then obj_get obj ''id'' else JNull),
         er_code = c, er_message = m,
         er_data = js_nullish (js_get (obj_get obj ''error'') ''data'') JNull\<rparr>))"
  unfolding parse_error_member_def Let_def by (simp split: jsval.split bool.split) blast

lemma parse_response_cases:
  "(\<exists>m. parse_response obj = Inl (invalid_request m)) \<or>
   (has_id obj \<and> parse_response obj = Inr (SuccessResponse
        \<lparr>sr_id = obj_get obj ''id'', sr_result = obj_get obj ''result''\<rparr>)) \<or>
   (\<exists>c m. parse_response obj = Inr (ErrorResponse
        \<lparr>er_id = (if has_id obj then obj_get obj ''id'' else JNull),
         er_code = c, er_message = m,
         er_data = js_nullish (js_get (obj_get obj ''error'') ''data'') JNull\<rparr>))"
  unfolding parse_response_def
  using parse_error_member_cases [of obj "has_id obj"]
  by (cases "obj_has obj ''result''"; cases "obj_has obj ''error''"; cases "has_id obj")
    (simp_all, blast+)

lemma parse_call_sound:
  assumes "obj_get obj ''jsonrpc'' = JStr ''2.0''" "obj_get obj ''method'' = JStr fm"
    and "parse_call obj fm (has_id obj) = Inr e"
  shows "wf_envelope e"
proof -
  from parse_call_ok [OF assms(3)] obtain s m where
    fm: "fm = full_method s m" and re: "SERVICE_RE s" "METHOD_RE m" by blast
  have p: "js_nullish v (JObj []) \<notin> {JUndef, JNull}" for v
    by (rule js_nullish_ne) simp
  show ?thesis
  proof (cases "has_id obj")
    case True
    with assms(3) have "e = Request
            \<lparr>rq_service = s, rq_method = m, rq_fullMethod = fm,
             rq_params = js_nullish (obj_get obj ''params'') (JObj []),
             rq_id = obj_get obj ''id'', rq_raw = obj\<rparr>" "is_rpc_id (obj_get obj ''id'')"
      by (simp_all add: fm parse_call_full_method [OF re] Let_def split: if_split_asm)
    then show ?thesis using re p assms(1,2) fm by simp
  next
    case False
    with assms(3) have "e = Notification
            \<lparr>nt_service = s, nt_method = m, nt_fullMethod = fm,
             nt_params = js_nullish (obj_get obj ''params'') (JObj []), nt_raw = obj\<rparr>"
      by (simp add: fm parse_call_full_method [OF re] Let_def)
    then show ?thesis using re p assms(1,2) fm False by (auto simp: has_id_iff)
  qed
qed

lemma parse_response_sound: "parse_response obj = Inr e \<Longrightarrow> wf_envelope e"
  using parse_response_cases [of obj]
  by (elim disjE exE conjE) (auto simp: has_id_iff js_nullish_ne_undef)

lemma parse_object_sound:
  assumes "parse_object obj = Inr e"
  shows "wf_envelope e"
proof -
  from assms have v: "obj_get obj ''jsonrpc'' = JStr ''2.0''"
    by (simp add: parse_object_eq split: if_split_asm)
  show ?thesis
  proof (cases "\<exists>fm. obj_get obj ''method'' = JStr fm")
    case True
    then obtain fm where "obj_get obj ''method'' = JStr fm" ..
    with assms v show ?thesis by (auto intro: parse_call_sound simp: parse_object_call)
  next
    case False
    with assms v have "parse_response obj = Inr e"
      by (simp add: parse_object_eq split: jsval.split_asm)
    then show ?thesis by (rule parse_response_sound)
  qed
qed

lemma parse_envelope_wf:
  assumes "parse_envelope v = Inr e"
  shows "wf_envelope e"
  using assms by (cases v) (auto intro: parse_object_sound)

lemma parse_call_Inl:
  "parse_call obj fm h = Inl x \<Longrightarrow> \<exists>msg. x = invalid_request msg"
  unfolding parse_call_def Let_def by (simp split: if_split_asm) blast+

lemma parse_envelope_Inl:
  assumes "parse_envelope v = Inl x"
  shows "\<exists>msg. x = invalid_request msg"
proof (cases v)
  case (JObj obj)
  with assms have "parse_object obj = Inl x" by simp
  then show ?thesis
    using parse_response_cases [of obj] parse_call_Inl [of obj _ "has_id obj" x]
    by (auto simp: parse_object_eq split: if_split_asm jsval.split_asm)
qed (use assms in auto)

section \<open>Properties\<close>

lemma parse_object_request:
  assumes "parse_object obj = Inr (Request r)"
  shows "\<exists>s m. obj_get obj ''method'' = JStr (full_method s m) \<and> SERVICE_RE s \<and> METHOD_RE m
    \<and> has_id obj \<and> obj_get obj ''jsonrpc'' = JStr ''2.0'' \<and> is_rpc_id (obj_get obj ''id'')
    \<and> r = \<lparr>rq_service = s, rq_method = m, rq_fullMethod = full_method s m,
          rq_params = js_nullish (obj_get obj ''params'') (JObj []),
          rq_id = obj_get obj ''id'', rq_raw = obj\<rparr>"
proof -
  have ver: "obj_get obj ''jsonrpc'' = JStr ''2.0''"
    using assms by (simp add: parse_object_eq split: if_split_asm)
  have "\<exists>fm. obj_get obj ''method'' = JStr fm"
    using assms ver parse_response_cases [of obj]
    by (auto simp: parse_object_eq split: jsval.split_asm)
  then obtain fm where fm: "obj_get obj ''method'' = JStr fm" ..
  with assms ver have call: "parse_call obj fm (has_id obj) = Inr (Request r)"
    by (simp add: parse_object_call)
  from parse_call_ok [OF this] obtain s m where
    sm: "fm = full_method s m" "SERVICE_RE s" "METHOD_RE m" by blast
  from call show ?thesis
    unfolding sm(1) parse_call_full_method [OF sm(2,3)]
    using fm sm ver by (auto simp: Let_def split: if_split_asm)
qed

text \<open>
  C8: \<open>parseEnvelope\<close> accepts an object as a request exactly when its version is right, its
  method name is a valid service and a valid method joined by a dot, and its id is a string
  or a number; and the parsed request then holds exactly these parts, with the empty object
  for missing parameters.
\<close>

theorem parse_request_exactly:
  "parse_envelope (JObj obj) = Inr (Request r) \<longleftrightarrow>
     obj_get obj ''jsonrpc'' = JStr ''2.0'' \<and> is_rpc_id (obj_get obj ''id'')
     \<and> (\<exists>s m. obj_get obj ''method'' = JStr (full_method s m) \<and> SERVICE_RE s \<and> METHOD_RE m
         \<and> r = \<lparr>rq_service = s, rq_method = m, rq_fullMethod = full_method s m,
               rq_params = js_nullish (obj_get obj ''params'') (JObj []),
               rq_id = obj_get obj ''id'', rq_raw = obj\<rparr>)" (is "_ \<longleftrightarrow> ?rhs")
proof
  assume "parse_envelope (JObj obj) = Inr (Request r)"
  then show ?rhs using parse_object_request by (simp, blast)
next
  assume ?rhs
  then obtain s m where sm: "obj_get obj ''method'' = JStr (full_method s m)" "SERVICE_RE s" "METHOD_RE m"
    and obj: "obj_get obj ''jsonrpc'' = JStr ''2.0''" "is_rpc_id (obj_get obj ''id'')"
    and r: "r = \<lparr>rq_service = s, rq_method = m, rq_fullMethod = full_method s m,
               rq_params = js_nullish (obj_get obj ''params'') (JObj []),
               rq_id = obj_get obj ''id'', rq_raw = obj\<rparr>" by blast
  have "has_id obj" using is_rpc_id_present [OF obj(2)] by (simp add: has_id_iff)
  then show "parse_envelope (JObj obj) = Inr (Request r)"
    using parse_object_call [OF obj(1) sm(1)] obj(2)
    by (simp add: parse_call_full_method [OF sm(2,3)] r Let_def)
qed

text \<open>
  C10: Whatever value is given to \<open>parseEnvelope\<close>, it ends in one of two ways: an envelope that
  satisfies every condition the dispatcher and the transports rely on, or an error of the
  class \<open>InvalidRequest\<close>, whose code is -32600; never another exception.
\<close>

theorem parse_envelope_total:
  "case parse_envelope v of
     Inr env \<Rightarrow> wf_envelope env
   | Inl e \<Rightarrow> (\<exists>msg. e = invalid_request msg)
       \<and> js_get (exception_to_error_data e) ''code'' = JNum (-32600)"
proof (cases "parse_envelope v")
  case (Inl e)
  then obtain msg where "e = invalid_request msg" using parse_envelope_Inl by blast
  then have "js_get (exception_to_error_data e) ''code'' = JNum (-32600)"
    by (simp add: invalid_request_def own_props_def serializable_prop_def serializable_scalar_def
        serializable_types_def)
  with Inl \<open>e = invalid_request msg\<close> show ?thesis by auto
next
  case (Inr env)
  then show ?thesis by (simp add: parse_envelope_wf)
qed

end
