(* ===== verification/Contracts.thy ===== *)
theory Contracts
  imports Envelope
begin

text \<open>
  \<open>ts/packages/protocol/src/contract.ts\<close>: method and notification definitions, and the
  validation \<open>defineContract\<close> performs. A schema belongs to a third-party validation
  library; it is modelled by its \<open>parse\<close> operation, a function that returns the parsed
  value or throws. The main lemma characterises the accepted contracts.
\<close>

type_synonym schema = "jsval \<Rightarrow> thrown + jsval"

text \<open>
  A definition object: \<open>md_result\<close> is \<open>None\<close> when the object has no \<open>result\<close> key and
  \<open>Some None\<close> when the key is there with the value \<open>undefined\<close>; \<open>md_notification\<close> is the
  value of the \<open>notification\<close> property, \<open>JUndef\<close> when it is absent.
\<close>

record method_def =
  md_params :: schema
  md_result :: "schema option option"
  md_notification :: jsval

record contract =
  ct_service :: string
  ct_methods :: "(string, method_def) jsmap"

definition is_notification_def :: "method_def \<Rightarrow> bool" where
  "is_notification_def d \<longleftrightarrow> md_notification d = JBool True"

definition defineMethod :: "method_def \<Rightarrow> method_def" where
  "defineMethod d = d"

definition defineNotification :: "method_def \<Rightarrow> method_def" where
  "defineNotification d = d\<lparr>md_notification := JBool True\<rparr>"

text \<open>The loop body for one entry of \<open>methods\<close>; \<open>None\<close> when the entry passes.\<close>

definition check_method :: "string \<Rightarrow> method_def \<Rightarrow> thrown option" where
  "check_method name d =
     (if \<not> METHOD_RE name then
        Some (new_error (''invalid method name \"'' @ name
               @ ''\" (must match ^[a-z][a-zA-Z0-9]*$)''))
      else if is_notification_def d then
        (if md_result d \<noteq> None
         then Some (new_error (''notification \"'' @ name @ ''\" must not include result''))
         else None)
      else
        (if md_result d = None \<or> md_result d = Some None
         then Some (new_error (''method \"'' @ name @ ''\" must include result schema''))
         else None))"

fun check_methods :: "(string \<times> method_def) list \<Rightarrow> thrown option" where
  "check_methods [] = None"
| "check_methods ((name, d) # ms) =
     (case check_method name d of Some e \<Rightarrow> Some e | None \<Rightarrow> check_methods ms)"

definition defineContract ::
    "string \<Rightarrow> (string, method_def) jsmap \<Rightarrow> thrown + contract" where
  "defineContract service methods =
     (if \<not> SERVICE_RE service then
        Inl (new_error (''invalid service name \"'' @ service
               @ ''\" (must match ^[a-z][a-z0-9-]*$)''))
      else case check_methods methods of
        Some e \<Rightarrow> Inl e
      | None \<Rightarrow> Inr \<lparr>ct_service = service, ct_methods = methods\<rparr>)"

section \<open>The contracts that pass\<close>

text \<open>A notification has no result schema and every other method has one.\<close>

definition wf_method :: "string \<Rightarrow> method_def \<Rightarrow> bool" where
  "wf_method name d \<longleftrightarrow>
     METHOD_RE name
     \<and> (if is_notification_def d then md_result d = None
        else (\<exists>r. md_result d = Some (Some r)))"

definition wf_contract :: "contract \<Rightarrow> bool" where
  "wf_contract c \<longleftrightarrow>
     SERVICE_RE (ct_service c) \<and> (\<forall>(name, d) \<in> set (ct_methods c). wf_method name d)"

lemma check_method_None: "check_method name d = None \<longleftrightarrow> wf_method name d"
proof -
  have "(md_result d = None \<or> md_result d = Some None) \<longleftrightarrow> \<not> (\<exists>r. md_result d = Some (Some r))"
    by (metis option.exhaust option.distinct(1) option.inject)
  then show ?thesis by (simp add: check_method_def wf_method_def)
qed

lemma check_methods_None:
  "check_methods ms = None \<longleftrightarrow> (\<forall>(name, d) \<in> set ms. wf_method name d)"
  by (induction ms rule: check_methods.induct)
    (auto simp flip: check_method_None split: option.split)

lemma defineContract_Inr:
  "defineContract s ms = Inr c \<longleftrightarrow>
     c = \<lparr>ct_service = s, ct_methods = ms\<rparr> \<and> wf_contract c"
  by (auto simp: defineContract_def wf_contract_def simp flip: check_methods_None split: option.splits)

lemma wf_contract_method:
  "wf_contract c \<Longrightarrow> jm_get (ct_methods c) m = Some d \<Longrightarrow> wf_method m d"
  by (auto simp: wf_contract_def jm_get_def dest!: map_of_SomeD)

text \<open>Some of the rejections that follow, by the message the caller sees.\<close>

lemma defineContract_rejects_hyphen:
  assumes "CHR ''-'' \<in> set m" "SERVICE_RE s"
  shows "defineContract s [(m, d)] = Inl (new_error (''invalid method name \"'' @ m
               @ ''\" (must match ^[a-z][a-zA-Z0-9]*$)''))"
proof -
  from assms(1) have "\<not> METHOD_RE m" using METHOD_RE_no_hyphen by blast
  with assms(2) show ?thesis by (simp add: defineContract_def check_method_def)
qed

end
