(* ===== verification/Interfaces.thy ===== *)
theory Interfaces
  imports Contracts
begin

text \<open>
  The contracts several components share, as locales: the start/stop life cycle of the
  cores and the transports, the registration of named entries, and the guards of the
  \<open>Transport\<close> interface of \<open>ts/packages/protocol/src/transport.ts\<close>. Each component that
  promises one of them interprets it on its own model, and gets its lemmas from there.
  A stateful operation that may throw has the type \<open>'s \<Rightarrow> (thrown + 'a) \<times> 's\<close>: the state
  changes made before a throw are kept.
\<close>

datatype run_state = Idle | Started | Stopped

fun state_name :: "run_state \<Rightarrow> string" where
  "state_name Idle = ''idle''"
| "state_name Started = ''started''"
| "state_name Stopped = ''stopped''"

section \<open>Life cycle\<close>

datatype lc_command = CmdStart | CmdStop

fun lc_run :: "('s \<Rightarrow> (thrown + unit) \<times> 's) \<Rightarrow> ('s \<Rightarrow> (thrown + unit) \<times> 's) \<Rightarrow>
    lc_command list \<Rightarrow> 's \<Rightarrow> 's" where
  "lc_run start stop [] s = s"
| "lc_run start stop (CmdStart # cs) s = lc_run start stop cs (snd (start s))"
| "lc_run start stop (CmdStop # cs) s = lc_run start stop cs (snd (stop s))"

locale lifecycle =
  fixes st :: "'s \<Rightarrow> run_state"
    and start :: "'s \<Rightarrow> (thrown + unit) \<times> 's"
    and stop :: "'s \<Rightarrow> (thrown + unit) \<times> 's"
  assumes start_stopped: "st s = Stopped \<Longrightarrow> is_Inl (fst (start s)) \<and> snd (start s) = s"
    and start_started: "st s = Started \<Longrightarrow> start s = (Inr (), s)"
    and start_ok: "fst (start s) = Inr () \<Longrightarrow> st (snd (start s)) = Started"
    and stop_ok: "fst (stop s) = Inr () \<Longrightarrow> st (snd (stop s)) = Stopped"
    and stop_stopped: "st s = Stopped \<Longrightarrow> fst (stop s) = Inr ()"
begin

lemma stopped_step:
  assumes "st s = Stopped"
  shows "st (snd (start s)) = Stopped" "st (snd (stop s)) = Stopped"
  using assms start_stopped [of s] stop_ok [of s] stop_stopped [of s] by auto

lemma stopped_forever: "st s = Stopped \<Longrightarrow> st (lc_run start stop cs s) = Stopped"
proof (induction cs arbitrary: s)
  case Nil
  then show ?case by simp
next
  case (Cons c cs)
  then show ?case by (cases c) (simp_all add: stopped_step)
qed

lemma no_restart:
  assumes "fst (stop s) = Inr ()"
  shows "is_Inl (fst (start (lc_run start stop cs (snd (stop s)))))"
  using stopped_forever [of "snd (stop s)" cs] stop_ok [OF assms] start_stopped by blast

lemma start_idempotent:
  assumes "fst (start s) = Inr ()"
  shows "start (snd (start s)) = (Inr (), snd (start s))"
  using start_ok [OF assms] start_started by blast

end

section \<open>Registration of named entries\<close>

locale registry =
  fixes register :: "string \<Rightarrow> 'd \<Rightarrow> 's \<Rightarrow> (thrown + unit) \<times> 's"
    and find :: "'s \<Rightarrow> string \<Rightarrow> 'd option"
  assumes register_taken: "find s n \<noteq> None \<Longrightarrow> is_Inl (fst (register n d s)) \<and> snd (register n d s) = s"
    and register_free: "find s n = None \<Longrightarrow> fst (register n d s) = Inr ()"
    and find_register: "find s n = None \<Longrightarrow>
      find (snd (register n d s)) m = (if m = n then Some d else find s m)"
begin

lemma register_twice:
  "find s n = None \<Longrightarrow> is_Inl (fst (register n e (snd (register n d s))))"
  using find_register [of s n d n] register_taken [of "snd (register n d s)" n e] by simp

lemma register_keeps:
  assumes "find s m = Some e"
  shows "find (snd (register n d s)) m = Some e"
proof (cases "find s n")
  case None
  with assms show ?thesis by (auto simp: find_register)
next
  case (Some x)
  with assms show ?thesis using register_taken [of s n d] by simp
qed

lemma register_all_keeps:
  "find s m = Some e \<Longrightarrow>
     find (fold (\<lambda>(n, d) s. snd (register n d s)) nds s) m = Some e"
  by (induction nds arbitrary: s) (auto simp: register_keeps)

lemma register_all_find:
  assumes "find s m = None"
  shows "find (fold (\<lambda>(n, d) s. snd (register n d s)) nds s) m = map_of nds m"
  using assms
proof (induction nds arbitrary: s)
  case Nil
  then show ?case by simp
next
  case (Cons nd nds)
  obtain n d where nd: "nd = (n, d)" by (cases nd)
  show ?case
  proof (cases "n = m")
    case True
    with Cons.prems show ?thesis
      by (simp add: nd find_register register_all_keeps)
  next
    case False
    have "find (snd (register n d s)) m = None"
    proof (cases "find s n")
      case None
      with False Cons.prems show ?thesis by (auto simp: find_register)
    next
      case (Some x)
      with Cons.prems show ?thesis using register_taken [of s n d] by simp
    qed
    with False show ?thesis by (simp add: nd Cons.IH)
  qed
qed

end

section \<open>The guards of the transport interface\<close>

text \<open>
  What a client may rely on before it sends: a transport that was not started, or was
  stopped, refuses the message with an error, and so does one that is given an envelope of
  the wrong kind. \<open>send\<close> and \<open>notify\<close> return their result or an error and the new state.
\<close>

locale transport_guard = lifecycle +
  fixes send :: "jsval \<Rightarrow> 's \<Rightarrow> (thrown + 'r) \<times> 's"
    and notify :: "jsval \<Rightarrow> 's \<Rightarrow> (thrown + unit) \<times> 's"
  assumes send_guard: "st s \<noteq> Started \<Longrightarrow> is_Inl (fst (send env s)) \<and> snd (send env s) = s"
    and notify_guard: "st s \<noteq> Started \<Longrightarrow> is_Inl (fst (notify env s)) \<and> snd (notify env s) = s"
    and send_kind: "(\<And>r. parse_envelope env \<noteq> Inr (Request r)) \<Longrightarrow>
      is_Inl (fst (send env s)) \<and> snd (send env s) = s"
    and notify_kind: "(\<And>n. parse_envelope env \<noteq> Inr (Notification n)) \<Longrightarrow>
      is_Inl (fst (notify env s)) \<and> snd (notify env s) = s"
    and send_state: "st (snd (send env s)) = st s"
    and notify_state: "st (snd (notify env s)) = st s"
begin

lemma send_ok:
  assumes "fst (send env s) = Inr r"
  shows "st s = Started" "\<exists>q. parse_envelope env = Inr (Request q)"
  using assms send_guard [of s env] send_kind [of env s] by force+

lemma notify_ok:
  assumes "fst (notify env s) = Inr r"
  shows "st s = Started" "\<exists>n. parse_envelope env = Inr (Notification n)"
  using assms notify_guard [of s env] notify_kind [of env s] by force+

lemma silent_after_stop:
  assumes "fst (stop s) = Inr ()"
  shows "is_Inl (fst (send env (lc_run start stop cs (snd (stop s)))))"
    "is_Inl (fst (notify env (lc_run start stop cs (snd (stop s)))))"
proof -
  have "st (lc_run start stop cs (snd (stop s))) = Stopped"
    using stopped_forever [OF stop_ok [OF assms]] .
  then show "is_Inl (fst (send env (lc_run start stop cs (snd (stop s)))))"
    "is_Inl (fst (notify env (lc_run start stop cs (snd (stop s)))))"
    using send_guard notify_guard by auto
qed

end

end
