(* ===== verification/ServerCore.thy ===== *)
theory ServerCore
  imports Interfaces
begin

text \<open>
  \<open>ts/packages/protocol/src/server-core.ts\<close>: \<open>RpcServerCore\<close>. The state is the map of
  registered services, the run state, the set of promises in flight and the log. A handler
  either throws before it returns or returns a promise; the promise's settlement is part
  of the handler's answer, so a run is a function of the handlers. The dispatcher is split
  at its one \<open>await\<close>: \<open>dispatch_begin\<close> runs up to it, \<open>dispatch_resume\<close> goes on once the
  promise has settled, and \<open>dispatch\<close> is their composition for one message.
\<close>

section \<open>State\<close>

datatype settlement = Resolved jsval | Rejected thrown

datatype promise = Settles settlement | NeverSettles

type_synonym handler = "jsval \<Rightarrow> thrown + promise"

text \<open>\<open>handlers[m]\<close>: a property read on the handlers object; \<open>None\<close> when it is falsy.\<close>

record service_entry =
  se_contract :: contract
  se_handlers :: "string \<Rightarrow> handler option"

record server =
  sv_services :: "(string, service_entry) jsmap"
  sv_state :: run_state
  sv_inflight :: "nat list"
  sv_next :: nat
  sv_log :: "log_record list"

definition new_server :: server where
  "new_server = \<lparr>sv_services = [], sv_state = Idle, sv_inflight = [], sv_next = 0, sv_log = []\<rparr>"

definition registerService ::
    "string \<Rightarrow> service_entry \<Rightarrow> server \<Rightarrow> (thrown + unit) \<times> server" where
  "registerService name e sv =
     (if jm_has (sv_services sv) name
      then (Inl (new_error (''service \"'' @ name @ ''\" already registered on this server'')), sv)
      else (Inr (), sv\<lparr>sv_services := jm_set (sv_services sv) name e\<rparr>))"

definition register_contract ::
    "contract \<Rightarrow> (string \<Rightarrow> handler option) \<Rightarrow> server \<Rightarrow> (thrown + unit) \<times> server" where
  "register_contract c hs =
     registerService (ct_service c) \<lparr>se_contract = c, se_handlers = hs\<rparr>"

section \<open>The dispatcher\<close>

text \<open>
  \<open>entry.contract.methods[env.method]\<close> is a property read on a plain object, so a name that
  \<open>Object.prototype\<close> defines is found there when the contract does not define it. What is
  found has no \<open>params\<close>, so \<open>methodDef.params.parse\<close> throws a \<open>TypeError\<close>.
\<close>

datatype method_ref = OwnDef method_def | Inherited

definition object_prototype_names :: "string list" where
  "object_prototype_names =
     [''constructor'', ''hasOwnProperty'', ''isPrototypeOf'', ''propertyIsEnumerable'',
      ''toLocaleString'', ''toString'', ''valueOf'', ''__proto__'', ''__defineGetter__'',
      ''__defineSetter__'', ''__lookupGetter__'', ''__lookupSetter__'']"

definition lookup_method :: "contract \<Rightarrow> string \<Rightarrow> method_ref option" where
  "lookup_method c m =
     (case jm_get (ct_methods c) m of
        Some d \<Rightarrow> Some (OwnDef d)
      | None \<Rightarrow> if m \<in> set object_prototype_names then Some Inherited else None)"

definition parse_of_undefined :: thrown where
  "parse_of_undefined =
     type_error (''Cannot read properties of undefined (reading '' @ [CHR 0x27] @ ''parse''
       @ [CHR 0x27] @ '')'')"

fun params_parse :: "method_ref \<Rightarrow> jsval \<Rightarrow> thrown + jsval" where
  "params_parse (OwnDef d) v = md_params d v"
| "params_parse Inherited v = Inl parse_of_undefined"

fun result_parse :: "method_ref \<Rightarrow> jsval \<Rightarrow> thrown + jsval" where
  "result_parse (OwnDef d) v =
     (case md_result d of Some (Some p) \<Rightarrow> p v | _ \<Rightarrow> Inl parse_of_undefined)"
| "result_parse Inherited v = Inl parse_of_undefined"

fun is_notification_ref :: "method_ref \<Rightarrow> bool" where
  "is_notification_ref (OwnDef d) = is_notification_def d"
| "is_notification_ref Inherited = False"

definition rpc_log :: "log_level \<Rightarrow> string \<Rightarrow> string \<Rightarrow> string \<Rightarrow> jsval \<Rightarrow> thrown \<Rightarrow> log_record" where
  "rpc_log lvl what service method i e =
     \<lparr>log_level = lvl,
      log_msg = what @ '': '' @ service @ ''.'' @ method @ '' id='' @ js_string i,
      log_err = e,
      log_fields = [(''service'', JStr service), (''method'', JStr method), (''rpcId'', i)]\<rparr>"

text \<open>What the closure keeps across the \<open>await\<close>.\<close>

record await_ctx =
  aw_work :: nat
  aw_service :: string
  aw_method :: string
  aw_notification :: bool
  aw_id :: jsval
  aw_def :: method_ref

datatype dispatch_step =
    DReply "jsval option"
  | DThrow thrown
  | DAwait await_ctx promise

definition method_not_found :: "bool \<Rightarrow> jsval \<Rightarrow> jsval option" where
  "method_not_found notif i =
     (if notif then None
      else Some (build_error_response i (-32601) ''Method not found'' JUndef))"

text \<open>The dispatcher on a request or notification, from the lookup of the method on.\<close>

definition dispatch_call ::
    "server \<Rightarrow> string \<Rightarrow> service_entry \<Rightarrow> bool \<Rightarrow> jsval \<Rightarrow> string \<Rightarrow> jsval
     \<Rightarrow> dispatch_step \<times> server" where
  "dispatch_call sv name entry notif i method params =
     (case lookup_method (se_contract entry) method of
        None \<Rightarrow> (DReply (method_not_found notif i), sv)
      | Some ref \<Rightarrow>
        (case params_parse ref params of
           Inl e \<Rightarrow>
             (DReply (if notif then None
                else Some (build_error_response i (-32602) ''Invalid params''
                       (exception_to_error_data e))),
              sv\<lparr>sv_log := sv_log sv @
                [rpc_log LogWarn ''RPC params validation failed'' name method i e]\<rparr>)
         | Inr parsed \<Rightarrow>
           (case se_handlers entry method of
              None \<Rightarrow> (DReply (method_not_found notif i), sv)
            | Some handler \<Rightarrow>
              (case handler parsed of
                 Inl e \<Rightarrow> (DThrow e, sv)
               | Inr p \<Rightarrow>
                 (DAwait \<lparr>aw_work = sv_next sv, aw_service = name, aw_method = method,
                          aw_notification = notif, aw_id = i, aw_def = ref\<rparr> p,
                  sv\<lparr>sv_inflight := sv_inflight sv @ [sv_next sv],
                     sv_next := Suc (sv_next sv)\<rparr>)))))"

definition dispatch_begin :: "server \<Rightarrow> string \<Rightarrow> envelope \<Rightarrow> dispatch_step \<times> server" where
  "dispatch_begin sv name env =
     (case jm_get (sv_services sv) name of
        None \<Rightarrow>
          (DReply (case env of
              Notification _ \<Rightarrow> None
            | Request r \<Rightarrow> method_not_found False (rq_id r)
            | _ \<Rightarrow> method_not_found False JNull), sv)
      | Some entry \<Rightarrow>
        (case env of
           Request r \<Rightarrow> dispatch_call sv name entry False (rq_id r) (rq_method r) (rq_params r)
         | Notification n \<Rightarrow> dispatch_call sv name entry True JNull (nt_method n) (nt_params n)
         | _ \<Rightarrow> (DReply None, sv)))"

text \<open>After the \<open>await\<close>: the handler's promise was rejected.\<close>

definition resume_rejected :: "server \<Rightarrow> await_ctx \<Rightarrow> thrown \<Rightarrow> jsval option \<times> server" where
  "resume_rejected sv w e =
     (let logged = sv\<lparr>sv_log := sv_log sv @
            [rpc_log LogError ''RPC handler raised'' (aw_service w) (aw_method w) (aw_id w) e]\<rparr> in
      if aw_notification w then
        (None, case as_rpc_error e of Some _ \<Rightarrow> sv | None \<Rightarrow> logged)
      else case as_rpc_error e of
        Some (c, m, d) \<Rightarrow> (Some (build_error_response (aw_id w) c m d), sv)
      | None \<Rightarrow>
        (Some (build_error_response (aw_id w) (-32603) ''Internal error''
           (exception_to_error_data e)), logged))"

text \<open>After the \<open>await\<close>: it was resolved.\<close>

definition resume_resolved :: "server \<Rightarrow> await_ctx \<Rightarrow> jsval \<Rightarrow> jsval option \<times> server" where
  "resume_resolved sv w result =
     (if aw_notification w then (None, sv)
      else if is_notification_ref (aw_def w) then (None, sv)
      else case result_parse (aw_def w) result of
        Inr validated \<Rightarrow> (Some (build_success_response (aw_id w) validated), sv)
      | Inl e \<Rightarrow>
        (Some (build_error_response (aw_id w) (-32603) ''Result validation failed''
           (exception_to_error_data e)),
         sv\<lparr>sv_log := sv_log sv @
           [rpc_log LogError ''RPC result validation failed'' (aw_service w) (aw_method w)
              (aw_id w) e]\<rparr>))"

definition inflight_delete :: "nat \<Rightarrow> server \<Rightarrow> server" where
  "inflight_delete w sv = sv\<lparr>sv_inflight := filter (\<lambda>x. x \<noteq> w) (sv_inflight sv)\<rparr>"

definition dispatch_resume ::
    "server \<Rightarrow> await_ctx \<Rightarrow> settlement \<Rightarrow> jsval option \<times> server" where
  "dispatch_resume sv w s =
     (case s of
        Rejected e \<Rightarrow> resume_rejected (inflight_delete (aw_work w) sv) w e
      | Resolved v \<Rightarrow> resume_resolved (inflight_delete (aw_work w) sv) w v)"

text \<open>
  The whole dispatcher on one message. \<open>None\<close>: it never returns, because the handler's
  promise never settles. \<open>Some (Inl e)\<close>: the returned promise is rejected with \<open>e\<close>.
\<close>

definition dispatch ::
    "server \<Rightarrow> string \<Rightarrow> envelope \<Rightarrow> (thrown + jsval option) option \<times> server" where
  "dispatch sv name env =
     (case dispatch_begin sv name env of
        (DReply r, sv') \<Rightarrow> (Some (Inr r), sv')
      | (DThrow e, sv') \<Rightarrow> (Some (Inl e), sv')
      | (DAwait w NeverSettles, sv') \<Rightarrow> (None, sv')
      | (DAwait w (Settles s), sv') \<Rightarrow>
        (let (r, sv'') = dispatch_resume sv' w s in (Some (Inr r), sv'')))"

section \<open>Life cycle\<close>

text \<open>
  The transport is used through the operations \<open>reg\<close>, \<open>tstart\<close> and \<open>tstop\<close> on its own state.
  The loop over the services stops at the first registration that throws.
\<close>

fun register_dispatchers ::
    "(string \<Rightarrow> 't \<Rightarrow> (thrown + unit) \<times> 't) \<Rightarrow> string list \<Rightarrow> 't \<Rightarrow> (thrown + unit) \<times> 't" where
  "register_dispatchers reg [] t = (Inr (), t)"
| "register_dispatchers reg (n # ns) t =
     (case reg n t of
        (Inl e, t') \<Rightarrow> (Inl e, t')
      | (Inr _, t') \<Rightarrow> register_dispatchers reg ns t')"

definition server_start ::
    "(string \<Rightarrow> 't \<Rightarrow> (thrown + unit) \<times> 't) \<Rightarrow> ('t \<Rightarrow> (thrown + unit) \<times> 't) \<Rightarrow>
     server \<times> 't \<Rightarrow> (thrown + unit) \<times> server \<times> 't" where
  "server_start reg tstart = (\<lambda>(sv, t).
     if sv_state sv = Started then (Inr (), sv, t)
     else if sv_state sv = Stopped then (Inl (new_error ''server has been stopped''), sv, t)
     else case register_dispatchers reg (jm_keys (sv_services sv)) t of
       (Inl e, t') \<Rightarrow> (Inl e, sv, t')
     | (Inr _, t') \<Rightarrow>
       (case tstart t' of
          (Inl e, t'') \<Rightarrow> (Inl e, sv, t'')
        | (Inr _, t'') \<Rightarrow> (Inr (), sv\<lparr>sv_state := Started\<rparr>, t'')))"

text \<open>
  The drain loop of \<open>stop\<close>, in milliseconds. The schedule gives the promises in flight at
  each time and when each of them settles (\<open>None\<close>: never). One round of \<open>Promise.race\<close> ends
  when the promises in flight at its start have all settled, or after 50 ms; a round takes
  at least one tick of the clock.
\<close>

definition race_end :: "nat \<Rightarrow> nat option list \<Rightarrow> nat" where
  "race_end now fs =
     (if None \<in> set fs then now + 50
      else min (now + 50) (max (Suc now) (Max (set (map the fs)))))"

function drain :: "(nat \<Rightarrow> nat option list) \<Rightarrow> nat \<Rightarrow> nat \<Rightarrow> nat" where
  "drain inflight deadline now =
     (if inflight now \<noteq> [] \<and> now < deadline
      then drain inflight deadline (race_end now (inflight now))
      else now)"
  by pat_completeness auto

lemma race_end_bounds: "now < race_end now fs" "race_end now fs \<le> now + 50"
  by (simp_all add: race_end_def less_max_iff_disj)

termination drain
  by (relation "measure (\<lambda>(inflight, deadline, now). deadline - now)")
    (auto simp: race_end_bounds diff_less_mono2)

declare drain.simps [simp del]

text \<open>\<open>stop\<close> at time \<open>now\<close>; the result also has the time at which the drain ended.\<close>

definition server_stop ::
    "('t \<Rightarrow> (thrown + unit) \<times> 't) \<Rightarrow> (nat \<Rightarrow> nat option list) \<Rightarrow> nat option \<Rightarrow> nat \<Rightarrow>
     server \<times> 't \<Rightarrow> ((thrown + unit) \<times> server \<times> 't) \<times> nat" where
  "server_stop tstop inflight graceMs now = (\<lambda>(sv, t).
     if sv_state sv \<noteq> Started then ((Inr (), sv\<lparr>sv_state := Stopped\<rparr>, t), now)
     else
       let grace = (case graceMs of None \<Rightarrow> 5000 | Some g \<Rightarrow> g);
           end_time = drain inflight (now + grace) now in
       case tstop t of
         (Inl e, t') \<Rightarrow> ((Inl e, sv, t'), end_time)
       | (Inr _, t') \<Rightarrow> ((Inr (), sv\<lparr>sv_state := Stopped\<rparr>, t'), end_time))"

section \<open>The contracts the server fulfils\<close>

interpretation services: registry registerService "\<lambda>sv. jm_get (sv_services sv)"
  by unfold_locales (auto simp: registerService_def jm_has_def)

interpretation server_lc: lifecycle "\<lambda>(sv, t). sv_state sv" "server_start reg tstart"
    "\<lambda>s. fst (server_stop tstop inflight graceMs now s)"
  for reg :: "string \<Rightarrow> 't \<Rightarrow> (thrown + unit) \<times> 't" and tstart tstop inflight graceMs now
  by unfold_locales
    (auto simp: server_start_def server_stop_def Let_def
      split: sum.splits prod.splits if_splits)

section \<open>One message through the dispatcher\<close>

lemmas dispatch_defs =
  dispatch_begin_def dispatch_call_def dispatch_resume_def resume_rejected_def
  resume_resolved_def inflight_delete_def method_not_found_def

text \<open>What no dispatch ever changes.\<close>

lemma dispatch_begin_frame:
  "sv_services (snd (dispatch_begin sv n env)) = sv_services sv"
  "sv_state (snd (dispatch_begin sv n env)) = sv_state sv"
  by (auto simp: dispatch_begin_def dispatch_call_def split: option.split sum.split envelope.split)

lemma dispatch_resume_frame:
  "sv_services (snd (dispatch_resume sv w s)) = sv_services sv"
  "sv_state (snd (dispatch_resume sv w s)) = sv_state sv"
  "sv_next (snd (dispatch_resume sv w s)) = sv_next sv"
  "sv_inflight (snd (dispatch_resume sv w s)) = filter (\<lambda>x. x \<noteq> aw_work w) (sv_inflight sv)"
  by (auto simp: dispatch_defs Let_def split: option.split sum.split settlement.split)

text \<open>A begin that awaits adds exactly one promise to the set in flight, any other none.\<close>

lemma dispatch_begin_await:
  assumes "dispatch_begin sv n env = (DAwait w p, sv')"
  shows "aw_work w = sv_next sv" "sv_inflight sv' = sv_inflight sv @ [sv_next sv]"
    "sv_next sv' = Suc (sv_next sv)"
  using assms
  by (auto simp: dispatch_begin_def dispatch_call_def split: option.splits sum.splits envelope.splits)

lemma dispatch_begin_done:
  assumes "dispatch_begin sv n env = (d, sv')" "\<And>w p. d \<noteq> DAwait w p"
  shows "sv_inflight sv' = sv_inflight sv" "sv_next sv' = sv_next sv"
  using assms
  by (auto simp: dispatch_begin_def dispatch_call_def split: option.splits sum.splits envelope.splits)

text \<open>The id and the kind of the message decide the shape of the answer.\<close>

fun reply_id :: "envelope \<Rightarrow> jsval" where
  "reply_id (Request r) = rq_id r"
| "reply_id _ = JNull"

definition is_reply_to :: "jsval \<Rightarrow> jsval \<Rightarrow> bool" where
  "is_reply_to i v \<longleftrightarrow>
     (\<exists>r. v = build_success_response i r) \<or> (\<exists>c m d. v = build_error_response i c m d)"

lemma is_reply_to_build [intro, simp]:
  "is_reply_to i (build_success_response i r)" "is_reply_to i (build_error_response i c m d)"
  by (auto simp: is_reply_to_def)

lemma dispatch_begin_reply:
  assumes "dispatch_begin sv n env = (DReply (Some v), sv')"
  shows "is_reply_to (reply_id env) v" "\<And>nt. env \<noteq> Notification nt"
  using assms
  by (auto simp: dispatch_begin_def dispatch_call_def method_not_found_def
      split: option.splits sum.splits envelope.splits if_splits)

lemma dispatch_begin_ctx:
  assumes "dispatch_begin sv n env = (DAwait w p, sv')"
  shows "aw_id w = reply_id env" "aw_notification w \<longleftrightarrow> (\<exists>nt. env = Notification nt)"
  using assms
  by (auto simp: dispatch_begin_def dispatch_call_def split: option.splits sum.splits envelope.splits)

lemma dispatch_resume_reply:
  assumes "dispatch_resume sv w s = (Some v, sv')"
  shows "is_reply_to (aw_id w) v" "\<not> aw_notification w"
  using assms
  by (auto simp: dispatch_resume_def resume_rejected_def resume_resolved_def Let_def
      split: option.splits sum.splits settlement.splits if_splits)

lemma dispatch_reply:
  assumes "dispatch sv n env = (Some (Inr (Some v)), sv')"
  shows "is_reply_to (reply_id env) v" "\<And>nt. env \<noteq> Notification nt"
proof -
  obtain d sv1 where b: "dispatch_begin sv n env = (d, sv1)" by (cases "dispatch_begin sv n env")
  show "is_reply_to (reply_id env) v"
    using assms b dispatch_begin_reply [of sv n env v] dispatch_begin_ctx [of sv n env]
    by (auto simp: dispatch_def split: dispatch_step.splits promise.splits prod.splits
        dest: dispatch_resume_reply)
  show "env \<noteq> Notification nt" for nt
    using assms b dispatch_begin_reply [of sv n env v] dispatch_begin_ctx [of sv n env]
    by (auto simp: dispatch_def split: dispatch_step.splits promise.splits prod.splits
        dest: dispatch_resume_reply)
qed

text \<open>A reply reads back as a response that carries the id of its request.\<close>

lemma parse_build_success:
  assumes "i \<notin> {JUndef, JNull}"
  shows "parse_envelope (build_success_response i r)
     = Inr (SuccessResponse \<lparr>sr_id = i, sr_result = r\<rparr>)"
  using assms by (simp add: build_success_response_def parse_object_def has_id_def)

lemma parse_build_error:
  assumes "i \<noteq> JUndef"
  shows "parse_envelope (build_error_response i c m d)
     = Inr (ErrorResponse \<lparr>er_id = i, er_code = c, er_message = m,
              er_data = js_default JNull d\<rparr>)"
proof -
  have "js_nullish (js_default JNull d) JNull = js_default JNull d" by (cases d) auto
  then show ?thesis
    using assms
    by (simp add: build_error_response_def parse_object_def has_id_def parse_error_member_def)
qed

section \<open>Many messages at once\<close>

text \<open>
  Dispatches interleave at their \<open>await\<close>. A state of the running server is the server and
  the dispatches that wait for their handler; a step begins a message or resumes a waiting
  dispatch whose promise has settled.
\<close>

type_synonym running = "server \<times> (await_ctx \<times> promise) list"

inductive server_step :: "running \<Rightarrow> running \<Rightarrow> bool" where
  begin_await: "dispatch_begin sv n env = (DAwait w p, sv') \<Longrightarrow>
     server_step (sv, ws) (sv', ws @ [(w, p)])"
| begin_done: "dispatch_begin sv n env = (d, sv') \<Longrightarrow> (\<And>w p. d \<noteq> DAwait w p) \<Longrightarrow>
     server_step (sv, ws) (sv', ws)"
| resume: "(w, Settles s) \<in> set ws \<Longrightarrow> dispatch_resume sv w s = (r, sv') \<Longrightarrow>
     server_step (sv, ws) (sv', filter (\<lambda>x. aw_work (fst x) \<noteq> aw_work w) ws)"

inductive server_reach :: "running \<Rightarrow> running \<Rightarrow> bool" for s0 where
  refl: "server_reach s0 s0"
| step: "server_reach s0 s \<Longrightarrow> server_step s t \<Longrightarrow> server_reach s0 t"

definition inflight_inv :: "running \<Rightarrow> bool" where
  "inflight_inv = (\<lambda>(sv, ws).
     sv_inflight sv = map (aw_work \<circ> fst) ws \<and> distinct (sv_inflight sv)
     \<and> (\<forall>w \<in> set (sv_inflight sv). w < sv_next sv))"

lemma filter_map_comp: "filter (\<lambda>x. x \<noteq> k) (map f xs) = map f (filter (\<lambda>x. f x \<noteq> k) xs)"
  by (induction xs) auto

lemma server_step_inv [inv_intro]: "server_step s t \<Longrightarrow> inflight_inv s \<Longrightarrow> inflight_inv t"
proof (induction rule: server_step.induct)
  case (begin_await sv n env w p sv' ws)
  note dispatch_begin_await [OF begin_await.hyps]
  with begin_await.prems show ?case by (fastforce simp: inflight_inv_def less_Suc_eq)
next
  case (begin_done sv n env d sv' ws)
  note dispatch_begin_done [OF begin_done.hyps]
  with begin_done.prems show ?case by (auto simp: inflight_inv_def)
next
  case (resume w s ws sv r sv')
  from resume.hyps(2) have "sv' = snd (dispatch_resume sv w s)" by simp
  with resume.prems show ?case
    by (auto simp: inflight_inv_def dispatch_resume_frame filter_map_comp comp_def
        intro: distinct_map_filter)
qed

lemma server_reach_inv: "server_reach s t \<Longrightarrow> inflight_inv s \<Longrightarrow> inflight_inv t"
  by (induction rule: server_reach.induct) (auto intro: inv_intro)

lemma server_step_frame:
  "server_step s t \<Longrightarrow> sv_services (fst t) = sv_services (fst s) \<and> sv_state (fst t) = sv_state (fst s)"
proof (induction rule: server_step.induct)
  case (begin_await sv n env w p sv' ws)
  then show ?case using dispatch_begin_frame [of sv n env] by simp
next
  case (begin_done sv n env d sv' ws)
  then show ?case using dispatch_begin_frame [of sv n env] by simp
next
  case (resume w s ws sv r sv')
  then show ?case using dispatch_resume_frame [of sv w s] by simp
qed

section \<open>The abstract service\<close>

text \<open>
  What the protocol promises for one call of a method, without envelopes, ids, promises in
  flight or logging: the parameters are validated, the handler runs on the validated
  value, its rejection becomes an error object, and its result is validated too. A handler
  that throws counts as one whose promise is rejected.
\<close>

datatype outcome = Answer jsval | Failure int string jsval | NoAnswer

fun handler_outcome :: "thrown + promise \<Rightarrow> settlement option" where
  "handler_outcome (Inl e) = Some (Rejected e)"
| "handler_outcome (Inr NeverSettles) = None"
| "handler_outcome (Inr (Settles s)) = Some s"

fun failure_of :: "thrown \<Rightarrow> outcome" where
  "failure_of e =
     (case as_rpc_error e of
        Some (c, m, d) \<Rightarrow> Failure c m d
      | None \<Rightarrow> Failure (-32603) ''Internal error'' (exception_to_error_data e))"

definition call_spec ::
    "contract \<Rightarrow> (string \<Rightarrow> handler option) \<Rightarrow> string \<Rightarrow> jsval \<Rightarrow> outcome option" where
  "call_spec c hs m params =
     (case (jm_get (ct_methods c) m, hs m) of
        (Some d, Some h) \<Rightarrow>
          (case md_params d params of
             Inl e \<Rightarrow> Some (Failure (-32602) ''Invalid params'' (exception_to_error_data e))
           | Inr v \<Rightarrow>
             (case handler_outcome (h v) of
                None \<Rightarrow> None
              | Some (Rejected e) \<Rightarrow> Some (failure_of e)
              | Some (Resolved x) \<Rightarrow>
                (case md_result d of
                   Some (Some p) \<Rightarrow>
                     (case p x of
                        Inr y \<Rightarrow> Some (Answer y)
                      | Inl e \<Rightarrow> Some (Failure (-32603) ''Result validation failed''
                                   (exception_to_error_data e)))
                 | _ \<Rightarrow> Some NoAnswer)))
      | _ \<Rightarrow> Some (Failure (-32601) ''Method not found'' JNull))"

text \<open>How an outcome is written on the wire.\<close>

fun encode_outcome :: "jsval \<Rightarrow> outcome \<Rightarrow> jsval option" where
  "encode_outcome i (Answer v) = Some (build_success_response i v)"
| "encode_outcome i (Failure c m d) = Some (build_error_response i c m d)"
| "encode_outcome i NoAnswer = None"

text \<open>
  The service behaves: its contract passed \<open>defineContract\<close>, the handlers object holds a
  handler for every method of the contract, no handler throws before returning its
  promise, and the method called is not one that only \<open>Object.prototype\<close> has.
\<close>

definition good_service :: "contract \<Rightarrow> (string \<Rightarrow> handler option) \<Rightarrow> bool" where
  "good_service c hs \<longleftrightarrow>
     wf_contract c
     \<and> (\<forall>m h v. hs m = Some h \<longrightarrow> (\<exists>p. h v = Inr p))
     \<and> (\<forall>m. jm_get (ct_methods c) m \<noteq> None \<longrightarrow> hs m \<noteq> None)"

lemma method_not_found_eq:
  "method_not_found False i = encode_outcome i (Failure (-32601) ''Method not found'' JNull)"
  by (simp add: method_not_found_def build_error_response_def)

text \<open>
  Without the good behaviour of the handlers: what a handler throws before it returns its
  promise, if the call gets that far.
\<close>

definition complete_service :: "contract \<Rightarrow> (string \<Rightarrow> handler option) \<Rightarrow> bool" where
  "complete_service c hs \<longleftrightarrow>
     wf_contract c \<and> (\<forall>m. jm_get (ct_methods c) m \<noteq> None \<longrightarrow> hs m \<noteq> None)"

definition sync_thrown ::
    "contract \<Rightarrow> (string \<Rightarrow> handler option) \<Rightarrow> string \<Rightarrow> jsval \<Rightarrow> thrown option" where
  "sync_thrown c hs m params =
     (case (jm_get (ct_methods c) m, hs m) of
        (Some d, Some h) \<Rightarrow>
          (case md_params d params of
             Inl _ \<Rightarrow> None
           | Inr v \<Rightarrow> (case h v of Inl e \<Rightarrow> Some e | Inr _ \<Rightarrow> None))
      | _ \<Rightarrow> None)"

lemma good_service_complete: "good_service c hs \<Longrightarrow> complete_service c hs"
  by (simp add: good_service_def complete_service_def)

lemma good_service_no_throw: "good_service c hs \<Longrightarrow> sync_thrown c hs m params = None"
  by (auto simp: good_service_def sync_thrown_def split: option.split sum.split) (metis sum.distinct(1))

lemma dispatch_complete:
  assumes entry: "jm_get (sv_services sv) n = Some \<lparr>se_contract = c, se_handlers = hs\<rparr>"
    and good: "complete_service c hs"
    and own: "rq_method r \<notin> set object_prototype_names \<or> jm_get (ct_methods c) (rq_method r) \<noteq> None"
  shows "fst (dispatch sv n (Request r)) =
    (case sync_thrown c hs (rq_method r) (rq_params r) of
       Some e \<Rightarrow> Some (Inl e)
     | None \<Rightarrow> map_option (\<lambda>out. Inr (encode_outcome (rq_id r) out)) (call_spec c hs (rq_method r) (rq_params r)))"
proof (cases "jm_get (ct_methods c) (rq_method r)")
  case None
  with own show ?thesis
    by (simp add: dispatch_def dispatch_begin_def dispatch_call_def entry lookup_method_def
        call_spec_def sync_thrown_def method_not_found_eq)
next
  case (Some d)
  from good Some obtain h where h: "hs (rq_method r) = Some h" by (auto simp: complete_service_def)
  from good Some have wf: "wf_method (rq_method r) d"
    by (auto simp: complete_service_def dest: wf_contract_method)
  note unfold = dispatch_def dispatch_begin_def dispatch_call_def entry lookup_method_def
    call_spec_def sync_thrown_def Some h
  show ?thesis
  proof (cases "md_params d (rq_params r)")
    case (Inl e)
    then show ?thesis by (simp add: unfold)
  next
    case (Inr v)
    note v = Inr
    show ?thesis
    proof (cases "h v")
      case (Inl e)
      then show ?thesis by (simp add: unfold v)
    next
      case (Inr p)
      show ?thesis
      proof (cases p)
        case NeverSettles
        then show ?thesis by (simp add: unfold v Inr)
      next
        case (Settles x)
        with Inr v wf show ?thesis
          by (cases x)
            (auto simp: unfold dispatch_resume_def resume_rejected_def resume_resolved_def
              Let_def wf_method_def split: option.splits sum.splits prod.splits if_split_asm)
      qed
    qed
  qed
qed

lemma dispatch_refines_lemma:
  assumes "jm_get (sv_services sv) n = Some \<lparr>se_contract = c, se_handlers = hs\<rparr>" "good_service c hs"
    and "rq_method r \<notin> set object_prototype_names \<or> jm_get (ct_methods c) (rq_method r) \<noteq> None"
  shows "fst (dispatch sv n (Request r)) =
    map_option (\<lambda>out. Inr (encode_outcome (rq_id r) out)) (call_spec c hs (rq_method r) (rq_params r))"
  using dispatch_complete [OF assms(1) good_service_complete [OF assms(2)] assms(3)]
  by (simp add: good_service_no_throw [OF assms(2)])

lemma inherited_name_is_found:
  assumes "jm_get (sv_services sv) n = Some entry"
    and "jm_get (ct_methods (se_contract entry)) (rq_method r) = None"
    and "rq_method r \<in> set object_prototype_names"
  shows "fst (dispatch sv n (Request r)) = Some (Inr (Some
    (build_error_response (rq_id r) (-32602) ''Invalid params'' (exception_to_error_data parse_of_undefined))))"
  using assms
  by (simp add: dispatch_def dispatch_begin_def dispatch_call_def lookup_method_def
      del: exception_to_error_data.simps)

section \<open>The drain loop\<close>

lemma drain_unfold:
  "inflight now \<noteq> [] \<Longrightarrow> now < deadline \<Longrightarrow>
     drain inflight deadline now = drain inflight deadline (race_end now (inflight now))"
  "inflight now = [] \<or> deadline \<le> now \<Longrightarrow> drain inflight deadline now = now"
  by (auto simp: drain.simps [of inflight deadline now])

lemma drain_bound_lemma: "drain inflight deadline now \<le> max now (deadline + 49)"
proof (induction inflight deadline now rule: drain.induct)
  case (1 inflight deadline now)
  show ?case
  proof (cases "inflight now \<noteq> [] \<and> now < deadline")
    case True
    with "1" have "drain inflight deadline (race_end now (inflight now))
        \<le> max (race_end now (inflight now)) (deadline + 49)" by blast
    also have "\<dots> \<le> max now (deadline + 49)"
      using True race_end_bounds(2) [of now "inflight now"] by simp
    finally show ?thesis using True by (simp add: drain_unfold)
  next
    case False
    then show ?thesis by (auto simp: drain_unfold not_less)
  qed
qed

lemma drain_exit_lemma:
  "inflight (drain inflight deadline now) = [] \<or> deadline \<le> drain inflight deadline now"
proof (induction inflight deadline now rule: drain.induct)
  case (1 inflight deadline now)
  then show ?case
    by (cases "inflight now \<noteq> [] \<and> now < deadline") (auto simp: drain_unfold)
qed

text \<open>When every promise in flight settles by time \<open>t\<close>, the loop does not wait longer.\<close>

lemma race_end_settles:
  assumes "fs \<noteq> []" "\<forall>f \<in> set fs. \<exists>x. f = Some x \<and> now < x \<and> x \<le> t"
  shows "race_end now fs \<le> t"
proof -
  have n: "None \<notin> set fs" using assms(2) by auto
  have m: "Max (set (map the fs)) \<le> t"
    using assms by (subst Max_le_iff) auto
  have "now < t" using assms by (cases fs) force+
  with n m show ?thesis by (simp add: race_end_def)
qed

lemma drain_settles_lemma:
  assumes "\<And>s f. f \<in> set (inflight s) \<Longrightarrow> \<exists>x. f = Some x \<and> s < x \<and> x \<le> t"
  shows "drain inflight deadline now \<le> max now t"
  using assms
proof (induction inflight deadline now rule: drain.induct)
  case (1 inflight deadline now)
  show ?case
  proof (cases "inflight now \<noteq> [] \<and> now < deadline")
    case True
    have "race_end now (inflight now) \<le> t"
      using True "1.prems" by (intro race_end_settles) auto
    with True "1.IH" "1.prems" show ?thesis by (simp add: drain_unfold)
  next
    case False
    then show ?thesis by (auto simp: drain_unfold not_less)
  qed
qed

section \<open>An example service\<close>

text \<open>
  A service with a method and a notification, on which the theorems are applied: \<open>add\<close>
  validates that its parameters are an object and its result a number, and rejects with an
  \<open>RpcError\<close> when there is nothing to add; \<open>boom\<close> throws before it returns a promise.
\<close>

definition object_schema :: schema where
  "object_schema v = (case v of JObj ps \<Rightarrow> Inr v | _ \<Rightarrow> Inl (type_error ''expected an object''))"

definition number_schema :: schema where
  "number_schema v = (case v of JNum n \<Rightarrow> Inr v | _ \<Rightarrow> Inl (type_error ''expected a number''))"

definition calc_method :: method_def where
  "calc_method = \<lparr>md_params = object_schema, md_result = Some (Some number_schema),
     md_notification = JUndef\<rparr>"

definition calc_note :: method_def where
  "calc_note = \<lparr>md_params = object_schema, md_result = None, md_notification = JBool True\<rparr>"

definition calc_contract :: contract where
  "calc_contract = \<lparr>ct_service = ''calc'', ct_methods = [(''add'', calc_method), (''ping'', calc_note)]\<rparr>"

definition calc_add :: handler where
  "calc_add v = Inr (Settles
     (case js_get v ''a'' of
        JNum a \<Rightarrow> (case js_get v ''b'' of JNum b \<Rightarrow> Resolved (JNum (a + b))
                    | _ \<Rightarrow> Rejected (new_rpc_error 7 ''no b'' JNull))
      | _ \<Rightarrow> Rejected (new_rpc_error 7 ''no a'' JNull)))"

definition calc_handlers :: "string \<Rightarrow> handler option" where
  "calc_handlers m =
     (if m = ''add'' then Some calc_add
      else if m = ''ping'' then Some (\<lambda>v. Inr (Settles (Resolved JUndef)))
      else None)"

definition calc_server :: server where
  "calc_server = snd (register_contract calc_contract calc_handlers new_server)"

definition boom_server :: server where
  "boom_server = snd (register_contract
     (calc_contract\<lparr>ct_methods := [(''boom'', calc_method)]\<rparr>)
     (\<lambda>m. if m = ''boom'' then Some (\<lambda>v. Inl (new_error ''boom'')) else None) new_server)"

definition sample_request :: "string \<Rightarrow> jsval \<Rightarrow> request_env" where
  "sample_request m p = \<lparr>rq_service = ''calc'', rq_method = m, rq_fullMethod = full_method ''calc'' m,
     rq_params = p, rq_id = JStr ''u1'', rq_raw = []\<rparr>"

lemma calc_server_entry:
  "jm_get (sv_services calc_server) ''calc'' = Some \<lparr>se_contract = calc_contract, se_handlers = calc_handlers\<rparr>"
  by (simp add: calc_server_def register_contract_def registerService_def new_server_def jm_has_def
      calc_contract_def jm_get_def)

lemma boom_server_entry:
  "jm_get (sv_services boom_server) ''calc'' = Some
     \<lparr>se_contract = calc_contract\<lparr>ct_methods := [(''boom'', calc_method)]\<rparr>,
      se_handlers = (\<lambda>m. if m = ''boom'' then Some (\<lambda>v. Inl (new_error ''boom'')) else None)\<rparr>"
  by (simp add: boom_server_def register_contract_def registerService_def new_server_def jm_has_def
      calc_contract_def jm_get_def)

lemma calc_names: "SERVICE_RE ''calc''" "METHOD_RE ''add''" "METHOD_RE ''ping''" "METHOD_RE ''boom''"
  by (simp_all add: char_simps)

lemma calc_methods:
  "jm_get (ct_methods calc_contract) m =
     (if m = ''add'' then Some calc_method else if m = ''ping'' then Some calc_note else None)"
  by (simp add: calc_contract_def jm_get_def)

lemma calc_good: "good_service calc_contract calc_handlers"
  using calc_names
  by (auto simp: good_service_def wf_contract_def wf_method_def calc_contract_def calc_handlers_def
      calc_method_def calc_note_def is_notification_def_def calc_add_def jm_get_def)

lemma boom_complete:
  "complete_service (calc_contract\<lparr>ct_methods := [(''boom'', calc_method)]\<rparr>)
     (\<lambda>m. if m = ''boom'' then Some (\<lambda>v. Inl (new_error ''boom'')) else None)"
  using calc_names
  by (auto simp: complete_service_def wf_contract_def wf_method_def calc_contract_def
      calc_method_def is_notification_def_def jm_get_def split: if_split_asm)

lemma calc_add_spec:
  "call_spec calc_contract calc_handlers ''add'' (JObj [(''a'', JNum x), (''b'', JNum y)])
     = Some (Answer (JNum (x + y)))"
  by (simp add: call_spec_def calc_methods calc_handlers_def calc_method_def object_schema_def
      number_schema_def calc_add_def)

section \<open>Properties\<close>

text \<open>
  C13: Whatever the service and its handlers do, a reply of the dispatcher to a request parses as
  a success or error response that carries the id of that request, and a notification gets no
  reply.
\<close>

theorem dispatch_answers_requests_only:
  assumes "fst (dispatch sv n env) = Some (Inr (Some v))"
  shows "(\<forall>nt. env \<noteq> Notification nt) \<and> (\<forall>r. env = Request r \<and> is_rpc_id (rq_id r) \<longrightarrow>
      (\<exists>x. parse_envelope v = Inr (SuccessResponse \<lparr>sr_id = rq_id r, sr_result = x\<rparr>))
      \<or> (\<exists>c m d. parse_envelope v = Inr (ErrorResponse
          \<lparr>er_id = rq_id r, er_code = c, er_message = m, er_data = d\<rparr>)))"
proof -
  obtain sv' where d: "dispatch sv n env = (Some (Inr (Some v)), sv')"
    using assms by (cases "dispatch sv n env") auto
  have "(\<exists>x. parse_envelope v = Inr (SuccessResponse \<lparr>sr_id = rq_id r, sr_result = x\<rparr>))
    \<or> (\<exists>c m d. parse_envelope v = Inr (ErrorResponse
          \<lparr>er_id = rq_id r, er_code = c, er_message = m, er_data = d\<rparr>))"
    if "env = Request r" "is_rpc_id (rq_id r)" for r
    using dispatch_reply(1) [OF d] that(1) is_rpc_id_present [OF that(2)]
      parse_build_success [of "rq_id r"] parse_build_error [of "rq_id r"]
    unfolding is_reply_to_def by fastforce
  with dispatch_reply(2) [OF d] show ?thesis by blast
qed

theorem dispatch_answers_requests_only_witness:
  "\<exists>v. fst (dispatch calc_server ''calc'' (Request (sample_request ''nope'' JNull))) = Some (Inr (Some v))
     \<and> parse_envelope v = Inr (ErrorResponse \<lparr>er_id = JStr ''u1'', er_code = -32601,
          er_message = ''Method not found'', er_data = JNull\<rparr>)"
proof -
  let ?v = "build_error_response (JStr ''u1'') (-32601) ''Method not found'' JUndef"
  have d: "fst (dispatch calc_server ''calc'' (Request (sample_request ''nope'' JNull))) = Some (Inr (Some ?v))"
    by (simp add: dispatch_def dispatch_begin_def dispatch_call_def calc_server_entry lookup_method_def
        calc_methods sample_request_def object_prototype_names_def method_not_found_def)
  have "is_rpc_id (rq_id (sample_request ''nope'' JNull))" by (simp add: sample_request_def)
  with dispatch_answers_requests_only [OF d] d show ?thesis
    by (simp add: parse_build_error sample_request_def)
qed

text \<open>
  C6: What the dispatcher does with a request of any service that has a valid contract and a
  handler for each of its methods. It is the abstract service, with two deviations: a handler
  that throws before it returns its promise makes the dispatcher itself fail with that value,
  so that the caller gets no error response; and a name that is not in the contract, but that
  every object inherits, is answered with code -32602 and a \<open>TypeError\<close>, not with -32601.
\<close>

theorem dispatch_exactly:
  assumes "jm_get (sv_services sv) n = Some \<lparr>se_contract = c, se_handlers = hs\<rparr>"
    and "complete_service c hs"
  shows "fst (dispatch sv n (Request r)) =
    (if jm_get (ct_methods c) (rq_method r) = None \<and> rq_method r \<in> set object_prototype_names
     then Some (Inr (Some (build_error_response (rq_id r) (-32602) ''Invalid params''
            (exception_to_error_data parse_of_undefined))))
     else case sync_thrown c hs (rq_method r) (rq_params r) of
       Some e \<Rightarrow> Some (Inl e)
     | None \<Rightarrow> map_option (\<lambda>out. Inr (encode_outcome (rq_id r) out)) (call_spec c hs (rq_method r) (rq_params r)))"
  using dispatch_complete [OF assms, of r] inherited_name_is_found [OF assms(1), of r]
  by (cases "jm_get (ct_methods c) (rq_method r) = None \<and> rq_method r \<in> set object_prototype_names")
    (simp_all del: exception_to_error_data.simps, blast)

theorem dispatch_exactly_witness:
  "fst (dispatch boom_server ''calc'' (Request (sample_request ''boom'' (JObj [])))) = Some (Inl (new_error ''boom''))
   \<and> fst (dispatch calc_server ''calc'' (Request (sample_request ''constructor'' (JObj [])))) =
     Some (Inr (Some (build_error_response (JStr ''u1'') (-32602) ''Invalid params''
       (exception_to_error_data parse_of_undefined))))"
proof
  have b: "sync_thrown (calc_contract\<lparr>ct_methods := [(''boom'', calc_method)]\<rparr>)
      (\<lambda>m. if m = ''boom'' then Some (\<lambda>v. Inl (new_error ''boom'')) else None) ''boom'' (JObj []) = Some (new_error ''boom'')"
    by (simp add: sync_thrown_def jm_get_def calc_method_def object_schema_def)
  show "fst (dispatch boom_server ''calc'' (Request (sample_request ''boom'' (JObj [])))) = Some (Inl (new_error ''boom''))"
    using dispatch_exactly [OF boom_server_entry boom_complete, of "sample_request ''boom'' (JObj [])"] b
    by (simp add: sample_request_def jm_get_def object_prototype_names_def)
  have "jm_get (ct_methods calc_contract) ''constructor'' = None" by (simp add: calc_methods)
  then show "fst (dispatch calc_server ''calc'' (Request (sample_request ''constructor'' (JObj [])))) =
     Some (Inr (Some (build_error_response (JStr ''u1'') (-32602) ''Invalid params''
       (exception_to_error_data parse_of_undefined))))"
    using dispatch_exactly [OF calc_server_entry good_service_complete [OF calc_good], of "sample_request ''constructor'' (JObj [])"]
    by (simp add: sample_request_def object_prototype_names_def del: exception_to_error_data.simps)
qed

text \<open>
  In every interleaving of messages, the set of promises in flight, for which \<open>stop\<close> waits,
  is exactly the set of dispatches that wait for their handler, each counted once; so it is
  empty when none waits.
\<close>

lemma inflight_exact:
  assumes "server_reach (sv0, []) (sv, ws)" "sv_inflight sv0 = []"
  shows "sv_inflight sv = map (aw_work \<circ> fst) ws \<and> distinct (sv_inflight sv)
    \<and> (ws = [] \<longrightarrow> sv_inflight sv = [])"
proof -
  have "inflight_inv (sv0, [])" using assms(2) by (simp add: inflight_inv_def)
  from server_reach_inv [OF assms(1) this] show ?thesis by (auto simp: inflight_inv_def)
qed

text \<open>
  C30: The drain of \<open>stop\<close> ends within the grace period and at most one more round of 50 ms,
  whatever the promises in flight do; when it ends, no promise is in flight or the grace
  period is over. It does not sit out the grace period: when every promise that is in flight
  at some time settles by time \<open>u\<close>, the drain is over by \<open>u\<close>.
\<close>

theorem stop_drain_bounded:
  fixes graceMs defines "limit \<equiv> case graceMs of None \<Rightarrow> 5000 | Some g \<Rightarrow> g"
  assumes "snd (server_stop tstop inflight graceMs now (sv, t)) = end_time"
  shows "end_time \<le> now + limit + 49
    \<and> (sv_state sv = Started \<longrightarrow> inflight end_time = [] \<or> now + limit \<le> end_time)
    \<and> ((\<forall>s f. f \<in> set (inflight s) \<longrightarrow> (\<exists>x. f = Some x \<and> s < x \<and> x \<le> u)) \<longrightarrow> end_time \<le> max now u)"
proof (cases "sv_state sv = Started")
  case True
  have "end_time = drain inflight (now + limit) now"
    using True assms by (simp add: server_stop_def Let_def split: prod.split_asm sum.split_asm)
  then show ?thesis
    using drain_bound_lemma [of inflight "now + limit" now] drain_exit_lemma [of inflight "now + limit" now]
      drain_settles_lemma [of inflight u "now + limit" now]
    by auto
qed (use assms in \<open>simp add: server_stop_def\<close>)

theorem stop_drain_bounded_witness:
  "snd (server_stop (\<lambda>t. (Inr (), t)) (\<lambda>s. if s < 10 then [Some 10] else []) None 0
     (calc_server\<lparr>sv_state := Started\<rparr>, ())) \<le> 10"
  using stop_drain_bounded [of "\<lambda>t. (Inr (), t)" "\<lambda>s. if s < 10 then [Some 10] else []"
      None 0 "calc_server\<lparr>sv_state := Started\<rparr>" "()" _ 10, OF HOL.refl]
  by simp

text \<open>
  After any list of registrations on a new server, each name is bound to the entry it was
  first registered with; later registrations under that name were refused.
\<close>

lemma first_registration_wins:
  "jm_get (sv_services (fold (\<lambda>(n, e) sv. snd (registerService n e sv)) nes new_server)) n = map_of nes n"
  by (rule services.register_all_find) (simp add: new_server_def)

end
