(* ===== verification/ClientCore.thy ===== *)
theory ClientCore
  imports ServerCore
begin

text \<open>
  \<open>ts/packages/protocol/src/client-core.ts\<close>: \<open>RpcClientCore\<close>. The transport is used through
  its operations on its own state; \<open>call\<close> is the request it builds, what the transport's
  \<open>send\<close> returns, and the decoding of the reply. The random id of a call is an argument.
\<close>

record client =
  cl_state :: run_state
  cl_timeout :: nat

definition new_client :: "nat option \<Rightarrow> client" where
  "new_client opt_timeout =
     \<lparr>cl_state = Idle, cl_timeout = (case opt_timeout of None \<Rightarrow> 30000 | Some t \<Rightarrow> t)\<rparr>"

definition check_names :: "string \<Rightarrow> string \<Rightarrow> thrown + unit" where
  "check_names service method =
     (if \<not> SERVICE_RE service then Inl (new_error (''invalid service \"'' @ service @ ''\"''))
      else if \<not> METHOD_RE method then Inl (new_error (''invalid method \"'' @ method @ ''\"''))
      else Inr ())"

definition call_decode :: "jsval \<Rightarrow> thrown + jsval" where
  "call_decode reply =
     (case parse_envelope reply of
        Inl e \<Rightarrow> Inl (new_protocol_error (''invalid response envelope: '' @ thrown_message e))
      | Inr (SuccessResponse r) \<Rightarrow> Inr (sr_result r)
      | Inr (ErrorResponse r) \<Rightarrow> Inl (new_rpc_error (er_code r) (er_message r) (er_data r))
      | Inr env \<Rightarrow> Inl (new_protocol_error (''unexpected response kind: '' @ env_kind env)))"

definition client_call ::
    "(jsval \<Rightarrow> nat \<Rightarrow> 't \<Rightarrow> (thrown + jsval) \<times> 't) \<Rightarrow> client \<Rightarrow> string \<Rightarrow> string \<Rightarrow> string \<Rightarrow>
     jsval \<Rightarrow> nat option \<Rightarrow> 't \<Rightarrow> (thrown + jsval) \<times> 't" where
  "client_call send c uuid service method params timeoutMs t =
     (case check_names service method of
        Inl e \<Rightarrow> (Inl e, t)
      | Inr _ \<Rightarrow>
        (let env = build_request (full_method service method) params (JStr uuid);
             timeout = (case timeoutMs of None \<Rightarrow> cl_timeout c | Some ms \<Rightarrow> ms) in
         case send env timeout t of
           (Inl e, t') \<Rightarrow> (Inl e, t')
         | (Inr reply, t') \<Rightarrow> (call_decode reply, t')))"

definition client_notify ::
    "(jsval \<Rightarrow> 't \<Rightarrow> (thrown + unit) \<times> 't) \<Rightarrow> string \<Rightarrow> string \<Rightarrow> jsval \<Rightarrow> 't \<Rightarrow>
     (thrown + unit) \<times> 't" where
  "client_notify notify service method params t =
     (case check_names service method of
        Inl e \<Rightarrow> (Inl e, t)
      | Inr _ \<Rightarrow> notify (build_notification (full_method service method) params) t)"

definition client_start ::
    "('t \<Rightarrow> (thrown + unit) \<times> 't) \<Rightarrow> client \<times> 't \<Rightarrow> (thrown + unit) \<times> client \<times> 't" where
  "client_start tstart = (\<lambda>(c, t).
     if cl_state c = Stopped then (Inl (new_error ''client has been stopped''), c, t)
     else if cl_state c = Started then (Inr (), c, t)
     else case tstart t of
       (Inl e, t') \<Rightarrow> (Inl e, c, t')
     | (Inr _, t') \<Rightarrow> (Inr (), c\<lparr>cl_state := Started\<rparr>, t'))"

definition client_stop ::
    "('t \<Rightarrow> (thrown + unit) \<times> 't) \<Rightarrow> client \<times> 't \<Rightarrow> (thrown + unit) \<times> client \<times> 't" where
  "client_stop tstop = (\<lambda>(c, t).
     if cl_state c \<noteq> Started then (Inr (), c\<lparr>cl_state := Stopped\<rparr>, t)
     else case tstop t of
       (Inl e, t') \<Rightarrow> (Inl e, c, t')
     | (Inr _, t') \<Rightarrow> (Inr (), c\<lparr>cl_state := Stopped\<rparr>, t'))"

interpretation client_lc: lifecycle "\<lambda>(c, t). cl_state c" "client_start tstart" "client_stop tstop"
  for tstart :: "'t \<Rightarrow> (thrown + unit) \<times> 't" and tstop
  by unfold_locales
    (auto simp: client_start_def client_stop_def split: sum.splits prod.splits if_splits)

section \<open>Decoding what the server encodes\<close>

text \<open>What the caller of \<open>call\<close> sees of an outcome of the abstract service.\<close>

fun outcome_result :: "outcome \<Rightarrow> thrown + jsval" where
  "outcome_result (Answer v) = Inr v"
| "outcome_result (Failure c m d) = Inl (new_rpc_error c m d)"
| "outcome_result NoAnswer = Inl (transport_error ''dispatcher returned null for a request'')"

lemma js_default_idem: "js_default JNull (js_default JNull d) = js_default JNull d"
  by (cases d) auto

lemma new_rpc_error_default: "new_rpc_error c m (js_default JNull d) = new_rpc_error c m d"
  by (simp add: new_rpc_error_def js_default_idem)

lemma decode_encode:
  assumes "encode_outcome i out = Some v" "i \<notin> {JUndef, JNull}"
  shows "call_decode v = outcome_result out"
  using assms
  by (cases out)
    (auto simp: call_decode_def parse_build_success parse_build_error new_rpc_error_default)

text \<open>Every failure to decode is a protocol error, never a raw parse error.\<close>

lemma call_decode_cases:
  "(\<exists>v. call_decode r = Inr v) \<or> (\<exists>c m d. call_decode r = Inl (new_rpc_error c m d))
   \<or> (\<exists>m. call_decode r = Inl (new_protocol_error m))"
  unfolding call_decode_def by (simp split: sum.split envelope.split) blast

lemma client_call_names:
  assumes "SERVICE_RE s" "METHOD_RE m"
  shows "client_call send c uuid s m p ms t =
    (case send (build_request (full_method s m) p (JStr uuid))
            (case ms of None \<Rightarrow> cl_timeout c | Some n \<Rightarrow> n) t of
       (Inl e, t') \<Rightarrow> (Inl e, t') | (Inr reply, t') \<Rightarrow> (call_decode reply, t'))"
  using assms by (simp add: client_call_def check_names_def Let_def)

lemma client_call_bad_name:
  assumes "\<not> (SERVICE_RE s \<and> METHOD_RE m)"
  shows "\<exists>msg. client_call send c uuid s m p ms t = (Inl (new_error msg), t)"
  using assms by (auto simp: client_call_def check_names_def)

text \<open>The request that reaches the transport parses back to the call.\<close>

lemma parse_build_request:
  assumes "SERVICE_RE s" "METHOD_RE m" "is_rpc_id i"
  shows "parse_envelope (build_request (full_method s m) p i) = Inr (Request
    \<lparr>rq_service = s, rq_method = m, rq_fullMethod = full_method s m,
     rq_params = js_nullish p (JObj []), rq_id = i,
     rq_raw = [(''jsonrpc'', JStr ''2.0''), (''method'', JStr (full_method s m)),
               (''params'', p), (''id'', i)]\<rparr>)"
proof -
  have "i \<noteq> JNull" "i \<noteq> JUndef" using assms(3) by auto
  then show ?thesis
    using assms
    by (simp add: build_request_def parse_object_def has_id_def parse_call_full_method Let_def)
qed

lemma parse_build_notification:
  assumes "SERVICE_RE s" "METHOD_RE m"
  shows "parse_envelope (build_notification (full_method s m) p) = Inr (Notification
    \<lparr>nt_service = s, nt_method = m, nt_fullMethod = full_method s m,
     nt_params = js_nullish p (JObj []),
     nt_raw = [(''jsonrpc'', JStr ''2.0''), (''method'', JStr (full_method s m)),
               (''params'', p)]\<rparr>)"
  using assms
  by (simp add: build_notification_def parse_object_def has_id_def parse_call_full_method Let_def)

section \<open>Properties\<close>

text \<open>
  A call or notification with an invalid service or method name is refused with an error
  before the transport is touched.
\<close>

lemma bad_names_never_sent:
  assumes "\<not> (SERVICE_RE s \<and> METHOD_RE m)"
  shows "\<exists>msg. client_call send c uuid s m p ms t = (Inl (new_error msg), t)"
    and "\<exists>msg. client_notify notify s m p t = (Inl (new_error msg), t)"
  using assms by (auto simp: client_call_def client_notify_def check_names_def)

text \<open>
  Whatever a transport hands back as the reply, \<open>call\<close> turns it into a result, an \<open>RpcError\<close>
  with the reply's code, message and data, or a \<open>ClamatorProtocolError\<close>; a response that is no
  valid envelope never leaks its parse error.
\<close>

lemma call_decodes_every_reply:
  "call_decode r =
     (case parse_envelope r of
        Inr (SuccessResponse x) \<Rightarrow> Inr (sr_result x)
      | Inr (ErrorResponse x) \<Rightarrow> Inl (new_rpc_error (er_code x) (er_message x) (er_data x))
      | Inr env \<Rightarrow> Inl (new_protocol_error (''unexpected response kind: '' @ env_kind env))
      | Inl e \<Rightarrow> Inl (new_protocol_error (''invalid response envelope: '' @ thrown_message e)))
   \<and> ((\<exists>v. call_decode r = Inr v) \<or> (\<exists>c m d. call_decode r = Inl (new_rpc_error c m d))
      \<or> (\<exists>m. call_decode r = Inl (new_protocol_error m)))"
  using call_decode_cases [of r] by (simp add: call_decode_def split: sum.split envelope.split)

text \<open>
  C11: Every envelope the builders make reads back as what it was built from: a request and a
  notification of a valid service and method, and both kinds of response under any id that
  is present.
\<close>

theorem envelope_roundtrip:
  assumes "SERVICE_RE s" "METHOD_RE m" "is_rpc_id i"
  shows "(\<exists>raw. parse_envelope (build_request (full_method s m) p i) = Inr (Request
      \<lparr>rq_service = s, rq_method = m, rq_fullMethod = full_method s m,
       rq_params = js_nullish p (JObj []), rq_id = i, rq_raw = raw\<rparr>))
    \<and> (\<exists>raw. parse_envelope (build_notification (full_method s m) p) = Inr (Notification
      \<lparr>nt_service = s, nt_method = m, nt_fullMethod = full_method s m,
       nt_params = js_nullish p (JObj []), nt_raw = raw\<rparr>))
    \<and> parse_envelope (build_success_response i p) = Inr (SuccessResponse \<lparr>sr_id = i, sr_result = p\<rparr>)
    \<and> parse_envelope (build_error_response i c msg p) = Inr (ErrorResponse
      \<lparr>er_id = i, er_code = c, er_message = msg, er_data = js_default JNull p\<rparr>)"
proof (intro conjI)
  have i: "i \<notin> {JUndef, JNull}" using is_rpc_id_present [OF assms(3)] by simp
  show "\<exists>raw. parse_envelope (build_request (full_method s m) p i) = Inr (Request
      \<lparr>rq_service = s, rq_method = m, rq_fullMethod = full_method s m,
       rq_params = js_nullish p (JObj []), rq_id = i, rq_raw = raw\<rparr>)"
    using parse_build_request [OF assms] by blast
  show "\<exists>raw. parse_envelope (build_notification (full_method s m) p) = Inr (Notification
      \<lparr>nt_service = s, nt_method = m, nt_fullMethod = full_method s m,
       nt_params = js_nullish p (JObj []), nt_raw = raw\<rparr>)"
    using parse_build_notification [OF assms(1,2)] by blast
  show "parse_envelope (build_success_response i p) = Inr (SuccessResponse \<lparr>sr_id = i, sr_result = p\<rparr>)"
    using i by (rule parse_build_success)
  show "parse_envelope (build_error_response i c msg p) = Inr (ErrorResponse
      \<lparr>er_id = i, er_code = c, er_message = msg, er_data = js_default JNull p\<rparr>)"
    using i by (intro parse_build_error) simp
qed

theorem envelope_roundtrip_witness:
  "\<exists>raw. parse_envelope (build_request ''calc.add'' JUndef (JNum 4)) = Inr (Request
      \<lparr>rq_service = ''calc'', rq_method = ''add'', rq_fullMethod = ''calc.add'',
       rq_params = JObj [], rq_id = JNum 4, rq_raw = raw\<rparr>)"
  using envelope_roundtrip [OF calc_names(1,2), of "JNum 4" JUndef]
  by (simp add: full_method_def)

end
