(* ===== verification/PendingCalls.thy ===== *)
theory PendingCalls
  imports Interfaces
begin

text \<open>
  The table of pending calls that \<open>MemoryTransport\<close> (\<open>over-memory/src/transport.ts\<close>) and
  \<open>ClientRedisTransport\<close> (\<open>over-redis/src/client-transport.ts\<close>) both keep: a \<open>Map\<close> from the
  id of a call to the functions that settle its promise and to its timer. A promise is a
  handle into the list of promises created so far; settling one that is settled has no
  effect, as in JavaScript. A timer is armed under its handle and remembers the key that
  its callback deletes.
\<close>

record calls =
  pending :: "(jsval, nat) jsmap"
  timers :: "(nat, jsval) jsmap"
  promises :: "(thrown + jsval) option list"

definition no_calls :: calls where
  "no_calls = \<lparr>pending = [], timers = [], promises = []\<rparr>"

definition settle :: "nat \<Rightarrow> thrown + jsval \<Rightarrow> calls \<Rightarrow> calls" where
  "settle h r c =
     (if h < length (promises c) \<and> promises c ! h = None
      then c\<lparr>promises := (promises c)[h := Some r]\<rparr> else c)"

text \<open>\<open>new Promise\<close>, \<open>setTimeout\<close> and \<open>pending.set\<close>; \<open>tkey\<close> is what the timer deletes.\<close>

definition open_call :: "jsval \<Rightarrow> jsval \<Rightarrow> calls \<Rightarrow> nat \<times> calls" where
  "open_call key tkey c =
     (let h = length (promises c) in
      (h, c\<lparr>promises := promises c @ [None], timers := jm_set (timers c) h tkey,
            pending := jm_set (pending c) key h\<rparr>))"

text \<open>The timer's callback: \<open>pending.delete\<close> and \<open>reject\<close>.\<close>

definition call_timeout :: "nat \<Rightarrow> calls \<Rightarrow> calls" where
  "call_timeout h c =
     (case jm_get (timers c) h of
        None \<Rightarrow> c
      | Some tkey \<Rightarrow>
        settle h (Inl (transport_error ''call timeout''))
          (c\<lparr>timers := jm_delete (timers c) h, pending := jm_delete (pending c) tkey\<rparr>))"

text \<open>\<open>pending.get\<close>, \<open>pending.delete\<close>, \<open>clearTimeout\<close> and \<open>resolve\<close> or \<open>reject\<close>.\<close>

definition take_call :: "jsval \<Rightarrow> thrown + jsval \<Rightarrow> calls \<Rightarrow> calls" where
  "take_call key r c =
     (case jm_get (pending c) key of
        None \<Rightarrow> c
      | Some h \<Rightarrow>
        settle h r (c\<lparr>pending := jm_delete (pending c) key, timers := jm_delete (timers c) h\<rparr>))"

text \<open>The loop of \<open>stop\<close> over the entries.\<close>

definition reject_all :: "thrown \<Rightarrow> calls \<Rightarrow> calls" where
  "reject_all e c = fold (\<lambda>k c. take_call k (Inl e) c) (jm_keys (pending c)) c"

text \<open>The refusal of a transport that is not started.\<close>

definition not_started :: "run_state \<Rightarrow> thrown" where
  "not_started s = transport_error (''transport not started (state='' @ state_name s @ '')'')"

text \<open>The key a request is pending under.\<close>

definition pending_key :: "request_env \<Rightarrow> jsval" where
  "pending_key r = JStr (js_string (rq_id r))"

section \<open>Settling\<close>

definition settled :: "calls \<Rightarrow> nat \<Rightarrow> (thrown + jsval) option" where
  "settled c h = (if h < length (promises c) then promises c ! h else None)"

lemma settle_fields [simp]:
  "pending (settle h r c) = pending c" "timers (settle h r c) = timers c"
  "length (promises (settle h r c)) = length (promises c)"
  by (simp_all add: settle_def)

lemma settled_settle:
  "settled (settle h r c) k =
     (if k = h \<and> h < length (promises c) \<and> settled c h = None then Some r else settled c k)"
  by (auto simp: settle_def settled_def nth_list_update)

lemma settled_frame [simp]:
  "settled (c\<lparr>pending := x\<rparr>) h = settled c h" "settled (c\<lparr>timers := y\<rparr>) h = settled c h"
  by (simp_all add: settled_def)

lemma settled_open: "settled (snd (open_call key tkey c)) k = settled c k"
  by (auto simp: open_call_def Let_def settled_def nth_append)

lemma open_call_handle: "fst (open_call key tkey c) = length (promises c)"
  by (simp add: open_call_def Let_def)

text \<open>A settled promise never changes its value.\<close>

lemma settled_stable:
  assumes "settled c h = Some r"
  shows "settled (snd (open_call key tkey c)) h = Some r"
    "settled (call_timeout k c) h = Some r"
    "settled (take_call key q c) h = Some r"
  using assms
  by (auto simp: settled_open call_timeout_def take_call_def settled_settle split: option.split)

lemma fold_take_stable:
  "settled c h = Some r \<Longrightarrow> settled (fold (\<lambda>k c. take_call k (Inl e) c) ks c) h = Some r"
  by (induction ks arbitrary: c) (auto simp: settled_stable)

lemma reject_all_stable: "settled c h = Some r \<Longrightarrow> settled (reject_all e c) h = Some r"
  by (simp add: reject_all_def fold_take_stable)

section \<open>The invariant\<close>

text \<open>
  For every call its timer deletes the key it is pending under. A promise is open exactly
  while its timer is armed, and every pending entry belongs to an open promise; so no call
  can be left without the timer that ends it, even when a key is used twice.
\<close>

definition calls_inv :: "calls \<Rightarrow> bool" where
  "calls_inv c \<longleftrightarrow>
     jm_wf (pending c) \<and> jm_wf (timers c)
     \<and> (\<forall>h. jm_get (timers c) h \<noteq> None \<longleftrightarrow> h < length (promises c) \<and> settled c h = None)
     \<and> (\<forall>k h. jm_get (pending c) k = Some h \<longrightarrow> jm_get (timers c) h = Some k)"

lemma calls_invD:
  assumes "calls_inv c"
  shows "jm_wf (pending c)" "jm_wf (timers c)"
    "jm_get (timers c) h \<noteq> None \<longleftrightarrow> h < length (promises c) \<and> settled c h = None"
    "jm_get (pending c) k = Some h \<Longrightarrow> jm_get (timers c) h = Some k"
  using assms unfolding calls_inv_def by blast+

lemma calls_inv_init [inv_intro]: "calls_inv no_calls"
  by (simp add: calls_inv_def no_calls_def jm_get_def settled_def)

lemma calls_inv_open [inv_intro]:
  assumes "calls_inv c"
  shows "calls_inv (snd (open_call key key c))"
proof -
  let ?n = "length (promises c)"
  have fresh: "jm_get (timers c) ?n = None"
    using calls_invD(3) [OF assms, of ?n] by simp
  have p: "pending (snd (open_call key key c)) = jm_set (pending c) key ?n"
    "timers (snd (open_call key key c)) = jm_set (timers c) ?n key"
    "length (promises (snd (open_call key key c))) = Suc ?n"
    by (simp_all add: open_call_def Let_def)
  have s: "settled c ?n = None" by (simp add: settled_def)
  show ?thesis
    unfolding calls_inv_def p settled_open
  proof (intro conjI allI impI)
    show "jm_wf (jm_set (pending c) key ?n)" "jm_wf (jm_set (timers c) ?n key)"
      using calls_invD(1,2) [OF assms] by simp_all
    show "(jm_get (jm_set (timers c) ?n key) h \<noteq> None) \<longleftrightarrow> h < Suc ?n \<and> settled c h = None" for h
      using calls_invD(3) [OF assms, of h] s by (auto simp: less_Suc_eq)
    show "jm_get (jm_set (timers c) ?n key) h = Some k"
      if "jm_get (jm_set (pending c) key ?n) k = Some h" for k h
      using that fresh calls_invD(4) [OF assms, of k h] by (auto split: if_splits)
  qed
qed

text \<open>Both ways to close a call remove its timer, its entry and its openness together.\<close>

lemma calls_inv_close:
  assumes inv: "calls_inv c" and t: "jm_get (timers c) h = Some k"
  shows "calls_inv (settle h r
    (c\<lparr>timers := jm_delete (timers c) h, pending := jm_delete (pending c) k\<rparr>))"
proof -
  let ?c = "c\<lparr>timers := jm_delete (timers c) h, pending := jm_delete (pending c) k\<rparr>"
  from t calls_invD(3) [OF inv, of h] have h: "h < length (promises c)" "settled c h = None"
    by auto
  have s: "settled (settle h r ?c) x = (if x = h then Some r else settled c x)" for x
    using h by (simp add: settled_settle)
  show ?thesis
    unfolding calls_inv_def settle_fields s
  proof (intro conjI allI impI)
    show "jm_wf (pending ?c)" "jm_wf (timers ?c)"
      using calls_invD(1,2) [OF inv] by simp_all
    show "(jm_get (timers ?c) x \<noteq> None) \<longleftrightarrow>
        x < length (promises ?c) \<and> (if x = h then Some r else settled c x) = None" for x
      using calls_invD(3) [OF inv, of x] by simp
    show "jm_get (timers ?c) x = Some k'" if "jm_get (pending ?c) k' = Some x" for k' x
      using that calls_invD(4) [OF inv, of k' x] t by (auto split: if_splits)
  qed
qed

lemma calls_inv_timeout [inv_intro]: "calls_inv c \<Longrightarrow> calls_inv (call_timeout h c)"
  by (auto simp: call_timeout_def calls_inv_close split: option.split)

lemma calls_update_swap:
  "c\<lparr>pending := p, timers := t\<rparr> = c\<lparr>timers := t, pending := p\<rparr>"
  by simp

lemma calls_inv_take [inv_intro]: "calls_inv c \<Longrightarrow> calls_inv (take_call k r c)"
  by (auto simp: take_call_def calls_update_swap calls_inv_close calls_invD(4) split: option.split)

lemma calls_inv_fold_take:
  "calls_inv c \<Longrightarrow> calls_inv (fold (\<lambda>k c. take_call k (Inl e) c) ks c)"
  by (induction ks arbitrary: c) (auto intro: inv_intro)

lemma calls_inv_reject_all [inv_intro]: "calls_inv c \<Longrightarrow> calls_inv (reject_all e c)"
  by (simp add: reject_all_def calls_inv_fold_take)

section \<open>Correlation\<close>

text \<open>A reply settles the call pending under its id and no other.\<close>

lemma take_call_settles:
  assumes "calls_inv c" "jm_get (pending c) k = Some h"
  shows "settled (take_call k r c) x = (if x = h then Some r else settled c x)"
proof -
  from assms have "h < length (promises c)" "settled c h = None"
    using calls_invD(3,4) by (metis option.distinct(1))+
  with assms(2) show ?thesis by (simp add: take_call_def settled_settle)
qed

lemma take_call_stranger: "jm_get (pending c) k = None \<Longrightarrow> take_call k r c = c"
  by (simp add: take_call_def)

lemma call_timeout_settles:
  assumes "calls_inv c" "h < length (promises c)" "settled c h = None"
  shows "settled (call_timeout h c) x =
    (if x = h then Some (Inl (transport_error ''call timeout'')) else settled c x)"
proof -
  from assms obtain k where "jm_get (timers c) h = Some k" using calls_invD(3) by blast
  with assms(2,3) show ?thesis by (simp add: call_timeout_def settled_settle)
qed

lemma take_pending: "jm_get (pending (take_call k r c)) k' = (if k' = k then None else jm_get (pending c) k')"
  by (simp add: take_call_def split: option.split)

lemma pending_keys_take: "jm_keys (pending (take_call k r c)) = filter (\<lambda>x. x \<noteq> k) (jm_keys (pending c))"
  using jm_keys_get [of k "pending c"]
  by (auto simp: take_call_def split: option.split intro!: filter_True [symmetric])

lemma fold_take_pending:
  "jm_get (pending (fold (\<lambda>k c. take_call k (Inl e) c) ks c)) k =
     (if k \<in> set ks then None else jm_get (pending c) k)"
  by (induction ks arbitrary: c) (auto simp: take_pending)

lemma reject_all_pending: "jm_get (pending (reject_all e c)) k = None"
  using jm_keys_get [of k "pending c"] by (simp add: reject_all_def fold_take_pending)

lemma length_take [simp]: "length (promises (take_call k r c)) = length (promises c)"
  by (simp add: take_call_def split: option.split)

lemma length_fold_take [simp]:
  "length (promises (fold (\<lambda>k c. take_call k (Inl e) c) ks c)) = length (promises c)"
  by (induction ks arbitrary: c) auto

lemma length_reject_all [simp]: "length (promises (reject_all e c)) = length (promises c)"
  by (simp add: reject_all_def)

lemma fold_take_settles:
  assumes "calls_inv c" "jm_get (pending c) k = Some h" "k \<in> set ks"
  shows "settled (fold (\<lambda>k c. take_call k (Inl e) c) ks c) h = Some (Inl e)"
  using assms
proof (induction ks arbitrary: c)
  case Nil
  then show ?case by simp
next
  case (Cons k' ks)
  show ?case
  proof (cases "k' = k")
    case True
    with Cons.prems show ?thesis
      by (simp add: fold_take_stable take_call_settles)
  next
    case False
    with Cons.prems have "jm_get (pending (take_call k' (Inl e) c)) k = Some h" "k \<in> set ks"
      by (auto simp: take_pending)
    with Cons show ?thesis by (simp add: inv_intro)
  qed
qed

lemma reject_all_settles:
  assumes "calls_inv c" "jm_get (pending c) k = Some h"
  shows "settled (reject_all e c) h = Some (Inl e)"
  using assms jm_keys_get [of k "pending c"]
  by (auto simp: reject_all_def intro: fold_take_settles)

section \<open>Calls with distinct keys\<close>

text \<open>
  When no key is opened while it is still pending, every open promise also has its entry,
  so a reply can reach it and \<open>stop\<close> settles it.
\<close>

definition all_pending :: "calls \<Rightarrow> bool" where
  "all_pending c \<longleftrightarrow>
     (\<forall>h k. jm_get (timers c) h = Some k \<longrightarrow> jm_get (pending c) k = Some h)"

lemma all_pending_init: "all_pending no_calls"
  by (simp add: all_pending_def no_calls_def jm_get_def)

lemma all_pending_open:
  assumes "calls_inv c" "all_pending c" "jm_get (pending c) key = None"
  shows "all_pending (snd (open_call key key c))"
  unfolding all_pending_def
proof (intro allI impI)
  fix h k
  assume "jm_get (timers (snd (open_call key key c))) h = Some k"
  then have "h = length (promises c) \<and> k = key \<or> h \<noteq> length (promises c) \<and> jm_get (timers c) h = Some k"
    by (auto simp: open_call_def Let_def split: if_splits)
  then show "jm_get (pending (snd (open_call key key c))) k = Some h"
    using assms(2,3) by (auto simp: open_call_def Let_def all_pending_def)
qed

lemma all_pending_timeout: "calls_inv c \<Longrightarrow> all_pending c \<Longrightarrow> all_pending (call_timeout h c)"
  by (auto simp: all_pending_def call_timeout_def split: option.split) (metis option.inject)

lemma all_pending_take: "calls_inv c \<Longrightarrow> all_pending c \<Longrightarrow> all_pending (take_call k r c)"
  by (auto simp: all_pending_def take_call_def split: option.split dest: calls_invD(4))

lemma all_pending_fold_take:
  "calls_inv c \<Longrightarrow> all_pending c \<Longrightarrow> all_pending (fold (\<lambda>k c. take_call k (Inl e) c) ks c)"
  by (induction ks arbitrary: c) (auto intro: all_pending_take calls_inv_take)

lemma all_pending_reject_all:
  "calls_inv c \<Longrightarrow> all_pending c \<Longrightarrow> all_pending (reject_all x c)"
  by (simp add: reject_all_def all_pending_fold_take)

lemma reject_all_settles_all:
  assumes "calls_inv c" "all_pending c" "h < length (promises c)"
  shows "settled (reject_all e c) h \<noteq> None"
proof (cases "settled c h")
  case None
  with assms obtain k where "jm_get (timers c) h = Some k" using calls_invD(3) by blast
  with assms(2) have "jm_get (pending c) k = Some h" by (simp add: all_pending_def)
  with assms(1) show ?thesis by (simp add: reject_all_settles)
next
  case (Some r)
  then show ?thesis by (simp add: reject_all_stable)
qed

section \<open>Machines that keep such a table\<close>

text \<open>
  What a transport's event does to its table is a list of these operations. The locale
  \<open>call_machine\<close> asks a transport to name them, and gives it the facts about every run.
\<close>

datatype call_op =
    OpenOp jsval jsval
  | TakeOp jsval "thrown + jsval"
  | TimeoutOp nat
  | RejectOp thrown

fun apply_op :: "call_op \<Rightarrow> calls \<Rightarrow> calls" where
  "apply_op (OpenOp k tk) c = snd (open_call k tk c)"
| "apply_op (TakeOp k r) c = take_call k r c"
| "apply_op (TimeoutOp h) c = call_timeout h c"
| "apply_op (RejectOp e) c = reject_all e c"

fun op_keyed :: "call_op \<Rightarrow> bool" where
  "op_keyed (OpenOp k tk) = (k = tk)"
| "op_keyed _ = True"

fun op_fresh :: "call_op \<Rightarrow> calls \<Rightarrow> bool" where
  "op_fresh (OpenOp k tk) c = (jm_get (pending c) k = None)"
| "op_fresh _ c = True"

text \<open>No key is opened while it is pending.\<close>

fun fresh_ops :: "call_op list \<Rightarrow> calls \<Rightarrow> bool" where
  "fresh_ops [] c = True"
| "fresh_ops (p # ps) c = (op_fresh p c \<and> fresh_ops ps (apply_op p c))"

fun run_ops :: "('e \<Rightarrow> 's \<Rightarrow> 's) \<Rightarrow> ('e \<Rightarrow> 's \<Rightarrow> call_op list) \<Rightarrow> 'e list \<Rightarrow> 's \<Rightarrow> call_op list" where
  "run_ops exec ops [] s = []"
| "run_ops exec ops (e # es) s = ops e s @ run_ops exec ops es (exec e s)"

lemma run_ops_append:
  "run_ops exec ops (es @ fs) s = run_ops exec ops es s @ run_ops exec ops fs (fold exec es s)"
  by (induction es arbitrary: s) simp_all

lemma fresh_ops_append: "fresh_ops (ps @ qs) c \<longleftrightarrow> fresh_ops ps c \<and> fresh_ops qs (fold apply_op ps c)"
  by (induction ps arbitrary: c) simp_all

definition opens_none :: "call_op list \<Rightarrow> bool" where
  "opens_none ps \<longleftrightarrow> (\<forall>p \<in> set ps. \<forall>k t. p \<noteq> OpenOp k t)"

lemma fresh_opens_none: "opens_none ps \<Longrightarrow> fresh_ops ps c"
proof (induction ps arbitrary: c)
  case (Cons p ps)
  then show ?case by (cases p) (auto simp: opens_none_def)
qed simp

lemma apply_op_inv: "calls_inv c \<Longrightarrow> op_keyed p \<Longrightarrow> calls_inv (apply_op p c)"
  by (cases p) (auto intro: inv_intro)

lemma ops_inv: "calls_inv c \<Longrightarrow> list_all op_keyed ps \<Longrightarrow> calls_inv (fold apply_op ps c)"
  by (induction ps arbitrary: c) (auto simp: apply_op_inv)

lemma apply_op_settled: "settled c h = Some r \<Longrightarrow> settled (apply_op p c) h = Some r"
  by (cases p) (auto simp: settled_stable reject_all_stable)

lemma ops_settled: "settled c h = Some r \<Longrightarrow> settled (fold apply_op ps c) h = Some r"
  by (induction ps arbitrary: c) (auto simp: apply_op_settled)

lemma apply_op_all_pending:
  "calls_inv c \<Longrightarrow> all_pending c \<Longrightarrow> op_keyed p \<Longrightarrow> op_fresh p c \<Longrightarrow> all_pending (apply_op p c)"
  by (cases p) (auto simp: all_pending_open all_pending_take all_pending_timeout
      all_pending_reject_all)

lemma ops_all_pending:
  "calls_inv c \<Longrightarrow> all_pending c \<Longrightarrow> list_all op_keyed ps \<Longrightarrow> fresh_ops ps c \<Longrightarrow>
     all_pending (fold apply_op ps c)"
  by (induction ps arbitrary: c) (auto simp: apply_op_all_pending apply_op_inv)

lemma call_timeout_length [simp]: "length (promises (call_timeout h c)) = length (promises c)"
  by (simp add: call_timeout_def split: option.split)

lemma apply_op_length: "length (promises c) \<le> length (promises (apply_op p c))"
  by (cases p) (simp_all add: open_call_def Let_def)

lemma ops_length: "length (promises c) \<le> length (promises (fold apply_op ps c))"
proof (induction ps arbitrary: c)
  case (Cons p ps)
  from Cons [of "apply_op p c"] apply_op_length [of c p] show ?case by simp
qed simp

text \<open>The keys of the calls opened, in their order; a call is resolved by taking its key only.\<close>

fun opened :: "call_op list \<Rightarrow> jsval list" where
  "opened [] = []"
| "opened (OpenOp k tk # ps) = k # opened ps"
| "opened (p # ps) = opened ps"

lemma opened_append: "opened (ps @ qs) = opened ps @ opened qs"
  by (induction ps rule: opened.induct) auto

lemma opened_snoc [simp]:
  "opened (ps @ [OpenOp k tk]) = opened ps @ [k]" "opened (ps @ [TakeOp k r]) = opened ps"
  "opened (ps @ [TimeoutOp h]) = opened ps" "opened (ps @ [RejectOp e]) = opened ps"
  by (simp_all add: opened_append)

lemma length_opened: "length (promises (fold apply_op ps no_calls)) = length (opened ps)"
proof (induction ps rule: rev_induct)
  case (snoc p ps)
  then show ?case by (cases p) (simp_all add: open_call_def Let_def)
qed (simp add: no_calls_def)

lemma fold_take_resolved:
  "settled (fold (\<lambda>k c. take_call k (Inl e) c) ks c) h = Some (Inr v) \<Longrightarrow> settled c h = Some (Inr v)"
proof (induction ks arbitrary: c)
  case (Cons k ks)
  from Cons.IH [of "take_call k (Inl e) c"] Cons.prems show ?case
    by (auto simp: take_call_def settled_settle split: option.splits if_splits)
qed simp

lemma reject_all_resolved: "settled (reject_all e c) h = Some (Inr v) \<Longrightarrow> settled c h = Some (Inr v)"
  unfolding reject_all_def by (rule fold_take_resolved)

lemma resolved_by_take:
  defines "C ps \<equiv> fold apply_op ps no_calls"
  shows "(\<forall>k h. jm_get (pending (C ps)) k = Some h \<longrightarrow> h < length (opened ps) \<and> opened ps ! h = k)
    \<and> (\<forall>h v. settled (C ps) h = Some (Inr v) \<longrightarrow> TakeOp (opened ps ! h) (Inr v) \<in> set ps \<and> h < length (opened ps))"
proof (induction ps rule: rev_induct)
  case Nil
  then show ?case by (simp add: C_def no_calls_def settled_def jm_get_def)
next
  case (snoc p ps)
  have C: "C (ps @ [p]) = apply_op p (C ps)" by (simp add: C_def)
  have len: "length (promises (C ps)) = length (opened ps)" unfolding C_def by (rule length_opened)
  show ?case
  proof (cases p)
    case (OpenOp k tk)
    have pend: "jm_get (pending (snd (open_call k tk (C ps)))) k' = (if k' = k then Some (length (opened ps)) else jm_get (pending (C ps)) k')" for k'
      by (simp add: open_call_def Let_def len)
    show ?thesis unfolding C using snoc by (auto simp: OpenOp pend settled_open nth_append intro: less_SucI)
  next
    case (TakeOp k r)
    show ?thesis unfolding C using snoc
      by (auto simp: TakeOp take_pending take_call_def settled_settle split: option.splits if_splits)
  next
    case (TimeoutOp h)
    show ?thesis unfolding C using snoc
      by (auto simp: TimeoutOp call_timeout_def settled_settle split: option.splits if_splits)
  next
    case (RejectOp e)
    show ?thesis unfolding C using snoc by (auto simp: RejectOp reject_all_pending dest!: reject_all_resolved)
  qed
qed

locale call_machine =
  fixes calls_of :: "'s \<Rightarrow> calls"
    and exec :: "'e \<Rightarrow> 's \<Rightarrow> 's"
    and ops :: "'e \<Rightarrow> 's \<Rightarrow> call_op list"
    and keyed :: "'e \<Rightarrow> bool"
  assumes exec_ops: "calls_of (exec e s) = fold apply_op (ops e s) (calls_of s)"
    and keyed_ops: "keyed e \<Longrightarrow> list_all op_keyed (ops e s)"
begin

lemma run_calls:
  "calls_of (fold exec es s) = fold apply_op (run_ops exec ops es s) (calls_of s)"
  by (induction es arbitrary: s) (simp_all add: exec_ops)

lemma run_keyed: "list_all keyed es \<Longrightarrow> list_all op_keyed (run_ops exec ops es s)"
  by (induction es arbitrary: s) (simp_all add: keyed_ops)

lemma run_inv: "calls_inv (calls_of s) \<Longrightarrow> list_all keyed es \<Longrightarrow> calls_inv (calls_of (fold exec es s))"
  by (simp add: run_calls ops_inv run_keyed)

lemma run_settled:
  "settled (calls_of s) h = Some r \<Longrightarrow> settled (calls_of (fold exec es s)) h = Some r"
  by (simp add: run_calls ops_settled)

lemma run_all_pending:
  assumes "calls_inv (calls_of s)" "all_pending (calls_of s)" "list_all keyed es"
    and "fresh_ops (run_ops exec ops es s) (calls_of s)"
  shows "all_pending (calls_of (fold exec es s))"
  using assms by (simp add: run_calls ops_all_pending run_keyed)

text \<open>Every call that is open has its timer, and the timer ends exactly that call.\<close>

lemma run_timer:
  assumes "calls_inv (calls_of s)" "list_all keyed es"
    and "h < length (promises (calls_of (fold exec es s)))"
    and "settled (calls_of (fold exec es s)) h = None"
  shows "jm_get (timers (calls_of (fold exec es s))) h \<noteq> None"
    and "settled (call_timeout h (calls_of (fold exec es s))) h'
      = (if h' = h then Some (Inl (transport_error ''call timeout''))
         else settled (calls_of (fold exec es s)) h')"
proof -
  note inv = run_inv [OF assms(1,2)]
  show "jm_get (timers (calls_of (fold exec es s))) h \<noteq> None"
    using calls_invD(3) [OF inv, of h] assms(3,4) by simp
  show "settled (call_timeout h (calls_of (fold exec es s))) h'
      = (if h' = h then Some (Inl (transport_error ''call timeout''))
         else settled (calls_of (fold exec es s)) h')"
    by (rule call_timeout_settles [OF inv assms(3,4)])
qed

text \<open>Rejecting all calls of the table leaves none open.\<close>

lemma run_reject_all:
  assumes "calls_inv (calls_of s)" "all_pending (calls_of s)" "list_all keyed es"
    and "fresh_ops (run_ops exec ops es s) (calls_of s)"
    and "h < length (promises (calls_of (fold exec es s)))"
  shows "settled (reject_all x (calls_of (fold exec es s))) h \<noteq> None"
  using reject_all_settles_all [OF run_inv [OF assms(1,3)] run_all_pending [OF assms(1-4)] assms(5)] .

end

end
