(* ===== verification/MemoryTransport.thy ===== *)
theory MemoryTransport
  imports PendingCalls ServerCore
begin

text \<open>
  \<open>ts/packages/over-memory/src\<close>: \<open>MemoryBus\<close> (\<open>bus.ts\<close>) and \<open>MemoryTransport\<close>
  (\<open>transport.ts\<close>). A state is one transport together with the bus it shares. What happens
  later (a queued microtask and the settlement of the dispatcher it awaits, a timer that
  fires) is an event of its own; a run is a list of events, so every interleaving is one.
  How long a timer takes is not modelled: it may fire at any time while it is armed.
\<close>

section \<open>The bus\<close>

type_synonym 'd bus = "(string, 'd) jsmap"

definition bus_register :: "string \<Rightarrow> 'd \<Rightarrow> 'd bus \<Rightarrow> (thrown + unit) \<times> 'd bus" where
  "bus_register service d b =
     (if jm_has b service
      then (Inl (new_error (''service \"'' @ service @ ''\" already registered on this bus'')), b)
      else (Inr (), jm_set b service d))"

definition bus_unregister :: "string \<Rightarrow> 'd bus \<Rightarrow> 'd bus" where
  "bus_unregister service b = jm_delete b service"

definition bus_lookup :: "'d bus \<Rightarrow> string \<Rightarrow> 'd option" where
  "bus_lookup b service = jm_get b service"

interpretation bus: registry bus_register bus_lookup
  by unfold_locales (auto simp: bus_register_def bus_lookup_def jm_has_def)

section \<open>The transport\<close>

text \<open>
  \<open>mt_tasks\<close> are the microtasks of \<open>send\<close> whose dispatcher has not settled, with the
  message and the dispatcher the closure holds; \<open>mt_notes\<close> those of \<open>notify\<close>.
  \<open>mt_unhandled\<close> collects the promise rejections that nothing handles.
\<close>

record 'd mem_transport =
  mt_state :: run_state
  mt_calls :: calls
  mt_services :: "string list"
  mt_tasks :: "(request_env \<times> 'd) list"
  mt_notes :: "(notification_env \<times> 'd) list"
  mt_unhandled :: "thrown list"
  mt_log :: "log_record list"

type_synonym 'd mem = "'d mem_transport \<times> 'd bus"

definition new_mem :: "'d mem_transport" where
  "new_mem = \<lparr>mt_state = Idle, mt_calls = no_calls, mt_services = [], mt_tasks = [],
     mt_notes = [], mt_unhandled = [], mt_log = []\<rparr>"

definition mem_register :: "string \<Rightarrow> 'd \<Rightarrow> 'd mem \<Rightarrow> (thrown + unit) \<times> 'd mem" where
  "mem_register name d = (\<lambda>(t, b).
     case bus_register name d b of
       (Inl e, b') \<Rightarrow> (Inl e, t, b')
     | (Inr _, b') \<Rightarrow> (Inr (), t\<lparr>mt_services := List.insert name (mt_services t)\<rparr>, b'))"

text \<open>The key the timer of a request deletes: the id itself, not its \<open>String\<close>.\<close>

definition mem_timer_key :: "request_env \<Rightarrow> jsval" where
  "mem_timer_key r = rq_id r"

datatype send_result = Reply jsval | Promise nat

definition mem_send :: "jsval \<Rightarrow> 'd mem \<Rightarrow> (thrown + send_result) \<times> 'd mem" where
  "mem_send env = (\<lambda>(t, b).
     if mt_state t \<noteq> Started then (Inl (not_started (mt_state t)), t, b)
     else case parse_envelope env of
       Inl e \<Rightarrow> (Inl e, t, b)
     | Inr (Request r) \<Rightarrow>
       (case bus_lookup b (rq_service r) of
          None \<Rightarrow>
            (Inr (Reply (JObj [(''jsonrpc'', JStr ''2.0''), (''id'', rq_id r),
               (''error'', JObj [(''code'', JNum (-32601)),
                 (''message'', JStr ''Method not found''), (''data'', JNull)])])), t, b)
        | Some d \<Rightarrow>
          (let (h, c) = open_call (pending_key r) (mem_timer_key r) (mt_calls t) in
           (Inr (Promise h), t\<lparr>mt_calls := c, mt_tasks := mt_tasks t @ [(r, d)]\<rparr>, b)))
     | Inr _ \<Rightarrow> (Inl (transport_error ''send requires a request envelope''), t, b))"

text \<open>
  The rest of the \<open>i\<close>-th microtask once its dispatcher has returned a reply or null, or has
  thrown.
\<close>

definition finish_send ::
    "request_env \<Rightarrow> thrown + jsval option \<Rightarrow> 'd mem_transport \<Rightarrow> 'd mem_transport" where
  "finish_send r out t =
     (case out of
        Inr None \<Rightarrow>
          t\<lparr>mt_calls := take_call (pending_key r)
             (Inl (transport_error ''dispatcher returned null for a request'')) (mt_calls t)\<rparr>
      | Inr (Some reply) \<Rightarrow>
          t\<lparr>mt_calls := take_call (pending_key r) (Inr reply) (mt_calls t)\<rparr>
      | Inl e \<Rightarrow>
          t\<lparr>mt_log := mt_log t @ [\<lparr>log_level = LogWarn,
                log_msg = ''dispatcher threw: service='' @ rq_service r, log_err = e,
                log_fields = [(''service'', JStr (rq_service r)),
                              (''rpcId'', JStr (js_string (rq_id r)))]\<rparr>],
            mt_calls := take_call (pending_key r)
             (Inl (new_transport_error ''dispatcher threw'' (thrown_value e))) (mt_calls t)\<rparr>)"

definition mem_task_done :: "nat \<Rightarrow> thrown + jsval option \<Rightarrow> 'd mem \<Rightarrow> 'd mem" where
  "mem_task_done i out = (\<lambda>(t, b).
     if i < length (mt_tasks t)
     then (finish_send (fst (mt_tasks t ! i)) out (t\<lparr>mt_tasks := remove_nth i (mt_tasks t)\<rparr>), b)
     else (t, b))"

definition mem_timeout :: "nat \<Rightarrow> 'd mem \<Rightarrow> 'd mem" where
  "mem_timeout h = (\<lambda>(t, b). (t\<lparr>mt_calls := call_timeout h (mt_calls t)\<rparr>, b))"

definition mem_notify :: "jsval \<Rightarrow> 'd mem \<Rightarrow> (thrown + unit) \<times> 'd mem" where
  "mem_notify env = (\<lambda>(t, b).
     if mt_state t \<noteq> Started then (Inl (not_started (mt_state t)), t, b)
     else case parse_envelope env of
       Inl e \<Rightarrow> (Inl e, t, b)
     | Inr (Notification n) \<Rightarrow>
       (case bus_lookup b (nt_service n) of
          None \<Rightarrow> (Inr (), t, b)
        | Some d \<Rightarrow> (Inr (), t\<lparr>mt_notes := mt_notes t @ [(n, d)]\<rparr>, b))
     | Inr _ \<Rightarrow> (Inl (transport_error ''notify requires a notification envelope''), t, b))"

text \<open>The dispatcher of a notification has settled; its result is dropped (\<open>void\<close>).\<close>

definition mem_note_done :: "nat \<Rightarrow> thrown + jsval option \<Rightarrow> 'd mem \<Rightarrow> 'd mem" where
  "mem_note_done i out = (\<lambda>(t, b).
     if i < length (mt_notes t)
     then (t\<lparr>mt_notes := remove_nth i (mt_notes t),
             mt_unhandled := mt_unhandled t @ (case out of Inl e \<Rightarrow> [e] | Inr _ \<Rightarrow> [])\<rparr>, b)
     else (t, b))"

definition mem_start :: "'d mem \<Rightarrow> (thrown + unit) \<times> 'd mem" where
  "mem_start = (\<lambda>(t, b).
     if mt_state t = Stopped then (Inl (transport_error ''transport has been stopped''), t, b)
     else (Inr (), t\<lparr>mt_state := Started\<rparr>, b))"

definition mem_stop :: "'d mem \<Rightarrow> (thrown + unit) \<times> 'd mem" where
  "mem_stop = (\<lambda>(t, b).
     (Inr (),
      t\<lparr>mt_state := Stopped, mt_calls := reject_all (transport_error ''transport stopped'') (mt_calls t),
        mt_services := []\<rparr>,
      fold bus_unregister (mt_services t) b))"

interpretation mem_tr: transport_guard "\<lambda>(t, b). mt_state t" mem_start mem_stop mem_send mem_notify
  by unfold_locales
    (auto simp: mem_start_def mem_stop_def mem_send_def mem_notify_def Let_def
      split: if_splits sum.splits envelope.splits option.splits prod.splits)

section \<open>Runs\<close>

datatype 'd mem_event =
    EvRegister string 'd
  | EvStart
  | EvStop
  | EvSend jsval
  | EvTaskDone nat "thrown + jsval option"
  | EvTimeout nat
  | EvNotify jsval
  | EvNoteDone nat "thrown + jsval option"

fun mem_exec :: "'d mem_event \<Rightarrow> 'd mem \<Rightarrow> 'd mem" where
  "mem_exec (EvRegister n d) s = snd (mem_register n d s)"
| "mem_exec EvStart s = snd (mem_start s)"
| "mem_exec EvStop s = snd (mem_stop s)"
| "mem_exec (EvSend env) s = snd (mem_send env s)"
| "mem_exec (EvTaskDone i out) s = mem_task_done i out s"
| "mem_exec (EvTimeout h) s = mem_timeout h s"
| "mem_exec (EvNotify env) s = snd (mem_notify env s)"
| "mem_exec (EvNoteDone i out) s = mem_note_done i out s"

definition mem_run :: "'d mem_event list \<Rightarrow> 'd mem \<Rightarrow> 'd mem" where
  "mem_run es s = fold mem_exec es s"

lemma mem_run_append: "mem_run (es @ fs) s = mem_run fs (mem_run es s)"
  by (simp add: mem_run_def)

text \<open>The ids of the client core are strings.\<close>

definition string_id :: "jsval \<Rightarrow> bool" where
  "string_id env \<longleftrightarrow>
     (case parse_envelope env of Inr (Request r) \<Rightarrow> js_typeof (rq_id r) = ''string'' | _ \<Rightarrow> True)"

fun event_string_id :: "'d mem_event \<Rightarrow> bool" where
  "event_string_id (EvSend env) = string_id env"
| "event_string_id _ = True"

lemma pending_key_string: "js_typeof (rq_id r) = ''string'' \<Longrightarrow> mem_timer_key r = pending_key r"
  by (cases "rq_id r") (auto simp: pending_key_def mem_timer_key_def)

text \<open>What one event does to the table of calls.\<close>

fun finish_op :: "request_env \<Rightarrow> thrown + jsval option \<Rightarrow> call_op" where
  "finish_op r (Inr None) =
     TakeOp (pending_key r) (Inl (transport_error ''dispatcher returned null for a request''))"
| "finish_op r (Inr (Some reply)) = TakeOp (pending_key r) (Inr reply)"
| "finish_op r (Inl e) =
     TakeOp (pending_key r) (Inl (new_transport_error ''dispatcher threw'' (thrown_value e)))"

fun mem_ops :: "'d mem_event \<Rightarrow> 'd mem \<Rightarrow> call_op list" where
  "mem_ops (EvSend env) (t, b) =
     (if mt_state t \<noteq> Started then []
      else case parse_envelope env of
        Inr (Request r) \<Rightarrow>
          (if bus_lookup b (rq_service r) = None then []
           else [OpenOp (pending_key r) (mem_timer_key r)])
      | _ \<Rightarrow> [])"
| "mem_ops (EvTaskDone i out) (t, b) =
     (if i < length (mt_tasks t) then [finish_op (fst (mt_tasks t ! i)) out] else [])"
| "mem_ops (EvTimeout h) s = [TimeoutOp h]"
| "mem_ops EvStop s = [RejectOp (transport_error ''transport stopped'')]"
| "mem_ops _ s = []"

lemma mem_exec_ops:
  "mt_calls (fst (mem_exec e s)) = fold apply_op (mem_ops e s) (mt_calls (fst s))"
proof (cases s)
  case (Pair t b)
  show ?thesis
  proof (cases e)
    case (EvTaskDone i out)
    then show ?thesis
      by (auto simp: Pair mem_task_done_def finish_send_def split: sum.split option.split)
  qed (auto simp: Pair mem_register_def mem_start_def mem_stop_def mem_send_def mem_timeout_def
      mem_notify_def mem_note_done_def split: sum.splits option.splits envelope.splits prod.splits)
qed

lemma mem_keyed_ops: "event_string_id e \<Longrightarrow> list_all op_keyed (mem_ops e s)"
proof (cases s)
  case (Pair t b)
  assume a: "event_string_id e"
  show ?thesis
  proof (cases e)
    case (EvSend env)
    with a show ?thesis
      by (auto simp: Pair string_id_def pending_key_string split: sum.splits envelope.splits)
  next
    case (EvTaskDone i out)
    then show ?thesis by (cases out; cases "projr out") (auto simp: Pair)
  qed (auto simp: Pair)
qed

interpretation mem_cm: call_machine "\<lambda>s. mt_calls (fst s)" mem_exec mem_ops event_string_id
  by unfold_locales (simp_all add: mem_exec_ops mem_keyed_ops)

lemma calls_inv_new_mem: "calls_inv (mt_calls (fst (new_mem, b)))"
  by (simp add: new_mem_def inv_intro)

lemma all_pending_new_mem: "all_pending (mt_calls (fst (new_mem, b)))"
  by (simp add: new_mem_def all_pending_init)

lemma mem_timeout_calls: "mt_calls (fst (mem_timeout h s)) = call_timeout h (mt_calls (fst s))"
  by (cases s) (simp add: mem_timeout_def)

lemma mem_stop_calls:
  "mt_calls (fst (snd (mem_stop s))) =
     reject_all (transport_error ''transport stopped'') (mt_calls (fst s))"
  by (cases s) (simp add: mem_stop_def)

lemma mem_stop_bus:
  "bus_lookup (snd (snd (mem_stop s))) n =
     (if n \<in> set (mt_services (fst s)) then None else bus_lookup (snd s) n)"
proof (cases s)
  case (Pair t b)
  have "fold bus_unregister ns b = fold (\<lambda>k m. jm_delete m k) ns b" for ns and b :: "'a bus"
    by (induction ns arbitrary: b) (simp_all add: bus_unregister_def)
  then show ?thesis by (simp add: Pair mem_stop_def bus_lookup_def jm.get_fold_del)
qed

section \<open>Properties\<close>

definition sample_env :: "jsval \<Rightarrow> jsval" where
  "sample_env i = build_request ''calc.add'' (JObj []) i"

text \<open>A run with one open call.\<close>

definition sample_run :: "unit mem_event list" where
  "sample_run = [EvRegister ''calc'' (), EvStart, EvSend (sample_env (JStr ''u1''))]"

lemma sample_parse:
  "parse_envelope (sample_env (JStr ''u1'')) = Inr (Request
     \<lparr>rq_service = ''calc'', rq_method = ''add'', rq_fullMethod = ''calc.add'', rq_params = JObj [],
      rq_id = JStr ''u1'', rq_raw = [(''jsonrpc'', JStr ''2.0''), (''method'', JStr ''calc.add''),
        (''params'', JObj []), (''id'', JStr ''u1'')]\<rparr>)"
  by code_simp

lemma sample_run_calls:
  "list_all event_string_id sample_run"
  "promises (mt_calls (fst (mem_run sample_run (new_mem, [])))) = [None]"
  "fresh_ops (run_ops mem_exec mem_ops sample_run (new_mem, [])) no_calls"
  by code_simp+

text \<open>
  C19: In every run of the memory transport in which the requests have string ids, as those of
  the client core do, a call that has not been settled has an armed timer, and that timer
  ends this call with a timeout error and touches no other.
\<close>

theorem memory_call_always_ends:
  assumes "list_all event_string_id es"
    and "h < length (promises (mt_calls (fst (mem_run es (new_mem, b)))))"
    and "settled (mt_calls (fst (mem_run es (new_mem, b)))) h = None"
  shows "jm_get (timers (mt_calls (fst (mem_run es (new_mem, b))))) h \<noteq> None
    \<and> settled (mt_calls (fst (mem_timeout h (mem_run es (new_mem, b))))) h'
      = (if h' = h then Some (Inl (transport_error ''call timeout''))
         else settled (mt_calls (fst (mem_run es (new_mem, b)))) h')"
  using mem_cm.run_timer [OF calls_inv_new_mem assms(1), of h b] assms(2,3)
  by (simp add: mem_run_def mem_timeout_calls)

theorem memory_call_always_ends_witness:
  "settled (mt_calls (fst (mem_timeout 0 (mem_run sample_run (new_mem, []))))) 0
     = Some (Inl (transport_error ''call timeout''))"
  using memory_call_always_ends [OF sample_run_calls(1), of 0 "[]" 0] sample_run_calls(2)
  by (simp add: settled_def)

text \<open>
  C20: When the requests of a run have string ids and none is sent under an id that is still
  pending, \<open>stop\<close> leaves no call open: each has been settled before or is rejected now.
\<close>

theorem memory_stop_settles_all:
  assumes "list_all event_string_id es"
    and "fresh_ops (run_ops mem_exec mem_ops es (new_mem, b)) no_calls"
    and "h < length (promises (mt_calls (fst (mem_run es (new_mem, b)))))"
  shows "settled (mt_calls (fst (snd (mem_stop (mem_run es (new_mem, b)))))) h \<noteq> None"
  using mem_cm.run_reject_all [OF calls_inv_new_mem all_pending_new_mem assms(1)] assms(2,3)
  by (simp add: mem_stop_calls mem_run_def new_mem_def)

theorem memory_stop_settles_all_witness:
  "settled (mt_calls (fst (snd (mem_stop (mem_run sample_run (new_mem, [])))))) 0 \<noteq> None"
  using memory_stop_settles_all [OF sample_run_calls(1,3), of 0] sample_run_calls(2) by simp

text \<open>
  Once the promise of a call has an outcome, no later event changes it: not a late reply, a
  second timer, another call under the same id, nor \<open>stop\<close>.
\<close>

lemma memory_outcome_final:
  assumes "settled (mt_calls (fst (mem_run es s))) h = Some r"
  shows "settled (mt_calls (fst (mem_run (es @ fs) s))) h = Some r"
  using mem_cm.run_settled [of "mem_run es s" h r fs] assms by (simp add: mem_run_append) (simp add: mem_run_def)

text \<open>
  A request with a numeric id, which the transport accepts, leaves its entry behind when its
  timer fires: the entry is stored under the id's string and the timer deletes the number.
\<close>

lemma numeric_id_leaks:
  assumes "mt_state t = Started" "parse_envelope env = Inr (Request r)" "rq_id r = JNum k"
    and "bus_lookup b (rq_service r) = Some d"
    and "mem_send env (t, b) = (Inr (Promise h), s)"
  shows "jm_get (pending (mt_calls (fst (mem_timeout h s)))) (pending_key r) = Some h"
proof -
  obtain c where o: "open_call (pending_key r) (JNum k) (mt_calls t) = (h, c)"
    and s: "s = (t\<lparr>mt_calls := c, mt_tasks := mt_tasks t @ [(r, d)]\<rparr>, b)"
    using assms by (auto simp: mem_send_def mem_timer_key_def split: prod.splits)
  from o have c: "jm_get (pending c) (pending_key r) = Some h" "jm_get (timers c) h = Some (JNum k)"
    by (auto simp: open_call_def Let_def)
  then show ?thesis by (simp add: s mem_timeout_def call_timeout_def pending_key_def)
qed

text \<open>
  \<open>stop\<close> takes every service this transport registered off the bus and leaves the services
  of other transports there.
\<close>

lemma stop_unregisters_own_services:
  assumes "fst (mem_register n d s) = Inr ()"
  shows "bus_lookup (snd (snd (mem_stop (snd (mem_register n d s))))) n = None"
    and "m \<noteq> n \<Longrightarrow> m \<notin> set (mt_services (fst s)) \<Longrightarrow>
      bus_lookup (snd (snd (mem_stop (snd (mem_register n d s))))) m = bus_lookup (snd s) m"
proof -
  obtain t b where s: "s = (t, b)" by (cases s)
  with assms have "\<not> jm_has b n"
    by (simp add: mem_register_def bus_register_def split: if_split_asm)
  then have r: "snd (mem_register n d s)
      = (t\<lparr>mt_services := List.insert n (mt_services t)\<rparr>, jm_set b n d)"
    by (simp add: s mem_register_def bus_register_def)
  show "bus_lookup (snd (snd (mem_stop (snd (mem_register n d s))))) n = None"
    by (simp add: r mem_stop_bus)
  show "bus_lookup (snd (snd (mem_stop (snd (mem_register n d s))))) m = bus_lookup (snd s) m"
    if "m \<noteq> n" "m \<notin> set (mt_services (fst s))"
    using that unfolding r mem_stop_bus by (simp add: s bus_lookup_def)
qed

end
