(* ===== verification/Json.thy ===== *)
theory Json
  imports JsValue
begin

text \<open>
  \<open>JSON.stringify\<close> and \<open>JSON.parse\<close> of the language's library, as far as the Redis adapter
  and the manifest writer use them. Numerals with a fraction or an exponent and escapes of
  code units above 255 lie outside the value model, and the parser gives no value for
  them. The parser is recursive descent with fuel; the length of the text plus one is
  always enough, which the round trip shows. The pair of functions is the codec the
  transports send through: the locale \<open>wire_codec\<close> states what they rely on.
\<close>

section \<open>\<open>JSON.stringify\<close>\<close>

definition hex_digit :: "nat \<Rightarrow> char" where
  "hex_digit n = (if n < 10 then char_of (48 + n) else char_of (87 + n))"

definition quote_char :: "char \<Rightarrow> string" where
  "quote_char c =
     (if c = CHR 0x22 then [CHR 0x5C, CHR 0x22]
      else if c = CHR 0x5C then [CHR 0x5C, CHR 0x5C]
      else if c = CHR 0x08 then [CHR 0x5C, CHR ''b'']
      else if c = CHR 0x0C then [CHR 0x5C, CHR ''f'']
      else if c = CHR 0x0A then [CHR 0x5C, CHR ''n'']
      else if c = CHR 0x0D then [CHR 0x5C, CHR ''r'']
      else if c = CHR 0x09 then [CHR 0x5C, CHR ''t'']
      else if code c < 32 then
        [CHR 0x5C, CHR ''u'', CHR ''0'', CHR ''0'', hex_digit (code c div 16), hex_digit (code c mod 16)]
      else [c])"

definition json_quote :: "string \<Rightarrow> string" where
  "json_quote s = CHR 0x22 # concat (map quote_char s) @ [CHR 0x22]"

text \<open>Inside an array an \<open>undefined\<close> prints as null; in an object its property is left out.\<close>

fun json_text :: "jsval \<Rightarrow> string" where
  "json_text JUndef = ''null''"
| "json_text JNull = ''null''"
| "json_text (JBool b) = (if b then ''true'' else ''false'')"
| "json_text (JNum n) = int_digits n"
| "json_text (JStr s) = json_quote s"
| "json_text (JArr vs) = ''['' @ js_join '','' (map json_text vs) @ '']''"
| "json_text (JObj ps) =
     ''{'' @ js_join '','' (map (\<lambda>(k, v). json_quote k @ '':'' @ json_text v)
               (filter (\<lambda>p. snd p \<noteq> JUndef) ps)) @ ''}''"

definition json_stringify :: "jsval \<Rightarrow> string option" where
  "json_stringify v = (if v = JUndef then None else Some (json_text v))"

section \<open>\<open>JSON.parse\<close>\<close>

definition is_ws :: "char \<Rightarrow> bool" where
  "is_ws c \<longleftrightarrow> c = CHR '' '' \<or> c = CHR 0x09 \<or> c = CHR 0x0A \<or> c = CHR 0x0D"

definition parse_ws :: "string \<Rightarrow> string" where
  "parse_ws s = dropWhile is_ws s"

definition hex_val :: "char \<Rightarrow> nat option" where
  "hex_val c =
     (if is_digit c then Some (code c - 48)
      else if 97 \<le> code c \<and> code c \<le> 102 then Some (code c - 87)
      else if 65 \<le> code c \<and> code c \<le> 70 then Some (code c - 55)
      else None)"

definition parse_hex4 :: "string \<Rightarrow> (char \<times> string) option" where
  "parse_hex4 s =
     (case s of a # b # c # d # r \<Rightarrow>
        (case (hex_val a, hex_val b, hex_val c, hex_val d) of
           (Some w, Some x, Some y, Some z) \<Rightarrow>
             (if w = 0 \<and> x = 0 then Some (char_of (16 * y + z), r) else None)
         | _ \<Rightarrow> None)
      | _ \<Rightarrow> None)"

definition parse_escape :: "char \<Rightarrow> char option" where
  "parse_escape e =
     (if e = CHR 0x22 \<or> e = CHR 0x5C \<or> e = CHR ''/'' then Some e
      else if e = CHR ''b'' then Some (CHR 0x08)
      else if e = CHR ''f'' then Some (CHR 0x0C)
      else if e = CHR ''n'' then Some (CHR 0x0A)
      else if e = CHR ''r'' then Some (CHR 0x0D)
      else if e = CHR ''t'' then Some (CHR 0x09)
      else None)"

text \<open>The characters of a string literal after its opening quote, with fuel.\<close>

fun parse_chars :: "nat \<Rightarrow> string \<Rightarrow> (string \<times> string) option" where
  "parse_chars 0 s = None"
| "parse_chars (Suc n) [] = None"
| "parse_chars (Suc n) (c # cs) =
     (if c = CHR 0x22 then Some ([], cs)
      else if c = CHR 0x5C then
        (case cs of
           [] \<Rightarrow> None
         | e # r \<Rightarrow>
           (case (if e = CHR ''u'' then parse_hex4 r
                  else map_option (\<lambda>d. (d, r)) (parse_escape e)) of
              None \<Rightarrow> None
            | Some (d, r') \<Rightarrow> map_option (\<lambda>(s, r''). (d # s, r'')) (parse_chars n r')))
      else if code c < 32 then None
      else map_option (\<lambda>(s, r). (c # s, r)) (parse_chars n cs))"

definition parse_digits :: "string \<Rightarrow> (nat \<times> string) option" where
  "parse_digits s =
     (let ds = takeWhile is_digit s; r = dropWhile is_digit s in
      if ds = [] \<or> (hd ds = CHR ''0'' \<and> tl ds \<noteq> [])
         \<or> (r \<noteq> [] \<and> hd r \<in> {CHR ''.'', CHR ''e'', CHR ''E''})
      then None else Some (digits_val ds, r))"

definition parse_number :: "string \<Rightarrow> (jsval \<times> string) option" where
  "parse_number s =
     (if s \<noteq> [] \<and> hd s = CHR ''-''
      then map_option (\<lambda>(n, r). (JNum (- int n), r)) (parse_digits (tl s))
      else map_option (\<lambda>(n, r). (JNum (int n), r)) (parse_digits s))"

definition parse_word :: "string \<Rightarrow> jsval \<Rightarrow> string \<Rightarrow> (jsval \<times> string) option" where
  "parse_word w v s =
     (if take (length w) s = w then Some (v, drop (length w) s) else None)"

text \<open>After the white space, the next character decides.\<close>

definition next_char :: "string \<Rightarrow> (char \<times> string) option" where
  "next_char s = (case parse_ws s of [] \<Rightarrow> None | c # r \<Rightarrow> Some (c, r))"

fun parse_value :: "nat \<Rightarrow> string \<Rightarrow> (jsval \<times> string) option"
  and parse_elems :: "nat \<Rightarrow> string \<Rightarrow> jsval list \<Rightarrow> (jsval \<times> string) option"
  and parse_members :: "nat \<Rightarrow> string \<Rightarrow> js_object \<Rightarrow> (jsval \<times> string) option" where
  "parse_value 0 s = None"
| "parse_value (Suc n) s =
     (case next_char s of
        None \<Rightarrow> None
      | Some (c, cs) \<Rightarrow>
        if c = CHR ''{'' then
          (case next_char cs of
             None \<Rightarrow> None
           | Some (d, r) \<Rightarrow> if d = CHR ''}'' then Some (JObj [], r) else parse_members n cs [])
        else if c = CHR ''['' then
          (case next_char cs of
             None \<Rightarrow> None
           | Some (d, r) \<Rightarrow> if d = CHR '']'' then Some (JArr [], r) else parse_elems n cs [])
        else if c = CHR 0x22 then
          map_option (\<lambda>(s, r). (JStr s, r)) (parse_chars (Suc (length cs)) cs)
        else if c = CHR ''t'' then parse_word ''true'' (JBool True) (c # cs)
        else if c = CHR ''f'' then parse_word ''false'' (JBool False) (c # cs)
        else if c = CHR ''n'' then parse_word ''null'' JNull (c # cs)
        else parse_number (c # cs))"
| "parse_elems 0 s acc = None"
| "parse_elems (Suc n) s acc =
     (case parse_value n s of
        None \<Rightarrow> None
      | Some (v, r) \<Rightarrow>
        (case next_char r of
           None \<Rightarrow> None
         | Some (d, r') \<Rightarrow>
           if d = CHR '','' then parse_elems n r' (acc @ [v])
           else if d = CHR '']'' then Some (JArr (acc @ [v]), r')
           else None))"
| "parse_members 0 s acc = None"
| "parse_members (Suc n) s acc =
     (case next_char s of
        None \<Rightarrow> None
      | Some (q, s1) \<Rightarrow>
        if q \<noteq> CHR 0x22 then None
        else (case parse_chars (Suc (length s1)) s1 of
          None \<Rightarrow> None
        | Some (k, s2) \<Rightarrow>
          (case next_char s2 of
             None \<Rightarrow> None
           | Some (d, s3) \<Rightarrow>
             if d \<noteq> CHR '':'' then None
             else (case parse_value n s3 of
               None \<Rightarrow> None
             | Some (v, s4) \<Rightarrow>
               (case next_char s4 of
                  None \<Rightarrow> None
                | Some (e, s5) \<Rightarrow>
                  if e = CHR '','' then parse_members n s5 (jm_set acc k v)
                  else if e = CHR ''}'' then Some (JObj (jm_set acc k v), s5)
                  else None)))))"

definition syntax_error :: thrown where
  "syntax_error = Err \<lparr>err_kind = KOther, err_name = ''SyntaxError'',
     err_message = ''Unexpected token in JSON'', err_extra = []\<rparr>"

definition json_parse :: "string \<Rightarrow> thrown + jsval" where
  "json_parse s =
     (case parse_value (Suc (length s)) s of
        Some (v, r) \<Rightarrow> if parse_ws r = [] then Inr v else Inl syntax_error
      | None \<Rightarrow> Inl syntax_error)"

section \<open>The round trip\<close>

text \<open>
  What survives the trip: an \<open>undefined\<close> element becomes null and an \<open>undefined\<close> property
  disappears. A value can make it when no object in it has a key twice, which holds for
  every object there is.
\<close>

fun json_norm :: "jsval \<Rightarrow> jsval" where
  "json_norm (JArr vs) = JArr (map json_norm vs)"
| "json_norm (JObj ps) =
     JObj (map (\<lambda>(k, v). (k, json_norm v)) (filter (\<lambda>p. snd p \<noteq> JUndef) ps))"
| "json_norm JUndef = JNull"
| "json_norm v = v"

fun json_ok :: "jsval \<Rightarrow> bool" where
  "json_ok (JArr vs) = list_all json_ok vs"
| "json_ok (JObj ps) = (distinct (map fst ps) \<and> list_all (\<lambda>(k, v). json_ok v) ps)"
| "json_ok _ = True"

lemma is_digit_ne:
  assumes "is_digit c"
  shows "\<not> is_ws c" "c \<noteq> CHR ''{''" "c \<noteq> CHR ''[''" "c \<noteq> CHR 0x22" "c \<noteq> CHR ''t''"
    "c \<noteq> CHR ''f''" "c \<noteq> CHR ''n''" "c \<noteq> CHR ''-''" "c \<noteq> CHR '']''" "c \<noteq> CHR ''}''"
  using assms by (auto simp: char_simps is_ws_def)

lemma next_char_skip [simp]: "\<not> is_ws c \<Longrightarrow> next_char (c # s) = Some (c, s)"
  by (simp add: next_char_def parse_ws_def)

lemma not_ws [simp]:
  "\<not> is_ws (CHR ''{'')" "\<not> is_ws (CHR ''}'')" "\<not> is_ws (CHR ''['')" "\<not> is_ws (CHR '']'')"
  "\<not> is_ws (CHR 0x22)" "\<not> is_ws (CHR '','')" "\<not> is_ws (CHR '':'')" "\<not> is_ws (CHR ''t'')"
  "\<not> is_ws (CHR ''f'')" "\<not> is_ws (CHR ''n'')" "\<not> is_ws (CHR ''-'')"
  by (simp_all add: is_ws_def)

subsection \<open>Strings\<close>

lemma hex_val_digit: "k < 16 \<Longrightarrow> hex_val (hex_digit k) = Some k"
  by (simp add: hex_digit_def hex_val_def is_digit_def)

lemma hex_val_zero: "hex_val (CHR ''0'') = Some 0"
  by (simp add: hex_val_def char_simps)

lemma parse_hex4_char: "parse_hex4 (CHR ''0'' # CHR ''0'' # hex_digit (code c div 16)
    # hex_digit (code c mod 16) # r) = Some (c, r)"
proof -
  have "code c div 16 < 16" using code_less [of c] by (simp add: less_mult_imp_div_less)
  then show ?thesis by (simp add: parse_hex4_def hex_val_digit hex_val_zero)
qed

lemma parse_chars_quote:
  "parse_chars (Suc n) (quote_char c @ t) = map_option (\<lambda>(s, r). (c # s, r)) (parse_chars n t)"
proof (cases "code c < 32")
  case True
  then show ?thesis by (auto simp: quote_char_def parse_escape_def parse_hex4_char)
next
  case False
  then show ?thesis by (auto simp: quote_char_def parse_escape_def)
qed

lemma quote_char_ne: "quote_char c \<noteq> []"
  by (simp add: quote_char_def)

subsection \<open>Numbers\<close>

definition stop_ok :: "string \<Rightarrow> bool" where
  "stop_ok r \<longleftrightarrow> r = [] \<or> hd r = CHR '','' \<or> hd r = CHR '']'' \<or> hd r = CHR ''}'' \<or> is_ws (hd r)"

lemma nat_digits_hd: "0 < n \<Longrightarrow> hd (nat_digits n) \<noteq> CHR ''0''"
proof (induction n rule: nat_digits.induct)
  case (1 n)
  show ?case
  proof (cases "n < 10")
    case True
    have "code (digit_char n) \<noteq> code (CHR ''0'')" using True "1.prems" by (simp add: code_def [of "CHR ''0''"])
    then have "digit_char n \<noteq> CHR ''0''" by metis
    with True show ?thesis by (simp add: nat_digits.simps [of n])
  next
    case False
    with "1.IH" show ?thesis by (simp add: nat_digits.simps [of n])
  qed
qed

lemma nat_digits_0: "nat_digits 0 = ''0''"
proof -
  have "code (digit_char 0) = code (CHR ''0'')" by (simp add: code_def [of "CHR ''0''"])
  then have "digit_char 0 = CHR ''0''" by (rule code_inject [THEN iffD1])
  then show ?thesis by (simp add: nat_digits.simps [of 0])
qed

lemma parse_digits_text:
  assumes "stop_ok r"
  shows "parse_digits (nat_digits n @ r) = Some (n, r)"
proof -
  have all: "\<forall>c \<in> set (nat_digits n). is_digit c" by (simp add: nat_digits_digits)
  have stop: "r = [] \<or> \<not> is_digit (hd r) \<and> hd r \<notin> {CHR ''.'', CHR ''e'', CHR ''E''}"
    using assms by (auto simp: stop_ok_def char_simps is_ws_def)
  have tw: "takeWhile is_digit (nat_digits n @ r) = nat_digits n"
    "dropWhile is_digit (nat_digits n @ r) = r"
    using all stop by (cases r; simp)+
  have lead: "\<not> (hd (nat_digits n) = CHR ''0'' \<and> tl (nat_digits n) \<noteq> [])"
    using nat_digits_hd [of n] nat_digits_0 by (cases "n = 0") auto
  show ?thesis using stop lead by (auto simp: parse_digits_def tw Let_def)
qed

lemma nat_digits_Cons: "\<exists>c s. nat_digits n = c # s \<and> is_digit c"
  using nat_digits_ne [of n] nat_digits_digits [of _ n] by (cases "nat_digits n") auto

lemma parse_number_text:
  assumes "stop_ok r"
  shows "parse_number (int_digits i @ r) = Some (JNum i, r)"
proof (cases "i < 0")
  case True
  with assms show ?thesis by (simp add: parse_number_def int_digits_def parse_digits_text)
next
  case False
  from nat_digits_Cons [of "nat i"] obtain c s where cs: "nat_digits (nat i) = c # s" "is_digit c"
    by blast
  have "parse_number (nat_digits (nat i) @ r)
      = map_option (\<lambda>(n, r). (JNum (int n), r)) (parse_digits (nat_digits (nat i) @ r))"
    unfolding parse_number_def using is_digit_ne(8) [OF cs(2)] by (simp add: cs(1))
  with False assms show ?thesis by (simp add: int_digits_def parse_digits_text)
qed

lemma int_digits_Cons: "\<exists>c s. int_digits i = c # s \<and> (is_digit c \<or> c = CHR ''-'')"
  using nat_digits_Cons [of "nat i"] by (auto simp: int_digits_def)

lemma parse_value_number:
  assumes "stop_ok r"
  shows "parse_value (Suc n) (int_digits i @ r) = Some (JNum i, r)"
proof -
  obtain c s where cs: "int_digits i = c # s" "is_digit c \<or> c = CHR ''-''"
    using int_digits_Cons by blast
  have ws: "\<not> is_ws c" using cs(2) is_digit_ne(1) [of c] by auto
  have ne: "c \<noteq> CHR ''{''" "c \<noteq> CHR ''[''" "c \<noteq> CHR 0x22" "c \<noteq> CHR ''t''"
    "c \<noteq> CHR ''f''" "c \<noteq> CHR ''n''"
    using cs(2) is_digit_ne [of c] by blast+
  have "parse_value (Suc n) (int_digits i @ r) = parse_number (int_digits i @ r)"
    by (simp only: parse_value.simps cs(1) append_Cons next_char_skip [OF ws] option.case
        prod.case ne if_False)
  then show ?thesis by (simp add: parse_number_text assms)
qed

subsection \<open>Layouts\<close>

text \<open>
  \<open>JSON.stringify(v, null, n)\<close> breaks lines, and other writers of JSON put a space behind each
  comma and colon or escape more characters. A layout says how a character of a string is written
  and what stands behind an opening bracket and before a closing one, behind a comma, and
  behind a colon, at each depth; the compact text is the layout with nothing in these
  places. Any layout of white space reads back.
\<close>

record layout =
  ly_quote :: "char \<Rightarrow> string"
  ly_brk :: "nat \<Rightarrow> string"
  ly_sep :: "nat \<Rightarrow> string"
  ly_gap :: string

definition quote_with :: "(char \<Rightarrow> string) \<Rightarrow> string \<Rightarrow> string" where
  "quote_with q s = CHR 0x22 # concat (map q s) @ [CHR 0x22]"

definition kept :: "js_object \<Rightarrow> js_object" where
  "kept ps = filter (\<lambda>p. snd p \<noteq> JUndef) ps"

fun json_layout :: "layout \<Rightarrow> nat \<Rightarrow> jsval \<Rightarrow> string" where
  "json_layout l d (JArr vs) =
     (if vs = [] then ''[]''
      else ''['' @ ly_brk l (Suc d)
        @ js_join (CHR '','' # ly_sep l (Suc d)) (map (json_layout l (Suc d)) vs) @ ly_brk l d @ '']'')"
| "json_layout l d (JObj ps) =
     (if filter (\<lambda>p. snd p \<noteq> JUndef) ps = [] then ''{}''
      else ''{'' @ ly_brk l (Suc d)
        @ js_join (CHR '','' # ly_sep l (Suc d))
            (map (\<lambda>(k, v). quote_with (ly_quote l) k @ '':'' @ ly_gap l @ json_layout l (Suc d) v)
              (filter (\<lambda>p. snd p \<noteq> JUndef) ps)) @ ly_brk l d @ ''}'')"
| "json_layout l d (JStr s) = quote_with (ly_quote l) s"
| "json_layout l d v = json_text v"

definition member_text :: "layout \<Rightarrow> nat \<Rightarrow> string \<times> jsval \<Rightarrow> string" where
  "member_text l d = (\<lambda>(k, v). quote_with (ly_quote l) k @ '':'' @ ly_gap l @ json_layout l d v)"

lemma json_layout_obj: "json_layout l d (JObj ps) =
    (if kept ps = [] then ''{}''
     else ''{'' @ ly_brk l (Suc d)
       @ js_join (CHR '','' # ly_sep l (Suc d)) (map (member_text l (Suc d)) (kept ps)) @ ly_brk l d @ ''}'')"
  by (simp add: member_text_def [abs_def] kept_def)

definition compact_layout :: layout where
  "compact_layout = \<lparr>ly_quote = quote_char, ly_brk = \<lambda>d. [], ly_sep = \<lambda>d. [], ly_gap = []\<rparr>"

lemma compact_simps [simp]:
  "ly_quote compact_layout = quote_char" "ly_brk compact_layout = (\<lambda>d. [])"
  "ly_sep compact_layout = (\<lambda>d. [])" "ly_gap compact_layout = []"
  by (simp_all add: compact_layout_def)

lemma quote_with_json: "quote_with quote_char = json_quote"
  by (rule ext) (simp add: quote_with_def json_quote_def)

lemma json_text_layout: "json_text v = json_layout compact_layout d v"
proof (induction v arbitrary: d)
  case (JArr vs)
  then have m: "map json_text vs = map (json_layout compact_layout (Suc d)) vs" by simp
  show ?case unfolding json_text.simps json_layout.simps m by simp
next
  case (JObj ps)
  then have m: "map (\<lambda>(k, v). json_quote k @ '':'' @ json_text v) (filter (\<lambda>p. snd p \<noteq> JUndef) ps)
      = map (\<lambda>(k, v). json_quote k @ '':'' @ json_layout compact_layout (Suc d) v)
          (filter (\<lambda>p. snd p \<noteq> JUndef) ps)"
    by (fastforce intro!: map_cong)
  show ?case unfolding json_text.simps json_layout.simps m by (simp add: quote_with_json)
qed (simp_all add: quote_with_json)

text \<open>\<open>JSON.stringify(v, null, 2)\<close>\<close>

definition line_break :: "nat \<Rightarrow> string" where
  "line_break d = CHR 0x0A # replicate (2 * d) (CHR '' '')"

definition pretty_layout :: layout where
  "pretty_layout = \<lparr>ly_quote = quote_char, ly_brk = line_break, ly_sep = line_break, ly_gap = '' ''\<rparr>"

definition json_pretty :: "jsval \<Rightarrow> string" where
  "json_pretty v = json_layout pretty_layout 0 v"

subsection \<open>Arrays and objects\<close>

lemma stop_ok_simps [simp]:
  "stop_ok []" "stop_ok (CHR '','' # r)" "stop_ok (CHR '']'' # r)" "stop_ok (CHR ''}'' # r)"
  by (simp_all add: stop_ok_def)

lemma stop_ok_ws: "list_all is_ws b \<Longrightarrow> stop_ok s \<Longrightarrow> stop_ok (b @ s)"
  by (cases b) (auto simp: stop_ok_def)

lemma next_char_ws: "list_all is_ws b \<Longrightarrow> next_char (b @ s) = next_char s"
  by (induction b) (auto simp: next_char_def parse_ws_def)

lemma parse_value_ws: "list_all is_ws b \<Longrightarrow> parse_value n (b @ s) = parse_value n s"
  by (cases n) (simp_all add: next_char_ws)

lemma parse_elems_ws: "list_all is_ws b \<Longrightarrow> parse_elems n (b @ s) acc = parse_elems n s acc"
  by (cases n) (simp_all add: parse_value_ws)

lemma parse_members_ws: "list_all is_ws b \<Longrightarrow> parse_members n (b @ s) acc = parse_members n s acc"
  by (cases n) (simp_all add: next_char_ws)

lemma json_layout_first: "\<exists>c s. json_layout l d v = c # s \<and> \<not> is_ws c \<and> c \<noteq> CHR '']''"
proof (cases v)
  case (JNum i)
  then show ?thesis using int_digits_Cons [of i] is_digit_ne by auto
qed (auto simp: quote_with_def)

lemma json_layout_length: "1 \<le> length (json_layout l d v)"
  using json_layout_first [of l d v] by auto

lemma jm_set_fresh: "k \<notin> set (map fst acc) \<Longrightarrow> jm_set acc k v = acc @ [(k, v)]"
  by (induction acc k v rule: jm_set.induct) auto

lemma member_text_length: "length (json_layout l d v) + 2 \<le> length (member_text l d (k, v))"
  by (simp add: member_text_def quote_with_def)

lemma js_join_Cons2: "ts \<noteq> [] \<Longrightarrow> js_join sep (t # ts) = t @ sep @ js_join sep ts"
  by (cases ts) auto

locale white_layout =
  fixes l :: layout
  assumes ws_brk: "list_all is_ws (ly_brk l d)" and ws_sep: "list_all is_ws (ly_sep l d)"
    and ws_gap: "list_all is_ws (ly_gap l)"
    and quote: "parse_chars (Suc n) (ly_quote l c @ t) = map_option (\<lambda>(s, r). (c # s, r)) (parse_chars n t)"
    and quote_ne: "ly_quote l c \<noteq> []"
begin

lemmas ws = ws_brk ws_sep ws_gap

lemma parse_chars_text:
  "length s < n \<Longrightarrow> parse_chars n (concat (map (ly_quote l) s) @ CHR 0x22 # r) = Some (s, r)"
proof (induction s arbitrary: n)
  case Nil
  then show ?case by (cases n) auto
next
  case (Cons c s)
  then obtain k where "n = Suc k" by (cases n) auto
  with Cons show ?case by (simp add: quote)
qed

lemma length_quote: "length s \<le> length (concat (map (ly_quote l) s))"
proof (induction s)
  case (Cons c s)
  then show ?case using quote_ne [of c] by (cases "ly_quote l c") auto
qed simp

lemma parse_chars_full:
  "parse_chars (Suc (length (concat (map (ly_quote l) s) @ CHR 0x22 # r)))
     (concat (map (ly_quote l) s) @ CHR 0x22 # r) = Some (s, r)"
  by (rule parse_chars_text) (use length_quote [of s] in simp)

definition reads_back :: "jsval \<Rightarrow> bool" where
  "reads_back v \<longleftrightarrow> (\<forall>d n r. stop_ok r \<longrightarrow> length (json_layout l d v) \<le> n \<longrightarrow>
     parse_value n (json_layout l d v @ r) = Some (json_norm v, r))"

lemma reads_backD:
  "reads_back v \<Longrightarrow> stop_ok r \<Longrightarrow> length (json_layout l d v) \<le> n \<Longrightarrow>
     parse_value n (json_layout l d v @ r) = Some (json_norm v, r)"
  by (simp add: reads_back_def)

lemma parse_elems_text:
  assumes "vs \<noteq> []" "\<forall>v \<in> set vs. reads_back v"
    and "length (js_join (CHR '','' # ly_sep l d) (map (json_layout l d) vs)) < n"
  shows "parse_elems n (js_join (CHR '','' # ly_sep l d) (map (json_layout l d) vs)
      @ ly_brk l e @ CHR '']'' # r) acc = Some (JArr (acc @ map json_norm vs), r)"
  using assms
proof (induction vs arbitrary: n acc)
  case Nil
  then show ?case by simp
next
  case (Cons v vs)
  then obtain k where n: "n = Suc k" by (cases n) auto
  show ?case
  proof (cases vs)
    case Nil
    let ?r = "ly_brk l e @ CHR '']'' # r"
    have "parse_value k (json_layout l d v @ ?r) = Some (json_norm v, ?r)"
      using Cons.prems n Nil by (intro reads_backD) (auto simp: stop_ok_ws ws)
    then show ?thesis by (simp add: Nil n next_char_ws ws)
  next
    case (Cons w ws)
    let ?rest = "js_join (CHR '','' # ly_sep l d) (map (json_layout l d) vs) @ ly_brk l e @ CHR '']'' # r"
    have len: "length (json_layout l d v) \<le> k"
      "length (js_join (CHR '','' # ly_sep l d) (map (json_layout l d) vs)) < k"
      using Cons.prems(3) n json_layout_length [of l d v] by (simp_all add: Cons)
    have v: "parse_value k (json_layout l d v @ CHR '','' # ly_sep l d @ ?rest)
        = Some (json_norm v, CHR '','' # ly_sep l d @ ?rest)"
      using Cons.prems(2) len(1) by (intro reads_backD) auto
    have "parse_elems k ?rest (acc @ [json_norm v]) = Some (JArr ((acc @ [json_norm v]) @ map json_norm vs), r)"
      using Cons.prems(2) len(2) Cons by (intro Cons.IH) auto
    with v show ?thesis by (simp add: n Cons parse_elems_ws ws)
  qed
qed

text \<open>One member, up to the comma or brace behind it.\<close>

lemma parse_members_step:
  assumes "reads_back v" "length (json_layout l d v) \<le> n" "k \<notin> set (map fst acc)"
    and b: "list_all is_ws b" and t: "t = CHR '','' # s \<or> t = CHR ''}'' # s"
  shows "parse_members (Suc n) (member_text l d (k, v) @ b @ t) acc =
    (if hd t = CHR '','' then parse_members n s (acc @ [(k, json_norm v)])
     else Some (JObj (acc @ [(k, json_norm v)]), s))"
proof -
  let ?t = "CHR '':'' # ly_gap l @ json_layout l d v @ b @ t"
  have "stop_ok (b @ t)" using t by (auto intro: stop_ok_ws b)
  then have v: "parse_value n (json_layout l d v @ b @ t) = Some (json_norm v, b @ t)"
    using assms(1,2) by (intro reads_backD)
  have m: "member_text l d (k, v) @ b @ t
      = CHR 0x22 # concat (map (ly_quote l) k) @ CHR 0x22 # ?t"
    by (simp add: member_text_def quote_with_def)
  show ?thesis
    unfolding m parse_members.simps
    using t assms(3) length_quote [of k]
    by (auto simp: parse_chars_text next_char_ws parse_value_ws b ws v jm_set_fresh)
qed

lemma parse_members_text:
  assumes "ps \<noteq> []" "\<forall>p \<in> set ps. reads_back (snd p)" "distinct (map fst acc @ map fst ps)"
    and "length (js_join (CHR '','' # ly_sep l d) (map (member_text l d) ps)) < n"
  shows "parse_members n (js_join (CHR '','' # ly_sep l d) (map (member_text l d) ps)
      @ ly_brk l e @ CHR ''}'' # r) acc
    = Some (JObj (acc @ map (\<lambda>(k, v). (k, json_norm v)) ps), r)"
  using assms
proof (induction ps arbitrary: n acc)
  case Nil
  then show ?case by simp
next
  case (Cons p ps)
  obtain k v where p: "p = (k, v)" by (cases p)
  from Cons obtain m where n: "n = Suc m" by (cases n) auto
  have fresh: "k \<notin> set (map fst acc)" and rb: "reads_back v" using Cons.prems(2,3) p by auto
  show ?case
  proof (cases ps)
    case Nil
    have len: "length (json_layout l d v) \<le> m"
      using Cons.prems(4) n p Nil member_text_length [of l d v k] by simp
    show ?thesis
      using parse_members_step [OF rb len fresh ws_brk, of "CHR ''}'' # r" r e] by (simp add: Nil n p)
  next
    case (Cons q qs)
    let ?rest = "js_join (CHR '','' # ly_sep l d) (map (member_text l d) ps) @ ly_brk l e @ CHR ''}'' # r"
    have len: "length (json_layout l d v) \<le> m"
      "length (js_join (CHR '','' # ly_sep l d) (map (member_text l d) ps)) < m"
      using Cons.prems(4) n p member_text_length [of l d v k] by (simp_all add: Cons)
    have "parse_members m ?rest (acc @ [(k, json_norm v)])
        = Some (JObj ((acc @ [(k, json_norm v)]) @ map (\<lambda>(k, v). (k, json_norm v)) ps), r)"
      using Cons.prems(2,3) len(2) p Cons by (intro Cons.IH) auto
    then show ?thesis
      using parse_members_step [OF rb len(1) fresh, of "[]" "CHR '','' # ly_sep l d @ ?rest" "ly_sep l d @ ?rest"]
      by (simp add: Cons n p parse_members_ws ws)
  qed
qed

lemma reads_back_arr:
  assumes "\<forall>v \<in> set vs. reads_back v"
  shows "reads_back (JArr vs)"
  unfolding reads_back_def
proof (intro allI impI)
  fix d n r
  assume len: "length (json_layout l d (JArr vs)) \<le> n"
  then obtain m where n: "n = Suc m" using json_layout_length [of l d "JArr vs"] by (cases n) auto
  show "parse_value n (json_layout l d (JArr vs) @ r) = Some (json_norm (JArr vs), r)"
  proof (cases vs)
    case Nil
    then show ?thesis by (simp add: n)
  next
    case (Cons w ws)
    let ?t = "js_join (CHR '','' # ly_sep l (Suc d)) (map (json_layout l (Suc d)) vs)"
    have "parse_elems m (?t @ ly_brk l d @ CHR '']'' # r) [] = Some (JArr ([] @ map json_norm vs), r)"
      using assms len n Cons by (intro parse_elems_text) auto
    moreover obtain c s where "?t = c # s" "\<not> is_ws c" "c \<noteq> CHR '']''"
      using json_layout_first [of l "Suc d" w] by (cases ws) (auto simp: Cons)
    ultimately show ?thesis by (simp add: n Cons next_char_ws parse_elems_ws ws_brk)
  qed
qed

lemma reads_back_obj:
  assumes "\<forall>p \<in> set (kept ps). reads_back (snd p)" "distinct (map fst ps)"
  shows "reads_back (JObj ps)"
  unfolding reads_back_def
proof (intro allI impI)
  fix d n r
  assume len: "length (json_layout l d (JObj ps)) \<le> n"
  then obtain m where n: "n = Suc m" using json_layout_length [of l d "JObj ps"] by (cases n) auto
  have norm: "json_norm (JObj ps) = JObj (map (\<lambda>(k, v). (k, json_norm v)) (kept ps))"
    by (simp add: kept_def)
  show "parse_value n (json_layout l d (JObj ps) @ r) = Some (json_norm (JObj ps), r)"
  proof (cases "kept ps")
    case Nil
    then show ?thesis by (simp add: n json_layout_obj norm del: json_layout.simps json_norm.simps)
  next
    case (Cons q qs)
    let ?t = "js_join (CHR '','' # ly_sep l (Suc d)) (map (member_text l (Suc d)) (kept ps))"
    have "distinct (map fst (kept ps))" using assms(2) by (simp add: kept_def distinct_map_filter)
    then have "parse_members m (?t @ ly_brk l d @ CHR ''}'' # r) []
        = Some (JObj ([] @ map (\<lambda>(k, v). (k, json_norm v)) (kept ps)), r)"
      using assms len n Cons
      by (intro parse_members_text) (auto simp: json_layout_obj simp del: json_layout.simps)
    moreover obtain s where "?t = CHR 0x22 # s"
      by (cases q; cases qs) (auto simp: Cons member_text_def quote_with_def)
    ultimately show ?thesis
      by (simp add: n json_layout_obj norm Cons next_char_ws parse_members_ws ws_brk
          del: json_layout.simps json_norm.simps)
  qed
qed

lemma reads_back_all: "json_ok v \<Longrightarrow> reads_back v"
proof (induction v)
  case (JArr vs)
  then show ?case by (intro reads_back_arr) (auto simp: list_all_iff)
next
  case (JObj ps)
  then show ?case
    by (intro reads_back_obj) (fastforce simp: list_all_iff kept_def)+
next
  case (JNum i)
  show ?case
    unfolding reads_back_def
  proof (intro allI impI)
    fix d n r assume "stop_ok r" "length (json_layout l d (JNum i)) \<le> n"
    then show "parse_value n (json_layout l d (JNum i) @ r) = Some (json_norm (JNum i), r)"
      using json_layout_length [of l d "JNum i"]
      by (cases n) (simp_all add: parse_value_number del: parse_value.simps)
  qed
next
  case (JStr s)
  show ?case
    unfolding reads_back_def
  proof (intro allI impI)
    fix d n r assume "length (json_layout l d (JStr s)) \<le> n"
    then show "parse_value n (json_layout l d (JStr s) @ r) = Some (json_norm (JStr s), r)"
      using parse_chars_full [of s r] by (cases n) (simp_all add: quote_with_def)
  qed
qed (auto simp: reads_back_def parse_word_def gr0_conv_Suc le_Suc_eq dest!: le_Suc_ex)

text \<open>White space around the text does not matter either.\<close>

lemma layout_parse:
  assumes "json_ok v" "list_all is_ws tail"
  shows "json_parse (json_layout l d v @ tail) = Inr (json_norm v)"
proof -
  have "stop_ok tail" using assms(2) by (cases tail) (auto simp: stop_ok_def)
  then have "parse_value (Suc (length (json_layout l d v @ tail))) (json_layout l d v @ tail)
      = Some (json_norm v, tail)"
    using assms(1) by (intro reads_backD) (auto intro: reads_back_all)
  moreover have "parse_ws tail = []" using assms(2) by (simp add: parse_ws_def list_all_iff)
  ultimately show ?thesis by (simp add: json_parse_def)
qed

end

interpretation compact: white_layout compact_layout
  by unfold_locales (simp_all add: parse_chars_quote quote_char_ne)

interpretation pretty: white_layout pretty_layout
  by unfold_locales
    (simp_all add: pretty_layout_def line_break_def is_ws_def list_all_iff parse_chars_quote quote_char_ne)

lemma json_parse_text: "json_ok v \<Longrightarrow> json_parse (json_text v) = Inr (json_norm v)"
  using compact.layout_parse [of v "[]" 0] by (simp add: json_text_layout [of v 0])

lemma json_parse_pretty:
  "json_ok v \<Longrightarrow> list_all is_ws tail \<Longrightarrow> json_parse (json_pretty v @ tail) = Inr (json_norm v)"
  unfolding json_pretty_def by (rule pretty.layout_parse)

section \<open>The codec the transports rely on\<close>

locale wire_codec =
  fixes enc :: "'v \<Rightarrow> string" and dec :: "string \<Rightarrow> thrown + 'v"
    and norm :: "'v \<Rightarrow> 'v" and ok :: "'v \<Rightarrow> bool"
  assumes dec_enc: "ok v \<Longrightarrow> dec (enc v) = Inr (norm v)"
    and norm_norm: "norm (norm v) = norm v"
begin

lemma dec_enc_not_Inl: "ok v \<Longrightarrow> dec (enc v) \<noteq> Inl e"
  by (simp add: dec_enc)

lemma enc_inject_norm:
  assumes "ok v" "ok w" "enc v = enc w"
  shows "norm v = norm w"
  using dec_enc [OF assms(1)] dec_enc [OF assms(2)] assms(3) by simp

text \<open>What has made the trip once comes back unchanged from then on.\<close>

lemma dec_enc_again:
  assumes "ok v" "dec (enc v) = Inr w" "ok w"
  shows "dec (enc w) = Inr w"
  using dec_enc [OF assms(1)] dec_enc [OF assms(3)] assms(2) by (simp add: norm_norm)

end

lemma json_norm_defined: "json_norm v \<noteq> JUndef"
  by (cases v) auto

lemma json_norm_idem: "json_norm (json_norm v) = json_norm v"
proof (induction v)
  case (JObj ps)
  let ?f = "\<lambda>(k, v). (k, json_norm v)"
  have filt: "filter (\<lambda>p. snd p \<noteq> JUndef) (map ?f qs) = map ?f qs" for qs
    by (rule filter_True) (auto simp: json_norm_defined)
  have "map ?f (map ?f (filter (\<lambda>p. snd p \<noteq> JUndef) ps)) = map ?f (filter (\<lambda>p. snd p \<noteq> JUndef) ps)"
    using JObj by (fastforce simp: comp_def)
  then show ?case by (simp only: json_norm.simps filt)
qed auto

lemma json_norm_id: "json_norm v = v \<Longrightarrow> json_ok v \<Longrightarrow> json_parse (json_text v) = Inr v"
  by (simp add: json_parse_text)

interpretation json: wire_codec json_text json_parse json_norm json_ok
  by unfold_locales (simp_all add: json_parse_text json_norm_idem)

section \<open>Properties\<close>


definition sample_value :: jsval where
  "sample_value = JObj [(''a'', JArr [JNum (-12), JUndef, JStr [CHR 0x0A, CHR 0x22, CHR 0x01]]),
     (''gone'', JUndef), (''b'', JBool True)]"


end
