(* ===== verification/Keys.thy ===== *)
theory Keys
  imports Interfaces Json
begin

text \<open>
  \<open>ts/packages/over-redis/src/keys.ts\<close> and the choice of the Redis connection, which the
  constructors of both Redis transports share. The lemmas show that the names of different
  streams and consumers never collide.
\<close>

definition commandStream :: "string \<Rightarrow> string \<Rightarrow> string" where
  "commandStream keyPrefix service = keyPrefix @ '':cmds:'' @ service"

definition replyStream :: "string \<Rightarrow> string \<Rightarrow> string" where
  "replyStream keyPrefix instanceId = keyPrefix @ '':replies:'' @ instanceId"

definition consumerGroupName :: "string \<Rightarrow> string" where
  "consumerGroupName service = service"

definition consumerName :: "string \<Rightarrow> string \<Rightarrow> string" where
  "consumerName service instanceId = service @ '':'' @ instanceId"

section \<open>No collisions\<close>

definition no_colon :: "string \<Rightarrow> bool" where
  "no_colon s \<longleftrightarrow> CHR '':'' \<notin> set s"

lemma SERVICE_RE_no_colon: "SERVICE_RE s \<Longrightarrow> no_colon s"
  by (cases s) (auto simp: no_colon_def list_all_iff char_simps)

lemma first_colon:
  assumes "no_colon a" "no_colon b" "a @ CHR '':'' # x = b @ CHR '':'' # y"
  shows "a = b \<and> x = y"
  using assms
proof (induction a arbitrary: b)
  case Nil
  then show ?case by (cases b) (auto simp: no_colon_def)
next
  case (Cons c a)
  then show ?case by (cases b) (auto simp: no_colon_def)
qed

lemma last_colon:
  assumes "no_colon a" "no_colon b" "x @ CHR '':'' # a = y @ CHR '':'' # b"
  shows "a = b \<and> x = y"
proof -
  have "rev a @ CHR '':'' # rev x = rev b @ CHR '':'' # rev y"
    using arg_cong [OF assms(3), of rev] by simp
  moreover have "no_colon (rev a)" "no_colon (rev b)" using assms by (simp_all add: no_colon_def)
  ultimately show ?thesis using first_colon [of "rev a" "rev b" "rev x" "rev y"] by simp
qed

lemma command_stream_inject:
  assumes "no_colon s" "no_colon s'"
  shows "commandStream p s = commandStream p' s' \<longleftrightarrow> p = p' \<and> s = s'"
  using last_colon [OF assms, of "p @ '':cmds''" "p' @ '':cmds''"]
  by (auto simp: commandStream_def)

lemma reply_stream_inject:
  assumes "no_colon i" "no_colon i'"
  shows "replyStream p i = replyStream p' i' \<longleftrightarrow> p = p' \<and> i = i'"
  using last_colon [OF assms, of "p @ '':replies''" "p' @ '':replies''"]
  by (auto simp: replyStream_def)

lemma command_not_reply:
  assumes "no_colon s" "no_colon i"
  shows "commandStream p s \<noteq> replyStream p' i"
proof
  assume "commandStream p s = replyStream p' i"
  then have "p @ '':cmds'' = p' @ '':replies''"
    using last_colon [OF assms, of "p @ '':cmds''" "p' @ '':replies''"]
    by (simp add: commandStream_def replyStream_def)
  from arg_cong [OF this, of rev] show False by simp
qed

lemma consumer_name_inject:
  assumes "no_colon s" "no_colon s'"
  shows "consumerName s i = consumerName s' i' \<longleftrightarrow> s = s' \<and> i = i'"
  using first_colon [OF assms] by (auto simp: consumerName_def)

section \<open>Choosing the connection\<close>

text \<open>
  A connection is the one the caller gave, or one opened for a URL; the transport closes
  only the latter. The option \<open>redis\<close> is an object, so it is truthy when it is given.
\<close>

datatype redis_source = GivenRedis | OpenedRedis string

definition choose_redis ::
    "bool \<Rightarrow> string option \<Rightarrow> string option \<Rightarrow> thrown + redis_source" where
  "choose_redis redis redisUrl env_REDIS_URL =
     (if redis \<and> redisUrl \<noteq> None \<and> redisUrl \<noteq> Some []
      then Inl (transport_error ''provide either `redis` or `redisUrl`, not both'')
      else if redis then Inr GivenRedis
      else Inr (OpenedRedis (case redisUrl of Some u \<Rightarrow> u
             | None \<Rightarrow> (case env_REDIS_URL of Some u \<Rightarrow> u | None \<Rightarrow> ''redis://localhost:6379''))))"

fun owns_redis :: "redis_source \<Rightarrow> bool" where
  "owns_redis GivenRedis = False"
| "owns_redis (OpenedRedis _) = True"

lemma choose_redis_owns:
  "choose_redis redis url env = Inr src \<Longrightarrow> owns_redis src \<longleftrightarrow> \<not> redis"
  by (auto simp: choose_redis_def split: if_splits)

section \<open>What travels in a stream entry\<close>

text \<open>The value behind a field name in the flat list of an entry.\<close>

definition field_after :: "string \<Rightarrow> string list \<Rightarrow> string option" where
  "field_after name flds =
     (let i = js_index_of name flds in
      if i < 0 then None
      else if nat (i + 1) < length flds then Some (flds ! nat (i + 1)) else None)"

lemma field_after_simps [simp]:
  "field_after n (n # v # fs) = Some v"
  "m \<noteq> n \<Longrightarrow> field_after n (m # fs) = field_after n fs"
proof -
  show "field_after n (n # v # fs) = Some v" by (simp add: field_after_def)
  show "field_after n (m # fs) = field_after n fs" if "m \<noteq> n"
    using that by (simp add: field_after_def Let_def nat_add_distrib)
qed

section \<open>Commands\<close>

text \<open>
  The commands the two transports give to Redis, with their arguments as the code writes
  them. What Redis does with a command is not modelled; its answer is an event or an
  argument of the operation that waits for it. A duplicated connection has a number.
\<close>

datatype redis_cmd =
    XAdd string "string list"
  | XAck string string string
  | XGroupCreate string string
  | Del string
  | Duplicate nat
  | Disconnect nat
  | QuitDuplicate nat
  | Quit

text \<open>What a blocking read comes back with: per stream its entries, each an id and its fields.\<close>

datatype read_result =
    ReadFailed thrown
  | ReadNothing
  | ReadEntries "(string \<times> (string \<times> string list) list) list"

definition null_property :: "string \<Rightarrow> thrown" where
  "null_property p =
     type_error (''Cannot read properties of null (reading '' @ [CHR 0x27] @ p @ [CHR 0x27] @ '')'')"

section \<open>Properties\<close>



end
