(* ===== verification/RedisClient.thy ===== *)
theory RedisClient
  imports PendingCalls Keys
begin

text \<open>
  \<open>ts/packages/over-redis/src/client-transport.ts\<close>: \<open>ClientRedisTransport\<close>. The state has
  the fields of the class, the phase of the reply loop, the \<open>stop\<close> calls in progress, the
  \<open>XADD\<close>s whose answer is outstanding and the commands given to Redis so far. Everything
  that happens while an operation awaits is an event, so a run is a list of events and
  every interleaving of calls, replies, timers and stops is one of them.
\<close>

datatype loop_phase = Reading | Sleeping | Ended

datatype stop_phase = AwaitLoop | Cleanup

record redis_client =
  rc_keyPrefix :: string
  rc_instanceId :: string
  rc_ownsRedis :: bool
  rc_state :: run_state
  rc_calls :: calls
  rc_loop :: loop_phase
  rc_abort :: bool
  rc_lastId :: string
  rc_replyRedis :: bool
  rc_adds :: "jsval list"
  rc_stops :: "stop_phase list"
  rc_cmds :: "redis_cmd list"
  rc_log :: "log_record list"

definition new_redis_client :: "string \<Rightarrow> string \<Rightarrow> redis_source \<Rightarrow> redis_client" where
  "new_redis_client keyPrefix instanceId src =
     \<lparr>rc_keyPrefix = keyPrefix, rc_instanceId = instanceId, rc_ownsRedis = owns_redis src,
      rc_state = Idle, rc_calls = no_calls, rc_loop = Ended, rc_abort = False, rc_lastId = [],
      rc_replyRedis = False, rc_adds = [], rc_stops = [], rc_cmds = [], rc_log = []\<rparr>"

text \<open>
  The options; \<open>op_redis\<close> says whether a connection is given. The logger is left out: log records
  are kept in the state. The constructor may refuse its options.
\<close>

record client_options =
  op_redis :: bool
  op_redisUrl :: "string option"
  op_keyPrefix :: string
  op_instanceId :: "string option"
  op_defaultTimeoutMs :: "nat option"

definition make_redis_client ::
    "client_options \<Rightarrow> string option \<Rightarrow> string \<Rightarrow> thrown + redis_client" where
  "make_redis_client opts env_REDIS_URL uuid =
     rbind (choose_redis (op_redis opts) (op_redisUrl opts) env_REDIS_URL) (\<lambda>src.
       Inr (new_redis_client (op_keyPrefix opts)
              (case op_instanceId opts of None \<Rightarrow> uuid | Some i \<Rightarrow> i) src))"

definition rc_replyStream :: "redis_client \<Rightarrow> string" where
  "rc_replyStream s = replyStream (rc_keyPrefix s) (rc_instanceId s)"

definition rc_register :: "string \<Rightarrow> redis_client \<Rightarrow> (thrown + unit) \<times> redis_client" where
  "rc_register name s = (Inl (new_error ''client transport cannot host services''), s)"

section \<open>Sending\<close>

definition request_fields :: "jsval \<Rightarrow> string \<Rightarrow> string list" where
  "request_fields env reply_to =
     [''*'', ''type'', ''rpc'', ''envelope'', json_text env, ''reply-to'', reply_to]"

definition notification_fields :: "jsval \<Rightarrow> string list" where
  "notification_fields env = [''*'', ''type'', ''rpc'', ''envelope'', json_text env]"

definition rc_send :: "jsval \<Rightarrow> redis_client \<Rightarrow> (thrown + nat) \<times> redis_client" where
  "rc_send env s =
     (if rc_state s \<noteq> Started then (Inl (not_started (rc_state s)), s)
      else case parse_envelope env of
        Inl e \<Rightarrow> (Inl e, s)
      | Inr (Request r) \<Rightarrow>
        (let (h, c) = open_call (pending_key r) (pending_key r) (rc_calls s) in
         (Inr h, s\<lparr>rc_calls := c, rc_adds := rc_adds s @ [pending_key r],
           rc_cmds := rc_cmds s @
             [XAdd (commandStream (rc_keyPrefix s) (rq_service r))
                (request_fields env (rc_replyStream s))]\<rparr>))
      | Inr _ \<Rightarrow> (Inl (transport_error ''send requires a request envelope''), s))"

text \<open>The \<open>i\<close>-th outstanding \<open>XADD\<close> of \<open>send\<close> has been answered.\<close>

definition rc_add_done :: "nat \<Rightarrow> thrown option \<Rightarrow> redis_client \<Rightarrow> redis_client" where
  "rc_add_done i failure s =
     (if i < length (rc_adds s) then
        let s' = s\<lparr>rc_adds := remove_nth i (rc_adds s)\<rparr> in
        (case failure of
           None \<Rightarrow> s'
         | Some err \<Rightarrow>
           s'\<lparr>rc_calls := take_call (rc_adds s ! i)
             (Inl (new_transport_error ''xadd failed'' (thrown_value err))) (rc_calls s)\<rparr>)
      else s)"

definition rc_timeout :: "nat \<Rightarrow> redis_client \<Rightarrow> redis_client" where
  "rc_timeout h s = s\<lparr>rc_calls := call_timeout h (rc_calls s)\<rparr>"

text \<open>\<open>notify\<close> awaits its \<open>XADD\<close>; \<open>xadd\<close> is how that ends.\<close>

definition rc_notify ::
    "thrown + unit \<Rightarrow> jsval \<Rightarrow> redis_client \<Rightarrow> (thrown + unit) \<times> redis_client" where
  "rc_notify xadd env s =
     (if rc_state s \<noteq> Started then (Inl (not_started (rc_state s)), s)
      else case parse_envelope env of
        Inl e \<Rightarrow> (Inl e, s)
      | Inr (Notification n) \<Rightarrow>
        (xadd, s\<lparr>rc_cmds := rc_cmds s @
           [XAdd (commandStream (rc_keyPrefix s) (nt_service n)) (notification_fields env)]\<rparr>)
      | Inr _ \<Rightarrow> (Inl (transport_error ''notify requires a notification envelope''), s))"

section \<open>The reply loop\<close>

text \<open>
  One entry of the reply stream. Reading \<open>id\<close> off the value null throws, and the error
  leaves both loops over the entries.
\<close>

fun reply_entry :: "string \<times> string list \<Rightarrow> redis_client \<Rightarrow> (thrown + unit) \<times> redis_client" where
  "reply_entry (entryId, flds) s0 =
     (let s = s0\<lparr>rc_lastId := entryId\<rparr> in
      if js_index_of ''envelope'' flds < 0 then (Inr (), s)
      else case json_parse (case field_after ''envelope'' flds of None \<Rightarrow> [] | Some j \<Rightarrow> j) of
        Inl e \<Rightarrow> (Inr (), s\<lparr>rc_log := rc_log s @
            [\<lparr>log_level = LogWarn, log_msg = ''redis reply parse failed'', log_err = e,
              log_fields = [(''entryId'', JStr entryId)]\<rparr>]\<rparr>)
      | Inr parsed \<Rightarrow>
        (if parsed = JNull then (Inl (null_property ''id''), s)
         else (Inr (), s\<lparr>rc_calls := take_call (JStr (js_string (js_get parsed ''id'')))
                          (Inr parsed) (rc_calls s)\<rparr>)))"

fun reply_entries :: "(string \<times> string list) list \<Rightarrow> redis_client \<Rightarrow>
    (thrown + unit) \<times> redis_client" where
  "reply_entries [] s = (Inr (), s)"
| "reply_entries (e # es) s =
     (case reply_entry e s of
        (Inl x, s') \<Rightarrow> (Inl x, s')
      | (Inr _, s') \<Rightarrow> reply_entries es s')"

definition rc_iterate :: "redis_client \<Rightarrow> redis_client" where
  "rc_iterate s = s\<lparr>rc_loop := (if rc_abort s then Ended else Reading)\<rparr>"

definition rc_catch :: "thrown \<Rightarrow> redis_client \<Rightarrow> redis_client" where
  "rc_catch e s =
     (if rc_abort s then s\<lparr>rc_loop := Ended\<rparr>
      else s\<lparr>rc_loop := Sleeping, rc_log := rc_log s @
        [\<lparr>log_level = LogError, log_msg = ''redis reply loop error'', log_err = e,
          log_fields = []\<rparr>]\<rparr>)"

text \<open>The pending \<open>XREAD\<close> comes back; the sleep after an error ends.\<close>

definition rc_read :: "read_result \<Rightarrow> redis_client \<Rightarrow> redis_client" where
  "rc_read r s =
     (if rc_loop s \<noteq> Reading then s
      else case r of
        ReadFailed e \<Rightarrow> rc_catch e s
      | ReadNothing \<Rightarrow> rc_iterate s
      | ReadEntries batches \<Rightarrow>
        (case reply_entries (concat (map snd batches)) s of
           (Inl e, s') \<Rightarrow> rc_catch e s'
         | (Inr _, s') \<Rightarrow> rc_iterate s'))"

definition rc_wake :: "redis_client \<Rightarrow> redis_client" where
  "rc_wake s = (if rc_loop s = Sleeping then rc_iterate s else s)"

section \<open>Life cycle\<close>

definition rc_start :: "redis_client \<Rightarrow> (thrown + unit) \<times> redis_client" where
  "rc_start s =
     (case rc_state s of
        Stopped \<Rightarrow> (Inl (transport_error ''transport has been stopped''), s)
      | Started \<Rightarrow> (Inr (), s)
      | Idle \<Rightarrow>
        (Inr (), s\<lparr>rc_state := Started, rc_abort := False, rc_replyRedis := True,
           rc_cmds := rc_cmds s @ [Duplicate 0], rc_lastId := ''0-0'', rc_loop := Reading\<rparr>))"

definition rc_stop_begin :: "redis_client \<Rightarrow> redis_client" where
  "rc_stop_begin s =
     (if rc_state s \<noteq> Started then s\<lparr>rc_state := Stopped\<rparr>
      else s\<lparr>rc_abort := True, rc_stops := rc_stops s @ [AwaitLoop],
             rc_cmds := rc_cmds s @ (if rc_replyRedis s then [Disconnect 0] else [])\<rparr>)"

text \<open>
  A \<open>stop\<close> in progress goes on: once the loop has ended it rejects the pending calls and
  deletes the reply stream; later it closes the connections and becomes stopped. Errors of
  those commands are swallowed.
\<close>

definition rc_stop_step :: "nat \<Rightarrow> redis_client \<Rightarrow> redis_client" where
  "rc_stop_step i s =
     (if i < length (rc_stops s) then
        (case rc_stops s ! i of
           AwaitLoop \<Rightarrow>
             if rc_loop s = Ended then
               s\<lparr>rc_stops := (rc_stops s)[i := Cleanup],
                 rc_calls := reject_all (transport_error ''transport stopped'') (rc_calls s),
                 rc_cmds := rc_cmds s @ [Del (rc_replyStream s)]\<rparr>
             else s
         | Cleanup \<Rightarrow>
             s\<lparr>rc_stops := remove_nth i (rc_stops s),
               rc_cmds := rc_cmds s @ (if rc_replyRedis s then [QuitDuplicate 0] else [])
                 @ (if rc_ownsRedis s then [Quit] else []),
               rc_replyRedis := False, rc_state := Stopped\<rparr>)
      else s)"

text \<open>A \<open>stop\<close> that nothing interrupts: the disconnect makes the read fail.\<close>

definition rc_end_loop :: "redis_client \<Rightarrow> redis_client" where
  "rc_end_loop s = rc_wake (rc_read (ReadFailed (new_error ''Connection is closed.'')) s)"

definition rc_stop :: "redis_client \<Rightarrow> (thrown + unit) \<times> redis_client" where
  "rc_stop s =
     (Inr (),
      if rc_state s \<noteq> Started then rc_stop_begin s
      else let i = length (rc_stops s) in
        rc_stop_step i (rc_stop_step i (rc_end_loop (rc_stop_begin s))))"

interpretation rc_tr: transport_guard rc_state rc_start rc_stop rc_send "rc_notify xadd"
  for xadd :: "thrown + unit"
proof unfold_locales
  show "rc_state s = Stopped \<Longrightarrow> is_Inl (fst (rc_start s)) \<and> snd (rc_start s) = s" for s
    by (simp add: rc_start_def)
  show "rc_state s = Started \<Longrightarrow> rc_start s = (Inr (), s)" for s
    by (simp add: rc_start_def)
  show "fst (rc_start s) = Inr () \<Longrightarrow> rc_state (snd (rc_start s)) = Started" for s
    by (simp add: rc_start_def split: run_state.splits)
  show "rc_state (snd (rc_stop s)) = Stopped" for s
    by (cases "rc_loop s")
      (auto simp: rc_stop_def rc_stop_begin_def rc_stop_step_def rc_end_loop_def rc_read_def
        rc_wake_def rc_iterate_def rc_catch_def Let_def)
  show "fst (rc_stop s) = Inr ()" for s
    by (simp add: rc_stop_def)
qed (auto simp: rc_send_def rc_notify_def Let_def split: sum.splits envelope.splits prod.splits)

section \<open>Runs\<close>

datatype rc_event =
    RcStart
  | RcSend jsval
  | RcNotify jsval
  | RcAddDone nat "thrown option"
  | RcTimeout nat
  | RcRead read_result
  | RcWake
  | RcStop
  | RcStopStep nat

fun rc_exec :: "rc_event \<Rightarrow> redis_client \<Rightarrow> redis_client" where
  "rc_exec RcStart s = snd (rc_start s)"
| "rc_exec (RcSend env) s = snd (rc_send env s)"
| "rc_exec (RcNotify env) s = snd (rc_notify (Inr ()) env s)"
| "rc_exec (RcAddDone i failure) s = rc_add_done i failure s"
| "rc_exec (RcTimeout h) s = rc_timeout h s"
| "rc_exec (RcRead r) s = rc_read r s"
| "rc_exec RcWake s = rc_wake s"
| "rc_exec RcStop s = rc_stop_begin s"
| "rc_exec (RcStopStep i) s = rc_stop_step i s"

definition rc_run :: "rc_event list \<Rightarrow> redis_client \<Rightarrow> redis_client" where
  "rc_run es s = fold rc_exec es s"

text \<open>What the entries of a read do to the table, up to one that throws.\<close>

fun entry_result :: "string \<times> string list \<Rightarrow> (thrown + jsval) option" where
  "entry_result (entryId, flds) =
     (if js_index_of ''envelope'' flds < 0 then None
      else Some (json_parse (case field_after ''envelope'' flds of None \<Rightarrow> [] | Some j \<Rightarrow> j)))"

fun reply_ops :: "(string \<times> string list) list \<Rightarrow> call_op list" where
  "reply_ops [] = []"
| "reply_ops (e # es) =
     (case entry_result e of
        Some (Inr v) \<Rightarrow>
          if v = JNull then []
          else TakeOp (JStr (js_string (js_get v ''id''))) (Inr v) # reply_ops es
      | _ \<Rightarrow> reply_ops es)"

fun rc_ops :: "rc_event \<Rightarrow> redis_client \<Rightarrow> call_op list" where
  "rc_ops (RcSend env) s =
     (if rc_state s \<noteq> Started then []
      else case parse_envelope env of
        Inr (Request r) \<Rightarrow> [OpenOp (pending_key r) (pending_key r)] | _ \<Rightarrow> [])"
| "rc_ops (RcAddDone i failure) s =
     (case failure of
        Some err \<Rightarrow>
          if i < length (rc_adds s)
          then [TakeOp (rc_adds s ! i) (Inl (new_transport_error ''xadd failed'' (thrown_value err)))]
          else []
      | None \<Rightarrow> [])"
| "rc_ops (RcTimeout h) s = [TimeoutOp h]"
| "rc_ops (RcRead (ReadEntries bs)) s =
     (if rc_loop s = Reading then reply_ops (concat (map snd bs)) else [])"
| "rc_ops (RcStopStep i) s =
     (if i < length (rc_stops s) \<and> rc_stops s ! i = AwaitLoop \<and> rc_loop s = Ended
      then [RejectOp (transport_error ''transport stopped'')] else [])"
| "rc_ops _ s = []"

lemma rc_loop_calls [simp]:
  "rc_calls (rc_iterate s) = rc_calls s" "rc_calls (rc_catch e s) = rc_calls s"
  by (simp_all add: rc_iterate_def rc_catch_def)

lemma reply_entries_calls:
  "rc_calls (snd (reply_entries es s)) = fold apply_op (reply_ops es) (rc_calls s)"
proof (induction es s rule: reply_entries.induct)
  case (1 s)
  then show ?case by simp
next
  case (2 e es s)
  obtain i flds where e: "e = (i, flds)" by (cases e)
  show ?case
    using 2 by (auto simp: e Let_def split: sum.split if_split)
qed

lemma rc_exec_ops: "rc_calls (rc_exec e s) = fold apply_op (rc_ops e s) (rc_calls s)"
proof (cases e)
  case (RcRead r)
  show ?thesis
  proof (cases r)
    case (ReadEntries bs)
    have "rc_calls (snd (reply_entries (concat (map snd bs)) s))
        = fold apply_op (reply_ops (concat (map snd bs))) (rc_calls s)"
      by (rule reply_entries_calls)
    then show ?thesis
      by (auto simp: RcRead ReadEntries rc_read_def split: prod.splits sum.splits)
  qed (simp_all add: RcRead rc_read_def)
qed (auto simp: rc_start_def rc_send_def rc_notify_def rc_add_done_def rc_timeout_def rc_wake_def
      rc_stop_begin_def rc_stop_step_def Let_def
    split: run_state.splits sum.splits envelope.splits prod.splits option.splits stop_phase.splits)

lemma reply_ops_keyed: "list_all op_keyed (reply_ops es)"
  by (induction es) (auto split: option.split sum.split)

lemma rc_ops_keyed: "list_all op_keyed (rc_ops e s)"
proof (cases e)
  case (RcRead r)
  then show ?thesis by (cases r) (auto simp: reply_ops_keyed)
qed (auto split: sum.split envelope.split option.split)

interpretation rc_cm: call_machine rc_calls rc_exec rc_ops "\<lambda>e. True"
  by unfold_locales (simp_all add: rc_exec_ops rc_ops_keyed)

section \<open>The life of the reply loop\<close>

text \<open>
  Once a \<open>stop\<close> has begun, the abort flag stays set; a \<open>stop\<close> that has reached its clean-up
  leaves no loop behind, and a stopped transport has none.
\<close>

definition rc_inv :: "redis_client \<Rightarrow> bool" where
  "rc_inv s \<longleftrightarrow>
     (rc_stops s \<noteq> [] \<longrightarrow> rc_abort s \<and> rc_state s \<noteq> Idle)
     \<and> (Cleanup \<in> set (rc_stops s) \<longrightarrow> rc_loop s = Ended)
     \<and> (rc_state s = Idle \<longrightarrow> rc_loop s = Ended \<and> \<not> rc_abort s)
     \<and> (rc_state s = Stopped \<longrightarrow> rc_loop s = Ended)
     \<and> (Quit \<in> set (rc_cmds s) \<longrightarrow> rc_ownsRedis s)"

lemma rc_inv_new: "rc_inv (new_redis_client p i src)"
  by (simp add: rc_inv_def new_redis_client_def)

lemma reply_entries_frame:
  "rc_state (snd (reply_entries es s)) = rc_state s"
  "rc_stops (snd (reply_entries es s)) = rc_stops s"
  "rc_abort (snd (reply_entries es s)) = rc_abort s"
  "rc_cmds (snd (reply_entries es s)) = rc_cmds s"
  "rc_ownsRedis (snd (reply_entries es s)) = rc_ownsRedis s"
  by (induction es s rule: reply_entries.induct)
    (auto simp: Let_def split: sum.splits prod.splits if_splits)

lemma rc_read_frame:
  "rc_state (rc_read r s) = rc_state s" "rc_stops (rc_read r s) = rc_stops s"
  "rc_abort (rc_read r s) = rc_abort s" "rc_cmds (rc_read r s) = rc_cmds s"
  "rc_ownsRedis (rc_read r s) = rc_ownsRedis s"
  "rc_loop s = Ended \<Longrightarrow> rc_loop (rc_read r s) = Ended"
  using reply_entries_frame [of "concat (map snd (case r of ReadEntries bs \<Rightarrow> bs | _ \<Rightarrow> []))" s]
  by (auto simp: rc_read_def rc_iterate_def rc_catch_def split: read_result.splits prod.splits sum.splits)

lemma rc_exec_inv [inv_intro]: "rc_inv s \<Longrightarrow> rc_inv (rc_exec e s)"
proof (cases e)
  case RcStop
  assume "rc_inv s"
  then show ?thesis
    by (cases "rc_state s") (auto simp: RcStop rc_inv_def rc_stop_begin_def)
next
  case (RcRead r)
  assume "rc_inv s"
  then show ?thesis
    using rc_read_frame [where r = r and s = s] by (auto simp: RcRead rc_inv_def)
next
  case (RcStopStep i)
  assume inv: "rc_inv s"
  show ?thesis
  proof (cases "i < length (rc_stops s)")
    case True
    then have mem: "rc_stops s ! i \<in> set (rc_stops s)" by simp
    show ?thesis
    proof (cases "rc_stops s ! i")
      case AwaitLoop
      with True inv show ?thesis
        by (auto simp: RcStopStep rc_stop_step_def rc_inv_def)
    next
      case Cleanup
      with mem inv have "rc_loop s = Ended" by (simp add: rc_inv_def)
      with True Cleanup inv show ?thesis
        using set_remove_nth [of i "rc_stops s"]
        by (auto simp: RcStopStep rc_stop_step_def rc_inv_def)
    qed
  next
    case False
    with inv show ?thesis by (simp add: RcStopStep rc_stop_step_def)
  qed
qed (auto simp: rc_inv_def rc_start_def rc_send_def rc_notify_def rc_add_done_def rc_timeout_def
      rc_wake_def rc_iterate_def rc_stop_begin_def Let_def
    split: run_state.splits sum.splits envelope.splits prod.splits option.splits)

lemma rc_run_inv: "rc_inv s \<Longrightarrow> rc_inv (rc_run es s)"
  unfolding rc_run_def by (induction es arbitrary: s) (auto intro: inv_intro)

text \<open>A stop in progress: the loop does not survive the end of what it awaits.\<close>

lemma rc_stops_frame: "rc_stops (rc_wake (rc_read r s)) = rc_stops s"
  by (simp add: rc_wake_def rc_iterate_def rc_read_frame)

lemma rc_stopping_loop:
  assumes "rc_abort s"
  shows "rc_loop (rc_wake (rc_read r s)) = Ended"
proof (cases "rc_loop s = Reading")
  case True
  with assms have "rc_loop (rc_read r s) = Ended"
    using reply_entries_frame(3) [where s = s]
    by (auto simp: rc_read_def rc_iterate_def rc_catch_def split: read_result.split prod.split sum.split)
      (metis snd_conv)+
  then show ?thesis by (simp add: rc_wake_def)
next
  case False
  then have "rc_read r s = s" by (simp add: rc_read_def)
  with assms False show ?thesis by (cases "rc_loop s") (simp_all add: rc_wake_def rc_iterate_def)
qed

lemma reply_ops_open_none: "opens_none (reply_ops es)"
  by (induction es) (auto simp: opens_none_def split: option.split sum.split)

lemma rc_read_opens_none: "opens_none (rc_ops (RcRead r) s)"
  using reply_ops_open_none by (cases r) (auto simp: opens_none_def)

section \<open>Correlation of replies\<close>

text \<open>An entry that carries the reply to a pending call settles that call and no other.\<close>

lemma reply_entry_settles:
  assumes "calls_inv (rc_calls s)" "jm_get (pending (rc_calls s)) (JStr (js_string i)) = Some h"
    and "json_parse j = Inr v" "js_get v ''id'' = i" "v \<noteq> JNull"
  shows "settled (rc_calls (snd (reply_entry (eid, [''type'', ''rpc'', ''envelope'', j]) s))) x
    = (if x = h then Some (Inr v) else settled (rc_calls s) x)"
  using assms take_call_settles [OF assms(1,2), of "Inr v" x]
  by simp

section \<open>What a run sends and what resolves its calls\<close>

text \<open>The envelopes that \<open>send\<close> has accepted in a run, in their order.\<close>

fun accepted :: "rc_event list \<Rightarrow> redis_client \<Rightarrow> jsval list" where
  "accepted [] s = []"
| "accepted (RcSend env # es) s =
     (if is_Inl (fst (rc_send env s)) then [] else [env]) @ accepted es (rc_exec (RcSend env) s)"
| "accepted (e # es) s = accepted es (rc_exec e s)"

definition env_key :: "jsval \<Rightarrow> jsval" where
  "env_key env = (case parse_envelope env of Inr (Request r) \<Rightarrow> pending_key r | _ \<Rightarrow> JUndef)"

fun read_entries :: "rc_event list \<Rightarrow> (string \<times> string list) list" where
  "read_entries [] = []"
| "read_entries (RcRead (ReadEntries bs) # es) = concat (map snd bs) @ read_entries es"
| "read_entries (e # es) = read_entries es"

lemma accepted_Cons: "accepted (e # es) s = accepted [e] s @ accepted es (rc_exec e s)"
  by (cases e) simp_all

lemma read_entries_Cons: "read_entries (e # es) = read_entries [e] @ read_entries es"
  by (cases "e # es" rule: read_entries.cases) simp_all

lemma opened_reply_ops: "opened (reply_ops es) = []"
  by (induction es) (auto split: option.split sum.split)

lemma opened_rc_ops: "opened (rc_ops e s) = map env_key (accepted [e] s)"
proof (cases e)
  case (RcRead r)
  then show ?thesis by (cases r) (simp_all add: opened_reply_ops)
qed (auto simp: rc_send_def env_key_def Let_def split: sum.split envelope.split option.split prod.split)

lemma opened_run: "opened (run_ops rc_exec rc_ops es s) = map env_key (accepted es s)"
proof (induction es arbitrary: s)
  case (Cons e es)
  show ?case
    unfolding accepted_Cons [of e es] run_ops.simps opened_append
    by (simp add: opened_rc_ops Cons.IH del: accepted.simps rc_exec.simps)
qed simp

lemma reply_ops_take:
  "TakeOp k (Inr v) \<in> set (reply_ops es) \<Longrightarrow>
     \<exists>e \<in> set es. entry_result e = Some (Inr v) \<and> k = JStr (js_string (js_get v ''id'')) \<and> v \<noteq> JNull"
  by (induction es) (auto split: option.splits sum.splits if_splits simp del: entry_result.simps)

lemma rc_ops_take:
  assumes "TakeOp k (Inr v) \<in> set (rc_ops ev s)"
  shows "\<exists>e \<in> set (read_entries [ev]). entry_result e = Some (Inr v) \<and> k = JStr (js_string (js_get v ''id''))"
proof (cases ev)
  case (RcRead r)
  show ?thesis
  proof (cases r)
    case (ReadEntries bs)
    then have "TakeOp k (Inr v) \<in> set (reply_ops (concat (map snd bs)))"
      using assms by (simp add: RcRead split: if_split_asm)
    from reply_ops_take [OF this] show ?thesis by (simp add: RcRead ReadEntries del: entry_result.simps set_concat)
  qed (use assms in \<open>simp_all add: RcRead\<close>)
qed (use assms in \<open>auto split: sum.splits envelope.splits option.splits if_splits\<close>)

lemma run_ops_take:
  "TakeOp k (Inr v) \<in> set (run_ops rc_exec rc_ops es s) \<Longrightarrow>
     \<exists>e \<in> set (read_entries es). entry_result e = Some (Inr v) \<and> k = JStr (js_string (js_get v ''id''))"
proof (induction es arbitrary: s)
  case (Cons ev es)
  then show ?case
    unfolding read_entries_Cons [of ev es] run_ops.simps set_append Un_iff
    using rc_ops_take [of k v ev s] Cons.IH [of "rc_exec ev s"] by blast
qed simp

text \<open>A call is only resolved by a reply entry that has been read, and that carries its id.\<close>

lemma resolved_by_reply:
  assumes "rc_calls c0 = no_calls" "settled (rc_calls (rc_run es c0)) h = Some (Inr v)"
  shows "h < length (accepted es c0) \<and> (\<exists>e \<in> set (read_entries es). entry_result e = Some (Inr v)
    \<and> env_key (accepted es c0 ! h) = JStr (js_string (js_get v ''id'')))"
proof -
  let ?ps = "run_ops rc_exec rc_ops es c0"
  have "settled (fold apply_op ?ps no_calls) h = Some (Inr v)"
    using assms rc_cm.run_calls [of es c0] by (simp add: rc_run_def)
  then have "TakeOp (opened ?ps ! h) (Inr v) \<in> set ?ps \<and> h < length (opened ?ps)"
    using resolved_by_take [of ?ps] by blast
  then show ?thesis using run_ops_take [of "opened ?ps ! h" v es c0] by (auto simp: opened_run)
qed


text \<open>What a client adds to a command stream with a stream for the reply is a request it has accepted.\<close>

lemma reply_entries_names:
  "rc_cmds (snd (reply_entries es s)) = rc_cmds s \<and> rc_keyPrefix (snd (reply_entries es s)) = rc_keyPrefix s
    \<and> rc_instanceId (snd (reply_entries es s)) = rc_instanceId s"
proof (induction es s rule: reply_entries.induct)
  case (2 e es s)
  obtain i flds where "e = (i, flds)" by (cases e)
  with 2 show ?case by (auto simp: Let_def split: sum.split if_split)
qed simp

lemma rc_exec_names:
  "rc_keyPrefix (rc_exec e s) = rc_keyPrefix s" "rc_instanceId (rc_exec e s) = rc_instanceId s"
proof -
  have "rc_keyPrefix (rc_exec e s) = rc_keyPrefix s \<and> rc_instanceId (rc_exec e s) = rc_instanceId s"
  proof (cases e)
    case (RcRead r)
    show ?thesis
      using reply_entries_names by (cases r)
        (auto simp: RcRead rc_read_def rc_iterate_def rc_catch_def split_beta split: sum.split)
  qed (auto simp: rc_start_def rc_send_def rc_notify_def rc_add_done_def rc_timeout_def rc_wake_def rc_iterate_def
      rc_stop_begin_def rc_stop_step_def Let_def
    split: run_state.splits sum.splits envelope.splits prod.splits option.splits stop_phase.splits)
  then show "rc_keyPrefix (rc_exec e s) = rc_keyPrefix s" "rc_instanceId (rc_exec e s) = rc_instanceId s" by simp_all
qed

definition request_added :: "redis_client \<Rightarrow> jsval \<Rightarrow> string \<Rightarrow> string list \<Rightarrow> bool" where
  "request_added c env st args \<longleftrightarrow>
     (\<exists>r. parse_envelope env = Inr (Request r) \<and> st = commandStream (rc_keyPrefix c) (rq_service r)
        \<and> args = request_fields env (rc_replyStream c))"

lemma rc_exec_added:
  assumes "XAdd st args \<in> set (rc_cmds (rc_exec e s))"
  shows "XAdd st args \<in> set (rc_cmds s) \<or> (\<exists>env \<in> set (accepted [e] s). request_added s env st args)
    \<or> (\<exists>env. args = notification_fields env)"
proof (cases e)
  case (RcRead r)
  then show ?thesis
    using assms reply_entries_names by (cases r)
      (auto simp: rc_read_def rc_iterate_def rc_catch_def split_beta split: sum.splits if_splits)
qed (use assms in \<open>auto simp: rc_start_def rc_send_def rc_notify_def rc_add_done_def rc_timeout_def rc_wake_def rc_iterate_def
      rc_stop_begin_def rc_stop_step_def Let_def request_added_def
    split: run_state.splits sum.splits envelope.splits prod.splits option.splits stop_phase.splits if_splits\<close>)

lemma request_added_exec: "request_added (rc_exec e s) env st args \<longleftrightarrow> request_added s env st args"
  by (simp add: request_added_def rc_exec_names rc_replyStream_def)

lemma rc_run_added:
  "XAdd st args \<in> set (rc_cmds (rc_run es s)) \<Longrightarrow>
     XAdd st args \<in> set (rc_cmds s) \<or> (\<exists>env \<in> set (accepted es s). request_added s env st args)
     \<or> (\<exists>env. args = notification_fields env)"
  unfolding rc_run_def
proof (induction es arbitrary: s)
  case (Cons e es)
  then have "XAdd st args \<in> set (rc_cmds (rc_exec e s)) \<or> (\<exists>env \<in> set (accepted es (rc_exec e s)). request_added s env st args)
     \<or> (\<exists>env. args = notification_fields env)"
    using Cons.IH [of "rc_exec e s"] unfolding request_added_exec by simp
  then show ?case
    unfolding accepted_Cons [of e es] set_append using rc_exec_added [of st args e s] by blast
qed simp

lemma notification_no_reply: "notification_fields env = ''*'' # flds \<Longrightarrow> field_after ''reply-to'' flds = None"
  by (auto simp: notification_fields_def field_after_def Let_def)

lemma added_with_reply:
  assumes "rc_cmds c0 = []" "XAdd st (''*'' # flds) \<in> set (rc_cmds (rc_run es c0))" "field_after ''reply-to'' flds = Some to"
  shows "\<exists>env \<in> set (accepted es c0). request_added c0 env st (''*'' # flds)"
  using rc_run_added [OF assms(2)] assms(1,3) notification_no_reply by auto

section \<open>Properties\<close>

definition rc_sample_env :: jsval where
  "rc_sample_env = build_request ''calc.add'' (JObj []) (JNum 7)"

definition rc_sample :: redis_client where
  "rc_sample = rc_run [RcStart, RcSend rc_sample_env] (new_redis_client ''app'' ''i1'' GivenRedis)"

lemma rc_new: "calls_inv (rc_calls (new_redis_client p i src))" "all_pending (rc_calls (new_redis_client p i src))"
  "rc_calls (new_redis_client p i src) = no_calls"
  by (simp_all add: new_redis_client_def calls_inv_init all_pending_init)

lemma rc_sample_facts:
  "promises (rc_calls rc_sample) = [None]" "rc_state rc_sample = Started"
  "jm_get (pending (rc_calls rc_sample)) (JStr ''7'') = Some 0"
  "fresh_ops (run_ops rc_exec rc_ops [RcStart, RcSend rc_sample_env]
     (new_redis_client ''app'' ''i1'' GivenRedis)) no_calls"
  by code_simp+

lemma rc_sample_inv: "calls_inv (rc_calls rc_sample)"
  unfolding rc_sample_def rc_run_def by (rule rc_cm.run_inv) (simp_all add: rc_new list_all_iff calls_inv_init)

text \<open>
  C15: In every run of the Redis client transport, whatever the ids of its requests, a call that
  has not been settled has an armed timer, and that timer ends this call with a timeout error
  and touches no other: not a lost reply, a failed read, nor a poison entry can leave a call
  hanging.
\<close>

theorem redis_call_always_ends:
  assumes "s = rc_run es (new_redis_client p i src)"
    and "h < length (promises (rc_calls s))" "settled (rc_calls s) h = None"
  shows "jm_get (timers (rc_calls s)) h \<noteq> None
    \<and> settled (rc_calls (rc_timeout h s)) h'
      = (if h' = h then Some (Inl (transport_error ''call timeout'')) else settled (rc_calls s) h')"
  using rc_cm.run_timer [OF rc_new(1), of es h p i src] assms
  by (simp add: rc_run_def rc_timeout_def list_all_iff)

theorem redis_call_always_ends_witness:
  "settled (rc_calls (rc_timeout 0 rc_sample)) 0 = Some (Inl (transport_error ''call timeout''))"
  using redis_call_always_ends [OF rc_sample_def, of 0 0] rc_sample_facts(1) by (simp add: settled_def)



text \<open>
  C18: In every run: a stopped transport has no reply loop, a \<open>stop\<close> that has reached its
  clean-up has waited for the loop to end, a \<open>stop\<close> in progress keeps the abort flag set, and
  the connection is closed only if the transport opened it.
\<close>

theorem redis_stop_is_clean:
  "rc_inv (rc_run es (new_redis_client p i src))"
  by (rule rc_run_inv [OF rc_inv_new])

text \<open>
  C17: An entry of the reply stream settles exactly the call that is pending under the id of the
  envelope it carries; an entry for no pending call, late or strange, settles nothing; in both
  cases the loop goes on behind it.
\<close>

theorem reply_correlation:
  assumes "calls_inv (rc_calls s)" "json_parse j = Inr v" "v \<noteq> JNull"
  shows "fst (reply_entry (eid, [''type'', ''rpc'', ''envelope'', j]) s) = Inr ()
    \<and> settled (rc_calls (snd (reply_entry (eid, [''type'', ''rpc'', ''envelope'', j]) s))) x
      = (if jm_get (pending (rc_calls s)) (JStr (js_string (js_get v ''id''))) = Some x
         then Some (Inr v) else settled (rc_calls s) x)
    \<and> rc_lastId (snd (reply_entry (eid, [''type'', ''rpc'', ''envelope'', j]) s)) = eid"
proof (intro conjI)
  let ?k = "JStr (js_string (js_get v ''id''))"
  show "settled (rc_calls (snd (reply_entry (eid, [''type'', ''rpc'', ''envelope'', j]) s))) x
      = (if jm_get (pending (rc_calls s)) ?k = Some x then Some (Inr v) else settled (rc_calls s) x)"
    using assms take_call_settles [OF assms(1), of ?k _ "Inr v" x] take_call_stranger [of "rc_calls s" ?k "Inr v"]
    by (cases "jm_get (pending (rc_calls s)) ?k") auto
qed (use assms in simp_all)

theorem reply_correlation_witness:
  "settled (rc_calls (snd (reply_entry (''1-1'', [''type'', ''rpc'', ''envelope'', ''{\"id\":7}'']) rc_sample))) 0
     = Some (Inr (JObj [(''id'', JNum 7)]))"
proof -
  have "json_parse ''{\"id\":7}'' = Inr (JObj [(''id'', JNum 7)])" by code_simp
  note c = reply_correlation [OF rc_sample_inv this, of "''1-1''" 0]
  have "int_digits 7 = ''7''" by code_simp
  with c rc_sample_facts(3) show ?thesis by (simp del: reply_entry.simps)
qed

end
