(* ===== verification/RedisServer.thy ===== *)
theory RedisServer
  imports Keys ServerCore
begin

text \<open>
  \<open>ts/packages/over-redis/src/server-transport.ts\<close>: \<open>ServerRedisTransport\<close>. \<open>handle_entry\<close>
  is the whole handling of one stream entry: its result is the effects in their order
  (dispatch, commands, log lines) and how it ended (\<open>None\<close>: the dispatcher never returned).
  The answers of Redis are an argument, and the dispatcher works on a state of its own that
  is passed along. One turn of the consumer loop and one of the reclaim loop are functions
  of what Redis gave them; start and stop work on the fields of the class.
\<close>

section \<open>State\<close>

datatype server_loop = ConsumerLoop string nat | ReclaimLoop string

record 'd redis_server =
  rs_keyPrefix :: string
  rs_instanceId :: string
  rs_ownsRedis :: bool
  rs_replyStreamMaxLen :: int
  rs_consumerClaimIdleMs :: nat
  rs_shutdownGraceMs :: nat
  rs_dispatchers :: "(string, 'd) jsmap"
  rs_state :: run_state
  rs_abort :: bool
  rs_loops :: "server_loop list"
  rs_reclaimWakers :: "nat list"
  rs_blockingConns :: "nat list"
  rs_nextConn :: nat
  rs_cmds :: "redis_cmd list"

definition opt_or :: "'a option \<Rightarrow> 'a \<Rightarrow> 'a" where
  "opt_or x d = (case x of None \<Rightarrow> d | Some v \<Rightarrow> v)"

text \<open>\<open>so_redis\<close> says whether a connection is given; the logger is left out.\<close>

record server_options =
  so_redis :: bool
  so_redisUrl :: "string option"
  so_keyPrefix :: string
  so_instanceId :: "string option"
  so_consumerClaimIdleMs :: "nat option"
  so_replyStreamMaxLen :: "int option"
  so_shutdownGraceMs :: "nat option"

definition make_redis_server ::
    "server_options \<Rightarrow> string option \<Rightarrow> string \<Rightarrow> thrown + 'd redis_server" where
  "make_redis_server opts env_REDIS_URL uuid =
     rbind (choose_redis (so_redis opts) (so_redisUrl opts) env_REDIS_URL) (\<lambda>src. Inr
       \<lparr>rs_keyPrefix = so_keyPrefix opts, rs_instanceId = opt_or (so_instanceId opts) uuid,
        rs_ownsRedis = owns_redis src,
        rs_replyStreamMaxLen = opt_or (so_replyStreamMaxLen opts) 1024,
        rs_consumerClaimIdleMs = opt_or (so_consumerClaimIdleMs opts) 60000,
        rs_shutdownGraceMs = opt_or (so_shutdownGraceMs opts) 5000,
        rs_dispatchers = [], rs_state = Idle, rs_abort = False, rs_loops = [],
        rs_reclaimWakers = [], rs_blockingConns = [], rs_nextConn = 0, rs_cmds = []\<rparr>)"

definition rs_register :: "string \<Rightarrow> 'd \<Rightarrow> 'd redis_server \<Rightarrow> (thrown + unit) \<times> 'd redis_server" where
  "rs_register name d t = (Inr (), t\<lparr>rs_dispatchers := jm_set (rs_dispatchers t) name d\<rparr>)"

definition rs_send :: "jsval \<Rightarrow> 'd redis_server \<Rightarrow> (thrown + jsval) \<times> 'd redis_server" where
  "rs_send env t = (Inl (new_error ''server transport cannot send requests''), t)"

definition rs_notify :: "jsval \<Rightarrow> 'd redis_server \<Rightarrow> (thrown + unit) \<times> 'd redis_server" where
  "rs_notify env t = (Inl (new_error ''server transport cannot send notifications''), t)"

section \<open>One entry\<close>

datatype effect = EDispatch envelope | ECmd redis_cmd | ELog log_record

type_synonym handled = "effect list \<times> (thrown + unit) option"

type_synonym ('d, 'w) run_dispatcher =
  "'d \<Rightarrow> envelope \<Rightarrow> 'w \<Rightarrow> (thrown + jsval option) option \<times> 'w"

definition poison_log :: "string \<Rightarrow> string \<Rightarrow> thrown \<Rightarrow> effect" where
  "poison_log service entryId e = ELog
     \<lparr>log_level = LogWarn,
      log_msg = ''redis poison envelope: service='' @ service @ '' entry='' @ entryId,
      log_err = e,
      log_fields = [(''service'', JStr service), (''entryId'', JStr entryId)]\<rparr>"

definition reply_cmd :: "'d redis_server \<Rightarrow> string \<Rightarrow> jsval \<Rightarrow> redis_cmd" where
  "reply_cmd t replyTo reply =
     XAdd replyTo [''MAXLEN'', ''~'', int_digits (rs_replyStreamMaxLen t), ''*'',
       ''type'', ''rpc'', ''envelope'', json_text reply]"

text \<open>The final \<open>XACK\<close>, behind the effects so far.\<close>

definition ack_entry :: "(redis_cmd \<Rightarrow> thrown + unit) \<Rightarrow> redis_cmd \<Rightarrow> effect list \<Rightarrow> handled" where
  "ack_entry redis ack effs = (effs @ [ECmd ack], Some (redis ack))"

text \<open>After the dispatcher has returned: the reply, if there is one to give, then the ack.\<close>

definition finish_entry ::
    "(redis_cmd \<Rightarrow> thrown + unit) \<Rightarrow> 'd redis_server \<Rightarrow> redis_cmd \<Rightarrow> envelope \<Rightarrow> string option \<Rightarrow>
     jsval option \<Rightarrow> handled" where
  "finish_entry redis t ack env replyTo reply =
     (case (replyTo, reply) of
        (Some (c # to), Some r) \<Rightarrow>
          (let cmd = reply_cmd t (c # to) r in
           case redis cmd of
             Inl e \<Rightarrow> ([EDispatch env, ECmd cmd], Some (Inl e))
           | Inr _ \<Rightarrow> ack_entry redis ack [EDispatch env, ECmd cmd])
      | _ \<Rightarrow> ack_entry redis ack [EDispatch env])"

fun handle_entry ::
    "('d, 'w) run_dispatcher \<Rightarrow> (redis_cmd \<Rightarrow> thrown + unit) \<Rightarrow> 'd redis_server \<Rightarrow> string \<Rightarrow>
     string \<Rightarrow> string \<Rightarrow> string \<times> string list \<Rightarrow> 'w \<Rightarrow> handled \<times> 'w" where
  "handle_entry run redis t service stream grp (entryId, flds) w =
     (let ack = XAck stream grp entryId in
      if js_index_of ''envelope'' flds < 0 then (ack_entry redis ack [], w)
      else case json_parse (opt_or (field_after ''envelope'' flds) []) of
        Inl e \<Rightarrow> (ack_entry redis ack [poison_log service entryId e], w)
      | Inr v \<Rightarrow>
        (case parse_envelope v of
           Inl e \<Rightarrow> (ack_entry redis ack [poison_log service entryId e], w)
         | Inr env \<Rightarrow>
           (case jm_get (rs_dispatchers t) service of
              None \<Rightarrow> (ack_entry redis ack [], w)
            | Some d \<Rightarrow>
              (case run d env w of
                 (None, w') \<Rightarrow> (([EDispatch env], None), w')
               | (Some (Inl e), w') \<Rightarrow> (([EDispatch env], Some (Inl e)), w')
               | (Some (Inr reply), w') \<Rightarrow>
                 (finish_entry redis t ack env (field_after ''reply-to'' flds) reply, w')))))"

text \<open>The entries of a batch, one after the other; a failure leaves the rest alone.\<close>

fun handle_entries ::
    "('d, 'w) run_dispatcher \<Rightarrow> (redis_cmd \<Rightarrow> thrown + unit) \<Rightarrow> 'd redis_server \<Rightarrow> string \<Rightarrow>
     string \<Rightarrow> string \<Rightarrow> (string \<times> string list) list \<Rightarrow> 'w \<Rightarrow> handled \<times> 'w" where
  "handle_entries run redis t service stream grp [] w = (([], Some (Inr ())), w)"
| "handle_entries run redis t service stream grp (e # es) w =
     (case handle_entry run redis t service stream grp e w of
        ((effs, Some (Inr _)), w') \<Rightarrow>
          (let ((effs', res), w'') = handle_entries run redis t service stream grp es w' in
           ((effs @ effs', res), w''))
      | ((effs, res), w') \<Rightarrow> ((effs, res), w'))"

section \<open>The loops\<close>

text \<open>
  What a loop does after one turn. \<open>abort\<close> is the abort flag at the moment the turn needs
  it; \<open>Blocked\<close>: the turn never ends.
\<close>

datatype loop_next = NextTurn | NextTurnAfter nat | LoopExit | Blocked

definition loop_error_log :: "string \<Rightarrow> string \<Rightarrow> thrown \<Rightarrow> effect" where
  "loop_error_log which service e = ELog
     \<lparr>log_level = LogError, log_msg = ''redis '' @ which @ '' loop error: service='' @ service,
      log_err = e, log_fields = [(''service'', JStr service)]\<rparr>"

definition loop_catch :: "bool \<Rightarrow> string \<Rightarrow> string \<Rightarrow> loop_next \<Rightarrow> thrown \<Rightarrow> effect list \<times> loop_next" where
  "loop_catch abort which service next e =
     (if abort then ([], LoopExit) else ([loop_error_log which service e], next))"

definition loop_turn ::
    "('d, 'w) run_dispatcher \<Rightarrow> (redis_cmd \<Rightarrow> thrown + unit) \<Rightarrow> 'd redis_server \<Rightarrow> string \<Rightarrow>
     (thrown \<Rightarrow> effect list \<times> loop_next) \<Rightarrow> (string \<times> string list) list \<Rightarrow> 'w \<Rightarrow>
     (effect list \<times> loop_next) \<times> 'w" where
  "loop_turn run redis t service catch_it entries w =
     (case handle_entries run redis t service (commandStream (rs_keyPrefix t) service)
             (consumerGroupName service) entries w of
        ((effs, None), w') \<Rightarrow> ((effs, Blocked), w')
      | ((effs, Some (Inr _)), w') \<Rightarrow> ((effs, NextTurn), w')
      | ((effs, Some (Inl e)), w') \<Rightarrow>
        (let (logs, next) = catch_it e in ((effs @ logs, next), w')))"

definition consumer_turn ::
    "('d, 'w) run_dispatcher \<Rightarrow> (redis_cmd \<Rightarrow> thrown + unit) \<Rightarrow> 'd redis_server \<Rightarrow> bool \<Rightarrow>
     string \<Rightarrow> read_result \<Rightarrow> 'w \<Rightarrow> (effect list \<times> loop_next) \<times> 'w" where
  "consumer_turn run redis t abort service r w =
     (let catch_it = loop_catch abort ''consumer'' service (NextTurnAfter 100) in
      case r of
        ReadFailed e \<Rightarrow> (catch_it e, w)
      | ReadNothing \<Rightarrow> (([], NextTurn), w)
      | ReadEntries batches \<Rightarrow>
          loop_turn run redis t service catch_it (concat (map snd batches)) w)"

text \<open>The sleep before each reclaim; the timer drops the fraction of a millisecond.\<close>

definition reclaim_sleep :: "nat \<Rightarrow> nat" where
  "reclaim_sleep idleThreshold = max 1000 (idleThreshold div 4)"

definition reclaim_turn ::
    "('d, 'w) run_dispatcher \<Rightarrow> (redis_cmd \<Rightarrow> thrown + unit) \<Rightarrow> 'd redis_server \<Rightarrow> bool \<Rightarrow> bool \<Rightarrow>
     string \<Rightarrow> thrown + (string \<times> string list) list option \<Rightarrow> 'w \<Rightarrow>
     (effect list \<times> loop_next) \<times> 'w" where
  "reclaim_turn run redis t abort_after_sleep abort service claimed w =
     (let catch_it = loop_catch abort ''reclaim'' service NextTurn in
      if abort_after_sleep then (([], LoopExit), w)
      else case claimed of
        Inl e \<Rightarrow> (catch_it e, w)
      | Inr None \<Rightarrow> (([], NextTurn), w)
      | Inr (Some entries) \<Rightarrow>
        if entries = [] then (([], NextTurn), w)
        else loop_turn run redis t service catch_it entries w)"

text \<open>\<open>interruptibleSleep\<close>: it adds its waker, and ends by the timer or by the waker.\<close>

definition rs_sleep :: "nat \<Rightarrow> 'd redis_server \<Rightarrow> 'd redis_server" where
  "rs_sleep k t = t\<lparr>rs_reclaimWakers := List.insert k (rs_reclaimWakers t)\<rparr>"

definition rs_sleep_done :: "nat \<Rightarrow> 'd redis_server \<Rightarrow> 'd redis_server" where
  "rs_sleep_done k t = t\<lparr>rs_reclaimWakers := filter (\<lambda>x. x \<noteq> k) (rs_reclaimWakers t)\<rparr>"

section \<open>Life cycle\<close>

fun js_includes :: "string \<Rightarrow> string \<Rightarrow> bool" where
  "js_includes needle [] = (needle = [])"
| "js_includes needle (c # cs) = (prefix needle (c # cs) \<or> js_includes needle cs)"

text \<open>The duplicated connection of a service and its two loops.\<close>

definition attach_loops :: "string \<Rightarrow> 'd redis_server \<Rightarrow> 'd redis_server" where
  "attach_loops service t =
     (let c = rs_nextConn t in
      t\<lparr>rs_cmds := rs_cmds t @ [Duplicate c], rs_nextConn := Suc c,
        rs_blockingConns := rs_blockingConns t @ [c],
        rs_loops := rs_loops t @ [ConsumerLoop service c, ReclaimLoop service]\<rparr>)"

text \<open>\<open>xgroup\<close> is the answer to \<open>XGROUP CREATE\<close>; a failure is an \<open>Error\<close> object.\<close>

fun start_services ::
    "(string \<Rightarrow> string \<Rightarrow> js_error + unit) \<Rightarrow> string list \<Rightarrow> 'd redis_server \<Rightarrow>
     (thrown + unit) \<times> 'd redis_server" where
  "start_services xgroup [] t = (Inr (), t)"
| "start_services xgroup (service # ns) t =
     (let stream = commandStream (rs_keyPrefix t) service;
          grp = consumerGroupName service;
          t1 = t\<lparr>rs_cmds := rs_cmds t @ [XGroupCreate stream grp]\<rparr> in
      case xgroup stream grp of
        Inr _ \<Rightarrow> start_services xgroup ns (attach_loops service t1)
      | Inl e \<Rightarrow>
        if \<not> js_includes ''BUSYGROUP'' (err_message e) then (Inl (Err e), t1)
        else start_services xgroup ns (attach_loops service t1))"

definition rs_start ::
    "(string \<Rightarrow> string \<Rightarrow> js_error + unit) \<Rightarrow> 'd redis_server \<Rightarrow> (thrown + unit) \<times> 'd redis_server" where
  "rs_start xgroup t =
     (case rs_state t of
        Stopped \<Rightarrow> (Inl (transport_error ''transport has been stopped''), t)
      | Started \<Rightarrow> (Inr (), t)
      | Idle \<Rightarrow> start_services xgroup (jm_keys (rs_dispatchers t))
                  (t\<lparr>rs_state := Started, rs_abort := False\<rparr>))"

definition rs_stop :: "'d redis_server \<Rightarrow> (thrown + unit) \<times> 'd redis_server" where
  "rs_stop t =
     (Inr (),
      if rs_state t \<noteq> Started then t\<lparr>rs_state := Stopped\<rparr>
      else t\<lparr>rs_abort := True, rs_reclaimWakers := [],
             rs_cmds := rs_cmds t @ map Disconnect (rs_blockingConns t)
               @ map QuitDuplicate (rs_blockingConns t) @ (if rs_ownsRedis t then [Quit] else []),
             rs_blockingConns := [], rs_state := Stopped\<rparr>)"

text \<open>How long \<open>stop\<close> waits for its loops, given when each of them ends (\<open>None\<close>: never).\<close>

definition stop_wait :: "nat \<Rightarrow> nat option list \<Rightarrow> nat" where
  "stop_wait grace ends =
     (if None \<in> set ends then grace else min grace (foldr max (map the ends) 0))"

lemma start_services_state [simp]:
  "rs_state (snd (start_services xgroup ns t)) = rs_state t"
  "rs_dispatchers (snd (start_services xgroup ns t)) = rs_dispatchers t"
  "rs_ownsRedis (snd (start_services xgroup ns t)) = rs_ownsRedis t"
  by (induction ns arbitrary: t) (auto simp: Let_def attach_loops_def split: sum.split)

interpretation rs_lc: lifecycle rs_state "rs_start xgroup" rs_stop
  for xgroup :: "string \<Rightarrow> string \<Rightarrow> js_error + unit"
  by unfold_locales (auto simp: rs_start_def rs_stop_def split: run_state.splits)

section \<open>What happens to one entry\<close>

lemmas entry_defs = ack_entry_def finish_entry_def poison_log_def opt_or_def

fun is_ack :: "effect \<Rightarrow> bool" where
  "is_ack (ECmd (XAck _ _ _)) = True"
| "is_ack _ = False"

fun is_dispatch :: "effect \<Rightarrow> bool" where
  "is_dispatch (EDispatch _) = True"
| "is_dispatch _ = False"

text \<open>
  \<open>settled_entry\<close>: the work for the entry is over, so it may be acknowledged. It is poison
  or has no dispatcher, or the dispatcher has returned and a reply that has somewhere to go
  was accepted by Redis.
\<close>

definition entry_envelope :: "string list \<Rightarrow> envelope option" where
  "entry_envelope flds =
     (if js_index_of ''envelope'' flds < 0 then None
      else case json_parse (opt_or (field_after ''envelope'' flds) []) of
        Inl _ \<Rightarrow> None
      | Inr v \<Rightarrow> (case parse_envelope v of Inl _ \<Rightarrow> None | Inr env \<Rightarrow> Some env))"

lemma handle_entry_poison:
  assumes "entry_envelope flds = None"
  shows "\<exists>logs. handle_entry run redis t service stream grp (eid, flds) w
      = ((logs @ [ECmd (XAck stream grp eid)], Some (redis (XAck stream grp eid))), w)
    \<and> list_all (\<lambda>e. \<exists>r. e = ELog r) logs"
proof -
  have p: "\<exists>r. poison_log service eid e = ELog r" for e by (simp add: poison_log_def)
  consider "js_index_of ''envelope'' flds < 0"
    | e where "\<not> js_index_of ''envelope'' flds < 0"
        "json_parse (opt_or (field_after ''envelope'' flds) []) = Inl e"
    | e v where "\<not> js_index_of ''envelope'' flds < 0"
        "json_parse (opt_or (field_after ''envelope'' flds) []) = Inr v" "parse_envelope v = Inl e"
    using assms by (auto simp: entry_envelope_def split: if_splits sum.splits)
  then show ?thesis
  proof cases
    case 1
    then show ?thesis by (intro exI [of _ "[]"]) (simp add: ack_entry_def Let_def)
  next
    case (2 e)
    then show ?thesis
      using p by (intro exI [of _ "[poison_log service eid e]"]) (simp add: ack_entry_def Let_def)
  next
    case (3 e v)
    then show ?thesis
      using p by (intro exI [of _ "[poison_log service eid e]"]) (simp add: ack_entry_def Let_def)
  qed
qed

lemma handle_entry_envelope:
  assumes "entry_envelope flds = Some env"
  shows "handle_entry run redis t service stream grp (eid, flds) w =
    (case jm_get (rs_dispatchers t) service of
       None \<Rightarrow> (ack_entry redis (XAck stream grp eid) [], w)
     | Some d \<Rightarrow>
       (case run d env w of
          (None, w') \<Rightarrow> (([EDispatch env], None), w')
        | (Some (Inl e), w') \<Rightarrow> (([EDispatch env], Some (Inl e)), w')
        | (Some (Inr reply), w') \<Rightarrow>
          (finish_entry redis t (XAck stream grp eid) env (field_after ''reply-to'' flds) reply, w')))"
proof -
  from assms obtain v where i: "\<not> js_index_of ''envelope'' flds < 0"
    and v: "json_parse (opt_or (field_after ''envelope'' flds) []) = Inr v" "parse_envelope v = Inr env"
    by (auto simp: entry_envelope_def split: if_splits sum.splits)
  show ?thesis by (simp add: i v Let_def)
qed

declare handle_entry.simps [simp del]

text \<open>At most one dispatch; the ack, if any, is the last effect; an ack means the entry ended well before it.\<close>

lemma handle_entry_shape:
  assumes "handle_entry run redis t service stream grp (eid, flds) w = ((effs, res), w')"
  shows "length (filter is_dispatch effs) \<le> 1"
    and "\<exists>pre. (effs = pre \<or> effs = pre @ [ECmd (XAck stream grp eid)]) \<and> \<not> list_ex is_ack pre"
    and "res = Some (Inr ()) \<Longrightarrow> last effs = ECmd (XAck stream grp eid) \<and> effs \<noteq> []"
proof -
  have nl: "\<not> list_ex is_ack logs" "filter is_dispatch logs = []"
    if "list_all (\<lambda>e. \<exists>r. e = ELog r) logs" for logs
    using that by (induction logs) auto
  have "length (filter is_dispatch effs) \<le> 1
    \<and> (\<exists>pre. (effs = pre \<or> effs = pre @ [ECmd (XAck stream grp eid)]) \<and> \<not> list_ex is_ack pre)
    \<and> (res = Some (Inr ()) \<longrightarrow> last effs = ECmd (XAck stream grp eid) \<and> effs \<noteq> [])"
  proof (cases "entry_envelope flds")
    case None
    from handle_entry_poison [OF this, of run redis t service stream grp eid w] assms
    obtain logs where "effs = logs @ [ECmd (XAck stream grp eid)]"
      "list_all (\<lambda>e. \<exists>r. e = ELog r) logs" by auto
    with nl show ?thesis by auto
  next
    case (Some env)
    have "effs = [] \<or> effs = [EDispatch env] \<or> effs = [ECmd (XAck stream grp eid)]
      \<or> effs = [EDispatch env, ECmd (XAck stream grp eid)]
      \<or> (\<exists>to args. effs = [EDispatch env, ECmd (XAdd to args)]
            \<or> effs = [EDispatch env, ECmd (XAdd to args), ECmd (XAck stream grp eid)])"
      and ok: "res = Some (Inr ()) \<Longrightarrow> last effs = ECmd (XAck stream grp eid) \<and> effs \<noteq> []"
      using assms unfolding handle_entry_envelope [OF Some]
      by (auto simp: entry_defs reply_cmd_def Let_def
          split: option.splits prod.splits sum.splits list.splits)
    then show ?thesis
      by (elim disjE exE)
        (auto intro: exI [of _ "[]"] exI [of _ "[EDispatch env]"] exI [of _ "[EDispatch env, x]" for x])
  qed
  then show "length (filter is_dispatch effs) \<le> 1"
    "\<exists>pre. (effs = pre \<or> effs = pre @ [ECmd (XAck stream grp eid)]) \<and> \<not> list_ex is_ack pre"
    "res = Some (Inr ()) \<Longrightarrow> last effs = ECmd (XAck stream grp eid) \<and> effs \<noteq> []"
    by blast+
qed

text \<open>An entry whose dispatcher throws or never returns is not acknowledged.\<close>

lemma handle_entry_unfinished:
  assumes "entry_envelope flds = Some env" "jm_get (rs_dispatchers t) service = Some d"
    and "fst (run d env w) = None \<or> (\<exists>e. fst (run d env w) = Some (Inl e))"
  shows "fst (fst (handle_entry run redis t service stream grp (eid, flds) w)) = [EDispatch env]"
  using assms by (auto simp: handle_entry_envelope split: prod.splits)

text \<open>The reply goes out before the ack, and no ack follows a reply that Redis refused.\<close>

lemma handle_entry_reply:
  assumes "entry_envelope flds = Some env" "jm_get (rs_dispatchers t) service = Some d"
    and "run d env w = (Some (Inr (Some r)), w')" "field_after ''reply-to'' flds = Some to" "to \<noteq> []"
  shows "handle_entry run redis t service stream grp (eid, flds) w =
    (case redis (reply_cmd t to r) of
       Inl e \<Rightarrow> (([EDispatch env, ECmd (reply_cmd t to r)], Some (Inl e)), w')
     | Inr _ \<Rightarrow> (([EDispatch env, ECmd (reply_cmd t to r), ECmd (XAck stream grp eid)],
                 Some (redis (XAck stream grp eid))), w'))"
  using assms by (cases to) (auto simp: handle_entry_envelope entry_defs Let_def split: sum.split)

section \<open>A batch\<close>

definition acked_ids :: "effect list \<Rightarrow> string list" where
  "acked_ids effs = concat (map (\<lambda>e. case e of ECmd (XAck _ _ i) \<Rightarrow> [i] | _ \<Rightarrow> []) effs)"

lemma acked_ids_append [simp]: "acked_ids (xs @ ys) = acked_ids xs @ acked_ids ys"
  by (simp add: acked_ids_def)

lemma acked_ids_none: "\<not> list_ex is_ack effs \<Longrightarrow> acked_ids effs = []"
proof (induction effs)
  case (Cons e effs)
  then show ?case
    by (cases e rule: is_ack.cases) (auto simp: acked_ids_def)
qed (simp add: acked_ids_def)

lemma handle_entry_acked:
  assumes "handle_entry run redis t service stream grp e w = ((effs, res), w')"
  shows "acked_ids effs = [] \<or> acked_ids effs = [fst e]"
    and "res = Some (Inr ()) \<Longrightarrow> acked_ids effs = [fst e]"
proof -
  obtain eid flds where e: "e = (eid, flds)" by (cases e)
  note shape = handle_entry_shape(2,3) [OF assms [unfolded e]]
  from shape(1) obtain pre where
    pre: "effs = pre \<or> effs = pre @ [ECmd (XAck stream grp eid)]" "\<not> list_ex is_ack pre" by blast
  note none = acked_ids_none [OF pre(2)]
  show "acked_ids effs = [] \<or> acked_ids effs = [fst e]"
    using pre(1) none by (auto simp: e acked_ids_def)
  assume "res = Some (Inr ())"
  from shape(2) [OF this] have l: "last effs = ECmd (XAck stream grp eid)" "effs \<noteq> []" by auto
  have "effs \<noteq> pre"
  proof
    assume "effs = pre"
    with l have "ECmd (XAck stream grp eid) \<in> set pre" using last_in_set by metis
    with pre(2) show False by (auto simp: list_ex_iff)
  qed
  with pre(1) none show "acked_ids effs = [fst e]" by (auto simp: e acked_ids_def)
qed

text \<open>
  The acknowledged entries are an initial part of the batch, in order; all of it exactly
  when the batch ends well. Past the first entry that fails nothing is dispatched.
\<close>

lemma handle_entries_prefix:
  assumes "handle_entries run redis t service stream grp es w = ((effs, res), w')"
  shows "prefix (acked_ids effs) (map fst es)
    \<and> (res = Some (Inr ()) \<longrightarrow> acked_ids effs = map fst es)
    \<and> length (filter is_dispatch effs) \<le> length es"
  using assms
proof (induction es arbitrary: w effs res w')
  case Nil
  then show ?case by (auto simp: acked_ids_def)
next
  case (Cons e es)
  obtain effs1 res1 w1 where one: "handle_entry run redis t service stream grp e w = ((effs1, res1), w1)"
    by (metis prod.exhaust)
  note acked = handle_entry_acked [OF one]
  have disp: "length (filter is_dispatch effs1) \<le> 1"
    using handle_entry_shape(1) [of run redis t service stream grp "fst e" "snd e"] one by simp
  show ?case
  proof (cases "res1 = Some (Inr ())")
    case True
    obtain effs2 res2 w2 where
      rest: "handle_entries run redis t service stream grp es w1 = ((effs2, res2), w2)"
      by (metis prod.exhaust)
    have eq: "effs = effs1 @ effs2" "res = res2" using Cons.prems one True rest by auto
    from Cons.IH [OF rest] acked(2) [OF True] disp show ?thesis unfolding eq by auto
  next
    case False
    then have eq: "effs = effs1" "res = res1"
      using Cons.prems one by (auto split: option.splits sum.splits)
    with False acked(1) disp show ?thesis by auto
  qed
qed

lemma handle_entries_append:
  "handle_entries run redis t service stream grp (es @ fs) w =
    (case handle_entries run redis t service stream grp es w of
       ((effs, Some (Inr _)), w') \<Rightarrow>
         (let ((effs', res), w'') = handle_entries run redis t service stream grp fs w' in
          ((effs @ effs', res), w''))
     | ((effs, res), w') \<Rightarrow> ((effs, res), w'))"
proof (induction es arbitrary: w)
  case Nil
  show ?case by (simp add: split_beta)
next
  case (Cons e es)
  show ?case
    by (cases "handle_entry run redis t service stream grp e w")
      (auto simp: Cons Let_def split: option.split sum.split prod.split)
qed

section \<open>Starting twice\<close>

lemma js_includes_iff: "js_includes needle s \<longleftrightarrow> (\<exists>a b. s = a @ needle @ b)"
proof (induction needle s rule: js_includes.induct)
  case (1 needle)
  then show ?case by simp
next
  case (2 needle c cs)
  have "(\<exists>a b. c # cs = a @ needle @ b) \<longleftrightarrow> prefix needle (c # cs) \<or> (\<exists>a b. cs = a @ needle @ b)"
    by (auto simp: Cons_eq_append_conv prefix_def)
  with 2 show ?case by simp
qed

definition group_ready :: "js_error + unit \<Rightarrow> bool" where
  "group_ready r \<longleftrightarrow> (case r of Inr _ \<Rightarrow> True | Inl e \<Rightarrow> js_includes ''BUSYGROUP'' (err_message e))"

text \<open>With every group there, each service gets its two loops.\<close>

lemma attach_loops_fields [simp]:
  "rs_keyPrefix (attach_loops n t) = rs_keyPrefix t" "rs_nextConn (attach_loops n t) = Suc (rs_nextConn t)"
  "rs_loops (attach_loops n t) = rs_loops t @ [ConsumerLoop n (rs_nextConn t), ReclaimLoop n]"
  by (simp_all add: attach_loops_def Let_def)

definition loops_for :: "string list \<Rightarrow> nat \<Rightarrow> server_loop list" where
  "loops_for ns c = concat (map (\<lambda>(n, c). [ConsumerLoop n c, ReclaimLoop n])
     (zip ns [c ..< c + length ns]))"

lemma loops_for_simps [simp]:
  "loops_for [] c = []"
  "loops_for (n # ns) c = ConsumerLoop n c # ReclaimLoop n # loops_for ns (Suc c)"
  by (simp_all add: loops_for_def upt_conv_Cons del: upt_Suc)

text \<open>
  The loops are attached service by service up to the first whose group cannot be made; that
  one fails the start.
\<close>

lemma start_services_loops:
  "(fst (start_services xgroup ns t) = Inr () \<longleftrightarrow>
      (\<forall>n \<in> set ns. group_ready (xgroup (commandStream (rs_keyPrefix t) n) (consumerGroupName n))))
   \<and> rs_loops (snd (start_services xgroup ns t)) = rs_loops t @ loops_for
      (takeWhile (\<lambda>n. group_ready (xgroup (commandStream (rs_keyPrefix t) n) (consumerGroupName n))) ns)
      (rs_nextConn t)"
proof (induction ns arbitrary: t)
  case Nil
  then show ?case by simp
next
  case (Cons n ns)
  let ?t1 = "t\<lparr>rs_cmds := rs_cmds t
    @ [XGroupCreate (commandStream (rs_keyPrefix t) n) (consumerGroupName n)]\<rparr>"
  show ?case
  proof (cases "group_ready (xgroup (commandStream (rs_keyPrefix t) n) (consumerGroupName n))")
    case True
    then have step: "start_services xgroup (n # ns) t = start_services xgroup ns (attach_loops n ?t1)"
      by (auto simp: group_ready_def Let_def split: sum.splits)
    show ?thesis unfolding step using Cons.IH [of "attach_loops n ?t1"] True by simp
  next
    case False
    then show ?thesis by (auto simp: group_ready_def Let_def split: sum.splits)
  qed
qed

lemma rs_stop_wakes: "rs_state t = Started \<Longrightarrow> rs_reclaimWakers (snd (rs_stop t)) = []"
  by (simp add: rs_stop_def)

lemma stop_wait_bound: "stop_wait grace ends \<le> grace"
  by (simp add: stop_wait_def)

section \<open>Properties\<close>

definition rs_sample :: "string redis_server" where
  "rs_sample = snd (rs_register ''calc'' ''calc'' (projr (make_redis_server
     \<lparr>so_redis = True, so_redisUrl = None, so_keyPrefix = ''app'', so_instanceId = Some ''s1'',
      so_consumerClaimIdleMs = None, so_replyStreamMaxLen = None, so_shutdownGraceMs = None\<rparr> None [])))"

lemma rs_sample_facts:
  "jm_get (rs_dispatchers rs_sample) ''calc'' = Some ''calc''" "rs_keyPrefix rs_sample = ''app''"
  "rs_state rs_sample = Idle" "rs_loops rs_sample = []" "jm_keys (rs_dispatchers rs_sample) = [''calc'']"
  by (simp_all add: rs_sample_def rs_register_def make_redis_server_def choose_redis_def opt_or_def
      jm_get_def jm_keys_def)

definition sample_fields :: "string list" where
  "sample_fields = [''type'', ''rpc'', ''envelope'',
     ''{\"jsonrpc\":\"2.0\",\"method\":\"calc.add\",\"params\":{},\"id\":1}'', ''reply-to'', ''app:replies:i1'']"

lemma sample_fields_env: "\<exists>r. entry_envelope sample_fields = Some (Request r) \<and> rq_service r = ''calc''"
  by (rule exI [of _ "\<lparr>rq_service = ''calc'', rq_method = ''add'', rq_fullMethod = ''calc.add'',
      rq_params = JObj [], rq_id = JNum 1, rq_raw = [(''jsonrpc'', JStr ''2.0''),
        (''method'', JStr ''calc.add''), (''params'', JObj []), (''id'', JNum 1)]\<rparr>"]) code_simp

text \<open>
  Handling a stream entry dispatches it at most once, and acknowledges it at most once and
  as the very last effect; when it ends well the entry has been acknowledged.
\<close>

lemma entry_acked_last:
  assumes "handle_entry run redis t service stream grp (eid, flds) w = ((effs, res), w')"
  shows "length (filter is_dispatch effs) \<le> 1
    \<and> (\<exists>pre. (effs = pre \<or> effs = pre @ [ECmd (XAck stream grp eid)]) \<and> \<not> list_ex is_ack pre)
    \<and> (res = Some (Inr ()) \<longrightarrow> last effs = ECmd (XAck stream grp eid) \<and> effs \<noteq> [])"
  using handle_entry_shape [OF assms] by blast

text \<open>The reply that is due for an entry: the dispatcher has one and the entry says where to.\<close>

definition reply_due :: "'d redis_server \<Rightarrow> string list \<Rightarrow> jsval option \<Rightarrow> redis_cmd option" where
  "reply_due t flds reply =
     (case (field_after ''reply-to'' flds, reply) of
        (Some (c # to), Some r) \<Rightarrow> Some (reply_cmd t (c # to) r)
      | _ \<Rightarrow> None)"

lemma finish_entry_effects:
  "fst (finish_entry redis t ack env (field_after ''reply-to'' flds) reply) =
     EDispatch env # (case reply_due t flds reply of
         None \<Rightarrow> [ECmd ack]
       | Some cmd \<Rightarrow> ECmd cmd # (if is_Inl (redis cmd) then [] else [ECmd ack]))"
  by (auto simp: finish_entry_def ack_entry_def reply_due_def Let_def split: option.split list.split sum.split)

text \<open>
  C24: What handling an entry does, exactly. A poison entry, one with no envelope, a text that is no
  JSON, or a value that is no valid envelope, is acknowledged without being dispatched, behind
  at most a log line. Any other is dispatched once; it is not acknowledged when the dispatcher
  throws or never returns, so it stays pending in Redis; a reply that is due is added before
  the acknowledgement, which does not follow if Redis refuses the reply.
\<close>

theorem entry_handled_exactly:
  assumes "jm_get (rs_dispatchers t) service = Some d"
  shows "\<exists>logs. list_all (\<lambda>e. \<exists>r. e = ELog r) logs
    \<and> fst (fst (handle_entry run redis t service stream grp (eid, flds) w)) =
      (case entry_envelope flds of
         None \<Rightarrow> logs @ [ECmd (XAck stream grp eid)]
       | Some env \<Rightarrow> EDispatch env #
         (case fst (run d env w) of
            None \<Rightarrow> []
          | Some (Inl e) \<Rightarrow> []
          | Some (Inr reply) \<Rightarrow>
            (case reply_due t flds reply of
               None \<Rightarrow> [ECmd (XAck stream grp eid)]
             | Some cmd \<Rightarrow> ECmd cmd #
                 (if is_Inl (redis cmd) then [] else [ECmd (XAck stream grp eid)]))))"
proof (cases "entry_envelope flds")
  case None
  from handle_entry_poison [OF this, of run redis t service stream grp eid w] show ?thesis
    by (auto simp: None)
next
  case (Some env)
  show ?thesis
    by (rule exI [of _ "[]"])
      (simp add: handle_entry_envelope [OF Some] assms Some finish_entry_effects split: prod.split option.split sum.split)
qed

theorem entry_handled_exactly_witness:
  "fst (fst (handle_entry (\<lambda>d env w. (None, w)) (\<lambda>cmd. Inr ()) rs_sample ''calc'' ''st'' ''g''
       (''1-0'', [''type'', ''rpc'', ''envelope'', ''{oops'']) ()))
     \<noteq> []
   \<and> (\<exists>env. fst (fst (handle_entry (\<lambda>d env w. (Some (Inl (new_error ''boom'')), w)) (\<lambda>cmd. Inr ()) rs_sample
      ''calc'' ''st'' ''g'' (''1-0'', sample_fields) ())) = [EDispatch env])"
proof -
  have p: "entry_envelope [''type'', ''rpc'', ''envelope'', ''{oops''] = None" by code_simp
  obtain r where r: "entry_envelope sample_fields = Some (Request r)" using sample_fields_env by blast
  show ?thesis
    using entry_handled_exactly [OF rs_sample_facts(1), of "\<lambda>d env w. (None, w)" "\<lambda>cmd. Inr ()" "''st''" "''g''"
        "''1-0''" "[''type'', ''rpc'', ''envelope'', ''{oops'']" "()"]
      entry_handled_exactly [OF rs_sample_facts(1), of "\<lambda>d env w. (Some (Inl (new_error ''boom'')), w)" "\<lambda>cmd. Inr ()"
        "''st''" "''g''" "''1-0''" sample_fields "()"]
    by (auto simp: p r)
qed

text \<open>
  Of a batch exactly an initial part is acknowledged, in order: all of it when the batch ends
  well, and nothing behind an entry that fails, whose followers are not even dispatched.
\<close>

lemma batch_stops_at_first_failure:
  assumes "handle_entries run redis t service stream grp es w = ((effs, res), w')"
    and "res \<noteq> Some (Inr ())"
  shows "prefix (acked_ids effs) (map fst es)
    \<and> handle_entries run redis t service stream grp (es @ fs) w = ((effs, res), w')"
proof (intro conjI)
  show "prefix (acked_ids effs) (map fst es)" using handle_entries_prefix [OF assms(1)] by simp
  show "handle_entries run redis t service stream grp (es @ fs) w = ((effs, res), w')"
    using assms by (auto simp: handle_entries_append split: option.split sum.split)
qed

text \<open>
  C27: \<open>start\<close> succeeds exactly when the consumer group of every registered service exists or can
  be made, and gives a consumer loop with a connection of its own and a reclaim loop to each
  service before the first whose group cannot be made, so to all of them when it succeeds.
  Either way the transport counts as started: after a failed \<open>start\<close> another one, whatever
  Redis would do, returns normally and adds no loop for the services that have none.
\<close>

theorem start_serves_every_service:
  fixes ready xgroup and t :: "'d redis_server"
  defines "ready \<equiv> \<lambda>n. group_ready (xgroup (commandStream (rs_keyPrefix t) n) (consumerGroupName n))"
  assumes "rs_state t = Idle"
  shows "(fst (rs_start xgroup t) = Inr () \<longleftrightarrow> (\<forall>n \<in> set (jm_keys (rs_dispatchers t)). ready n))
    \<and> rs_loops (snd (rs_start xgroup t)) =
        rs_loops t @ loops_for (takeWhile ready (jm_keys (rs_dispatchers t))) (rs_nextConn t)
    \<and> rs_state (snd (rs_start xgroup t)) = Started
    \<and> rs_start xgroup' (snd (rs_start xgroup t)) = (Inr (), snd (rs_start xgroup t))"
  using start_services_loops [of xgroup "jm_keys (rs_dispatchers t)" "t\<lparr>rs_state := Started, rs_abort := False\<rparr>"]
  by (simp add: rs_start_def [of _ t] assms) (simp add: rs_start_def)

definition busy_error :: js_error where
  "busy_error = \<lparr>err_kind = KOther, err_name = ''ReplyError'',
     err_message = ''BUSYGROUP Consumer Group name already exists'', err_extra = []\<rparr>"

definition refused_error :: js_error where
  "refused_error = \<lparr>err_kind = KOther, err_name = ''ReplyError'', err_message = ''LOADING'', err_extra = []\<rparr>"

theorem start_serves_every_service_witness:
  "fst (rs_start (\<lambda>stream grp. Inl busy_error) rs_sample) = Inr ()
   \<and> rs_loops (snd (rs_start (\<lambda>stream grp. Inl refused_error) rs_sample)) = []
   \<and> fst (rs_start (\<lambda>stream grp. Inr ()) (snd (rs_start (\<lambda>stream grp. Inl refused_error) rs_sample))) = Inr ()"
  using start_serves_every_service [OF rs_sample_facts(3), of "\<lambda>stream grp. Inl busy_error"]
    start_serves_every_service [OF rs_sample_facts(3), of "\<lambda>stream grp. Inl refused_error" "\<lambda>stream grp. Inr ()"]
  by (simp add: rs_sample_facts group_ready_def busy_error_def refused_error_def)

end
