(* ===== verification/Assembly.thy ===== *)
theory Assembly
  imports ClientCore MemoryTransport RedisClient RedisServer
begin

text \<open>
  What the packages export: the clients and servers that join a core with a transport, with the
  defaults they fill in (\<open>over-memory/src/client.ts\<close>, \<open>over-memory/src/server.ts\<close>,
  \<open>over-redis/src/client.ts\<close>, \<open>over-redis/src/server.ts\<close>), and the default logger
  (\<open>protocol/src/logger.ts\<close>). A logger that the caller gives, and the instance id of a memory
  transport, which nothing reads, are left out.
\<close>

definition MemoryRpcClient :: "nat option \<Rightarrow> client \<times> 'd mem_transport" where
  "MemoryRpcClient defaultTimeoutMs = (new_client (Some (opt_or defaultTimeoutMs 30000)), new_mem)"

definition MemoryRpcServer :: "server \<times> 'd mem_transport" where
  "MemoryRpcServer = (new_server, new_mem)"

definition RedisRpcClient ::
    "client_options \<Rightarrow> string option \<Rightarrow> string \<Rightarrow> thrown + client \<times> redis_client" where
  "RedisRpcClient opts env_REDIS_URL uuid =
     rbind (make_redis_client opts env_REDIS_URL uuid) (\<lambda>t.
       Inr (new_client (Some (opt_or (op_defaultTimeoutMs opts) 30000)), t))"

definition RedisRpcServer ::
    "server_options \<Rightarrow> string option \<Rightarrow> string \<Rightarrow> thrown + server \<times> 'd redis_server" where
  "RedisRpcServer opts env_REDIS_URL uuid =
     rbind (make_redis_server opts env_REDIS_URL uuid) (\<lambda>t. Inr (new_server, t))"

text \<open>The call of \<open>console.warn\<close> or \<open>console.error\<close> for a log record: its three arguments.\<close>

definition consoleLogger :: "log_record \<Rightarrow> log_level \<times> string \<times> jsval \<times> jsval" where
  "consoleLogger r =
     (log_level r, ''[clamator] '' @ log_msg r, JObj (log_fields r),
      js_nullish (thrown_value (log_err r)) (JStr []))"

end
