(* ===== verification/EndToEnd.thy ===== *)
theory EndToEnd
  imports Assembly
begin

text \<open>
  One call through all layers, undisturbed: the client core, a transport and the server core.
  A dispatcher is the closure made for a service, so it is named by the service. The two
  composed \<open>send\<close>s say who does what in which order; the lemmas are the steps of the two
  end-to-end theorems. Redis delivers to the reader of a stream the fields that were added
  to it, which is the only thing assumed about it here.
\<close>

section \<open>Over the memory transport\<close>

text \<open>
  \<open>send\<close>, then the microtask with the dispatcher, then, if the call is still open, the timer.
\<close>

definition mem_rpc_send ::
    "jsval \<Rightarrow> nat \<Rightarrow> string mem \<times> server \<Rightarrow> (thrown + jsval) \<times> string mem \<times> server" where
  "mem_rpc_send env timeoutMs = (\<lambda>(m, sv).
     case mem_send env m of
       (Inl e, m1) \<Rightarrow> (Inl e, m1, sv)
     | (Inr (Reply v), m1) \<Rightarrow> (Inr v, m1, sv)
     | (Inr (Promise h), m1) \<Rightarrow>
       (let i = length (mt_tasks (fst m));
            (r, d) = mt_tasks (fst m1) ! i;
            (out, sv1) = dispatch sv d (Request r);
            m2 = (case out of None \<Rightarrow> m1 | Some x \<Rightarrow> mem_task_done i x m1);
            m3 = mem_timeout h m2 in
        (case settled (mt_calls (fst m3)) h of Some r \<Rightarrow> r | None \<Rightarrow> Inl (transport_error []),
         m3, sv1)))"

lemma take_after_open:
  assumes "calls_inv c" "open_call k k c = (h, c1)"
  shows "settled (take_call k r c1) h = Some r" "h < length (promises c1)" "settled c1 h = None"
proof -
  have c1: "c1 = snd (open_call k k c)" "h = length (promises c)"
    using assms(2) by (auto simp: open_call_def Let_def)
  have inv: "calls_inv c1" unfolding c1 by (rule calls_inv_open [OF assms(1)])
  have p: "jm_get (pending c1) k = Some h" by (simp add: c1 open_call_def Let_def)
  show "settled (take_call k r c1) h = Some r" using take_call_settles [OF inv p] by simp
  show "h < length (promises c1)" by (simp add: c1 open_call_def Let_def)
  show "settled c1 h = None" by (simp add: c1 settled_open) (simp add: settled_def)
qed

lemma timeout_after_open:
  assumes "calls_inv c" "open_call k k c = (h, c1)"
  shows "settled (call_timeout h c1) h = Some (Inl (transport_error ''call timeout''))"
    "settled (call_timeout h (take_call k r c1)) h = Some r"
proof -
  have inv: "calls_inv c1" using calls_inv_open [OF assms(1), of k] assms(2) by simp
  note t = take_after_open [OF assms]
  show "settled (call_timeout h c1) h = Some (Inl (transport_error ''call timeout''))"
    using call_timeout_settles [OF inv t(2,3)] by simp
  show "settled (call_timeout h (take_call k r c1)) h = Some r"
    using settled_stable(2) [OF t(1)] .
qed

text \<open>What the promise of a call ends with, given what the dispatcher returned.\<close>

fun task_result :: "(thrown + jsval option) option \<Rightarrow> thrown + jsval" where
  "task_result None = Inl (transport_error ''call timeout'')"
| "task_result (Some (Inl e)) = Inl (new_transport_error ''dispatcher threw'' (thrown_value e))"
| "task_result (Some (Inr None)) = Inl (transport_error ''dispatcher returned null for a request'')"
| "task_result (Some (Inr (Some v))) = Inr v"

lemma mem_rpc_send_result:
  assumes "mt_state t = Started" "parse_envelope env = Inr (Request r)"
    and "js_typeof (rq_id r) = ''string''" "bus_lookup b (rq_service r) = Some d"
    and "calls_inv (mt_calls t)"
  shows "fst (mem_rpc_send env ms ((t, b), sv)) = task_result (fst (dispatch sv d (Request r)))"
proof -
  obtain h c1 where o: "open_call (pending_key r) (pending_key r) (mt_calls t) = (h, c1)"
    by (metis prod.exhaust)
  obtain out sv1 where dp: "dispatch sv d (Request r) = (out, sv1)" by (metis prod.exhaust)
  note t = timeout_after_open [OF assms(5) o]
  have s: "mem_send env (t, b) = (Inr (Promise h), t\<lparr>mt_calls := c1, mt_tasks := mt_tasks t @ [(r, d)]\<rparr>, b)"
    using assms o by (simp add: mem_send_def pending_key_string)
  show ?thesis
    by (cases out rule: task_result.cases)
      (simp_all add: mem_rpc_send_def s dp mem_timeout_def mem_task_done_def finish_send_def t)
qed

lemma memory_call_lemma:
  assumes names: "SERVICE_RE s" "METHOD_RE m"
    and entry: "jm_get (sv_services sv) s = Some \<lparr>se_contract = c, se_handlers = hs\<rparr>"
    and good: "good_service c hs"
    and own: "m \<notin> set object_prototype_names \<or> jm_get (ct_methods c) m \<noteq> None"
    and started: "mt_state t = Started" "bus_lookup b s = Some s" "calls_inv (mt_calls t)"
  shows "fst (client_call mem_rpc_send cl uuid s m p ms ((t, b), sv)) =
    (case call_spec c hs m (js_nullish p (JObj [])) of
       None \<Rightarrow> Inl (transport_error ''call timeout'')
     | Some out \<Rightarrow> outcome_result out)"
proof -
  let ?env = "build_request (full_method s m) p (JStr uuid)"
  obtain r where r: "parse_envelope ?env = Inr (Request r)" "rq_service r = s" "rq_method r = m"
    "rq_params r = js_nullish p (JObj [])" "rq_id r = JStr uuid"
    using parse_build_request [OF names, of "JStr uuid" p] by simp
  let ?out = "call_spec c hs m (js_nullish p (JObj []))"
  have send: "fst (mem_rpc_send ?env n ((t, b), sv))
      = task_result (map_option (\<lambda>out. Inr (encode_outcome (JStr uuid) out)) ?out)" for n
    using mem_rpc_send_result [OF started(1) r(1), of b s n sv] started r
      dispatch_refines_lemma [OF entry good, of r] own by simp
  have call: "fst (client_call mem_rpc_send cl uuid s m p ms ((t, b), sv)) =
      (case fst (mem_rpc_send ?env (case ms of None \<Rightarrow> cl_timeout cl | Some n \<Rightarrow> n) ((t, b), sv)) of
         Inl e \<Rightarrow> Inl e | Inr v \<Rightarrow> call_decode v)"
    by (simp add: client_call_names [OF names] split: prod.split sum.split)
  show ?thesis
  proof (cases ?out)
    case None
    then show ?thesis by (simp add: call send)
  next
    case (Some out)
    show ?thesis
    proof (cases "encode_outcome (JStr uuid) out")
      case None
      then have "out = NoAnswer" by (cases out) auto
      with Some None show ?thesis by (simp add: call send)
    next
      case enc: (Some v)
      then have "call_decode v = outcome_result out" by (rule decode_encode) simp
      with Some enc show ?thesis by (simp add: call send)
    qed
  qed
qed

section \<open>Over Redis\<close>

text \<open>
  \<open>send\<close>; the consumer loop of the service that reads the stream handles the entry; the
  reply loop gets the entries added to its stream; then the timer.
\<close>

definition added_to :: "string \<Rightarrow> effect \<Rightarrow> string list list" where
  "added_to stream e =
     (case e of ECmd (XAdd to args) \<Rightarrow> if to = stream then [drop 4 args] else [] | _ \<Rightarrow> [])"

definition redis_rpc_send ::
    "jsval \<Rightarrow> nat \<Rightarrow> redis_client \<times> string redis_server \<times> server \<Rightarrow>
     (thrown + jsval) \<times> redis_client \<times> string redis_server \<times> server" where
  "redis_rpc_send env timeoutMs = (\<lambda>(rc, rs, sv).
     case rc_send env rc of
       (Inl e, rc1) \<Rightarrow> (Inl e, rc1, rs, sv)
     | (Inr h, rc1) \<Rightarrow>
       (let (effs, sv1) =
          (case last (rc_cmds rc1) of
             XAdd stream args \<Rightarrow>
               (case find (\<lambda>n. commandStream (rs_keyPrefix rs) n = stream) (jm_keys (rs_dispatchers rs)) of
                  Some n \<Rightarrow>
                    (let ((effs, res), sv') = handle_entry (\<lambda>d env sv. dispatch sv d env) (\<lambda>cmd. Inr ())
                           rs n stream (consumerGroupName n) (''1-0'', tl args) sv in
                     (effs, sv'))
                | None \<Rightarrow> ([], sv))
           | _ \<Rightarrow> ([], sv));
            entries = map (Pair ''1-1'') (concat (map (added_to (rc_replyStream rc1)) effs));
            rc2 = snd (reply_entries entries rc1);
            rc3 = rc_timeout h rc2 in
        (case settled (rc_calls rc3) h of Some r \<Rightarrow> r | None \<Rightarrow> Inl (transport_error []),
         rc3, rs, sv1)))"

text \<open>What a handler's outcome is after the trip through JSON.\<close>

fun wire_result :: "outcome option \<Rightarrow> thrown + jsval" where
  "wire_result (Some (Answer x)) =
     (if x = JUndef
      then Inl (new_protocol_error (''invalid response envelope: ''
             @ ''-32600 Invalid Request: envelope must be request, notification, or response''))
      else Inr (json_norm x))"
| "wire_result (Some (Failure c m d)) = Inl (new_rpc_error c m (json_norm (js_default JNull d)))"
| "wire_result _ = Inl (transport_error ''call timeout'')"

fun outcome_ok :: "outcome \<Rightarrow> bool" where
  "outcome_ok (Answer x) = json_ok x"
| "outcome_ok (Failure c m d) = json_ok d"
| "outcome_ok NoAnswer = True"

text \<open>A request after the trip: its parameters are those the JSON text carries.\<close>

lemma request_over_json:
  assumes "SERVICE_RE s" "METHOD_RE m" "json_ok p"
  shows "\<exists>r. entry_envelope [''type'', ''rpc'', ''envelope'',
        json_text (build_request (full_method s m) p (JStr uuid)), ''reply-to'', to] = Some (Request r)
      \<and> rq_service r = s \<and> rq_method r = m \<and> rq_id r = JStr uuid
      \<and> rq_params r = js_nullish (json_norm p) (JObj [])"
proof -
  let ?env = "build_request (full_method s m) p (JStr uuid)"
  let ?wire = "if p = JUndef then [(''jsonrpc'', JStr ''2.0''), (''method'', JStr (full_method s m)), (''id'', JStr uuid)]
     else [(''jsonrpc'', JStr ''2.0''), (''method'', JStr (full_method s m)), (''params'', json_norm p), (''id'', JStr uuid)]"
  have ok: "json_ok ?env" using assms(3) by (simp add: build_request_def)
  have norm: "json_norm ?env = JObj ?wire" by (simp add: build_request_def)
  have has: "has_id ?wire" by (simp add: has_id_def)
  have par: "js_nullish (obj_get ?wire ''params'') (JObj []) = js_nullish (json_norm p) (JObj [])" by simp
  have "parse_object ?wire = parse_call ?wire (full_method s m) True"
    using has by (subst parse_object_call [of _ "full_method s m"]) simp_all
  also have "\<dots> = Inr (Request \<lparr>rq_service = s, rq_method = m, rq_fullMethod = full_method s m,
       rq_params = js_nullish (json_norm p) (JObj []), rq_id = JStr uuid, rq_raw = ?wire\<rparr>)"
    using par by (simp add: parse_call_full_method [OF assms(1,2)] Let_def)
  finally show ?thesis
    by (simp add: entry_envelope_def opt_or_def json_parse_text [OF ok] norm del: json_norm.simps)
qed

lemma decode_over_json:
  assumes "encode_outcome (JStr i) out = Some v" "outcome_ok out"
  shows "json_ok v" "js_get (json_norm v) ''id'' = JStr i" "json_norm v \<noteq> JNull"
    "call_decode (json_norm v) = wire_result (Some out)"
proof -
  have nd: "json_norm x \<noteq> JUndef" for x by (rule json_norm_defined)
  show "json_ok v" "js_get (json_norm v) ''id'' = JStr i" "json_norm v \<noteq> JNull"
    using assms by (cases out; auto simp: build_success_response_def build_error_response_def;
        cases "case out of Failure c m d \<Rightarrow> d"; auto)+
  show "call_decode (json_norm v) = wire_result (Some out)"
  proof (cases out)
    case (Answer x)
    with assms(1) have v: "v = build_success_response (JStr i) x" by simp
    show ?thesis
    proof (cases "x = JUndef")
      case True
      then show ?thesis
        by (simp add: v Answer build_success_response_def call_decode_def parse_object_def has_id_def
            invalid_request_def)
    next
      case False
      then have "json_norm v = build_success_response (JStr i) (json_norm x)"
        by (simp add: v build_success_response_def)
      then show ?thesis using False by (simp add: Answer call_decode_def parse_build_success)
    qed
  next
    case (Failure c m d)
    have dd: "js_default JNull d \<noteq> JUndef" by (cases d) auto
    then have "json_norm v = build_error_response (JStr i) c m (json_norm (js_default JNull d))"
      using assms(1) nd [of "js_default JNull d"] by (auto simp: Failure build_error_response_def)
    then show ?thesis
      by (simp add: Failure call_decode_def parse_build_error new_rpc_error_default)
  next
    case NoAnswer
    with assms(1) show ?thesis by simp
  qed
qed

lemma field_reply_to:
  "field_after ''reply-to'' [''type'', ''rpc'', ''envelope'', json_text (JObj ps), ''reply-to'', to] = Some to"
proof -
  have "json_text (JObj ps) \<noteq> ''reply-to''" by simp
  then show ?thesis by simp
qed

text \<open>The reply entry of an answered call settles that call.\<close>

lemma reply_settles_open:
  assumes "calls_inv c" "open_call (JStr uuid) (JStr uuid) c = (h, rc_calls rc1)"
    and "json_ok v" "js_get (json_norm v) ''id'' = JStr uuid" "json_norm v \<noteq> JNull"
  shows "settled (call_timeout h (rc_calls (snd (reply_entries
      [(eid, [''type'', ''rpc'', ''envelope'', json_text v])] rc1)))) h = Some (Inr (json_norm v))"
proof -
  have "rc_calls (snd (reply_entries [(eid, [''type'', ''rpc'', ''envelope'', json_text v])] rc1))
      = take_call (JStr uuid) (Inr (json_norm v)) (rc_calls rc1)"
    using assms(4,5) by (simp add: json_parse_text [OF assms(3)])
  then show ?thesis using timeout_after_open(2) [OF assms(1,2)] by simp
qed

lemma find_stream:
  assumes "jm_get ds s \<noteq> None" "SERVICE_RE s" "\<And>n. n \<in> set (jm_keys ds) \<Longrightarrow> no_colon n"
  shows "find (\<lambda>n. commandStream p n = commandStream p s) (jm_keys ds) = Some s"
proof -
  have iff: "commandStream p n = commandStream p s \<longleftrightarrow> n = s" if "n \<in> set (jm_keys ds)" for n
    using command_stream_inject [OF assms(3) [OF that] SERVICE_RE_no_colon [OF assms(2)]] by simp
  have mem: "s \<in> set (jm_keys ds)" using assms(1) by (simp add: jm_keys_get)
  have gen: "find P ns = Some s" if "s \<in> set ns" "\<And>n. n \<in> set ns \<Longrightarrow> P n \<longleftrightarrow> n = s" for P ns
    using that by (induction ns) auto
  show ?thesis by (rule gen [OF mem iff])
qed

lemma redis_rpc_send_result:
  assumes st: "rc_state rc = Started" "calls_inv (rc_calls rc)" "rc_instanceId rc \<noteq> []"
    and names: "SERVICE_RE s" "METHOD_RE m" "json_ok p"
    and disp: "jm_get (rs_dispatchers rs) s = Some s" "rs_keyPrefix rs = rc_keyPrefix rc"
    and keys: "\<And>n. n \<in> set (jm_keys (rs_dispatchers rs)) \<Longrightarrow> no_colon n"
    and run: "\<And>r. rq_method r = m \<Longrightarrow> rq_params r = js_nullish (json_norm p) (JObj []) \<Longrightarrow>
      rq_id r = JStr uuid \<Longrightarrow> fst (dispatch sv s (Request r))
        = map_option (\<lambda>out. Inr (encode_outcome (JStr uuid) out)) res"
    and ok: "\<And>out. res = Some out \<Longrightarrow> outcome_ok out"
  shows "\<exists>x. fst (redis_rpc_send (build_request (full_method s m) p (JStr uuid)) ms (rc, rs, sv)) = x
    \<and> (case x of Inl e \<Rightarrow> Inl e | Inr v \<Rightarrow> call_decode v) = wire_result res"
proof -
  let ?env = "build_request (full_method s m) p (JStr uuid)"
  let ?to = "rc_replyStream rc"
  obtain r0 where r0: "parse_envelope ?env = Inr (Request r0)" "rq_service r0 = s" "rq_id r0 = JStr uuid"
    using parse_build_request [OF names(1,2), of "JStr uuid" p] by simp
  obtain h c1 where o: "open_call (JStr uuid) (JStr uuid) (rc_calls rc) = (h, c1)" by (metis prod.exhaust)
  define rc1 where "rc1 = rc\<lparr>rc_calls := c1, rc_adds := rc_adds rc @ [JStr uuid],
    rc_cmds := rc_cmds rc @ [XAdd (commandStream (rc_keyPrefix rc) s) (request_fields ?env ?to)]\<rparr>"
  have send: "rc_send ?env rc = (Inr h, rc1)"
    using st(1) r0 o by (simp add: rc_send_def pending_key_def rc1_def)
  have rc1: "rc_calls rc1 = c1" "rc_replyStream rc1 = ?to"
    "last (rc_cmds rc1) = XAdd (commandStream (rc_keyPrefix rc) s) (request_fields ?env ?to)"
    by (simp_all add: rc1_def rc_replyStream_def)
  have flds: "tl (request_fields ?env ?to) = [''type'', ''rpc'', ''envelope'', json_text ?env, ''reply-to'', ?to]"
    by (simp add: request_fields_def)
  obtain r where r: "entry_envelope (tl (request_fields ?env ?to)) = Some (Request r)"
    "rq_service r = s" "rq_method r = m" "rq_id r = JStr uuid"
    "rq_params r = js_nullish (json_norm p) (JObj [])"
    using request_over_json [OF names, of uuid ?to] unfolding flds by blast
  have rt: "field_after ''reply-to'' (tl (request_fields ?env ?to)) = Some ?to"
    unfolding flds by (unfold build_request_def) (rule field_reply_to)
  have to: "?to \<noteq> []" using st(3) by (simp add: rc_replyStream_def replyStream_def)
  let ?run = "\<lambda>d env sv. dispatch sv d env"
  let ?cs = "commandStream (rc_keyPrefix rc) s"
  let ?he = "handle_entry ?run (\<lambda>cmd. Inr ()) rs s ?cs (consumerGroupName s)
    (''1-0'', tl (request_fields ?env ?to)) sv"
  have find: "find (\<lambda>n. commandStream (rs_keyPrefix rs) n = ?cs) (jm_keys (rs_dispatchers rs)) = Some s"
    unfolding disp(2) using disp(1) names(1) keys by (intro find_stream) auto
  have d: "fst (dispatch sv s (Request r)) = map_option (\<lambda>out. Inr (encode_outcome (JStr uuid) out)) res"
    using run r by blast
  have he: "?he = (case dispatch sv s (Request r) of
       (None, w') \<Rightarrow> (([EDispatch (Request r)], None), w')
     | (Some (Inl e), w') \<Rightarrow> (([EDispatch (Request r)], Some (Inl e)), w')
     | (Some (Inr reply), w') \<Rightarrow>
       (finish_entry (\<lambda>cmd. Inr ()) rs (XAck ?cs (consumerGroupName s) ''1-0'') (Request r) (Some ?to) reply, w'))"
    unfolding handle_entry_envelope [OF r(1)] rt by (simp add: disp(1))
  let ?entries = "map (Pair ''1-1'') (concat (map (added_to ?to) (fst (fst ?he))))"
  have result: "fst (redis_rpc_send ?env ms (rc, rs, sv)) =
    (case settled (call_timeout h (rc_calls (snd (reply_entries ?entries rc1)))) h of
       Some x \<Rightarrow> x | None \<Rightarrow> Inl (transport_error []))"
    by (simp add: redis_rpc_send_def send rc1 find rc_timeout_def split_beta Let_def)
  have o1: "open_call (JStr uuid) (JStr uuid) (rc_calls rc) = (h, rc_calls rc1)" using o rc1 by simp
  note timeout = timeout_after_open(1) [OF st(2) o1]
  show ?thesis
  proof (cases "\<exists>out v. res = Some out \<and> encode_outcome (JStr uuid) out = Some v")
    case True
    then obtain out v where out: "res = Some out" "encode_outcome (JStr uuid) out = Some v" by blast
    note dec = decode_over_json [OF out(2) ok [OF out(1)]]
    obtain sv1 where dp: "dispatch sv s (Request r) = (Some (Inr (Some v)), sv1)"
      using d out by (cases "dispatch sv s (Request r)") auto
    obtain ch rest where ch: "?to = ch # rest" using to by (cases ?to) auto
    have e: "?entries = [(''1-1'', [''type'', ''rpc'', ''envelope'', json_text v])]"
      unfolding he dp by (simp add: finish_entry_def ch ack_entry_def reply_cmd_def added_to_def)
    have "fst (redis_rpc_send ?env ms (rc, rs, sv)) = Inr (json_norm v)"
      unfolding result e using reply_settles_open [OF st(2) o1 dec(1-3)] by simp
    then show ?thesis using dec(4) out(1) by auto
  next
    case False
    have none: "res = None \<or> res = Some NoAnswer"
    proof (cases res)
      case (Some out)
      with False have "encode_outcome (JStr uuid) out = None" by auto
      with Some show ?thesis by (cases out) auto
    qed simp
    have "fst (fst ?he) = [EDispatch (Request r)]
        \<or> fst (fst ?he) = [EDispatch (Request r), ECmd (XAck ?cs (consumerGroupName s) ''1-0'')]"
      using none d unfolding he by (cases "dispatch sv s (Request r)")
        (auto simp: finish_entry_def ack_entry_def split: list.split)
    then have e: "?entries = []" by (auto simp: added_to_def)
    have "fst (redis_rpc_send ?env ms (rc, rs, sv)) = Inl (transport_error ''call timeout'')"
      unfolding result e using timeout by simp
    with none show ?thesis by auto
  qed
qed

lemma redis_call_lemma:
  assumes st: "rc_state rc = Started" "calls_inv (rc_calls rc)" "rc_instanceId rc \<noteq> []"
    and names: "SERVICE_RE s" "METHOD_RE m" "json_ok p"
    and disp: "jm_get (rs_dispatchers rs) s = Some s" "rs_keyPrefix rs = rc_keyPrefix rc"
    and keys: "\<And>n. n \<in> set (jm_keys (rs_dispatchers rs)) \<Longrightarrow> no_colon n"
    and entry: "jm_get (sv_services sv) s = Some \<lparr>se_contract = c, se_handlers = hs\<rparr>"
    and good: "good_service c hs"
    and own: "m \<notin> set object_prototype_names \<or> jm_get (ct_methods c) m \<noteq> None"
    and ok: "\<And>out. call_spec c hs m (js_nullish (json_norm p) (JObj [])) = Some out \<Longrightarrow> outcome_ok out"
  shows "fst (client_call redis_rpc_send cl uuid s m p ms (rc, rs, sv)) =
    wire_result (call_spec c hs m (js_nullish (json_norm p) (JObj [])))"
proof -
  let ?env = "build_request (full_method s m) p (JStr uuid)"
  let ?ms = "case ms of None \<Rightarrow> cl_timeout cl | Some n \<Rightarrow> n"
  have run: "fst (dispatch sv s (Request r)) =
      map_option (\<lambda>out. Inr (encode_outcome (JStr uuid) out)) (call_spec c hs m (js_nullish (json_norm p) (JObj [])))"
    if "rq_method r = m" "rq_params r = js_nullish (json_norm p) (JObj [])" "rq_id r = JStr uuid" for r
    using dispatch_refines_lemma [OF entry good, of r] own that by simp
  from redis_rpc_send_result [OF st names disp keys run ok, of ?ms]
  have x: "(case fst (redis_rpc_send ?env ?ms (rc, rs, sv)) of Inl e \<Rightarrow> Inl e | Inr v \<Rightarrow> call_decode v)
      = wire_result (call_spec c hs m (js_nullish (json_norm p) (JObj [])))" by blast
  have "fst (client_call redis_rpc_send cl uuid s m p ms (rc, rs, sv)) =
      (case fst (redis_rpc_send ?env ?ms (rc, rs, sv)) of Inl e \<Rightarrow> Inl e | Inr v \<Rightarrow> call_decode v)"
    unfolding client_call_names [OF names(1,2)]
    by (cases "redis_rpc_send ?env ?ms (rc, rs, sv)") (auto split: sum.split)
  with x show ?thesis by simp
qed

section \<open>A server start that fails\<close>

text \<open>The registration of a core's dispatchers on the bus through its transport.\<close>

definition mem_reg :: "string \<Rightarrow> string mem \<Rightarrow> (thrown + unit) \<times> string mem" where
  "mem_reg n = mem_register n n"

lemma mem_reg_free:
  "bus_lookup b n = None \<Longrightarrow> mem_reg n (t, b) =
     (Inr (), t\<lparr>mt_services := List.insert n (mt_services t)\<rparr>, jm_set b n n)"
  by (simp add: mem_reg_def mem_register_def bus_register_def bus_lookup_def jm_has_def)

lemma mem_reg_taken:
  "bus_lookup b n \<noteq> None \<Longrightarrow> is_Inl (fst (mem_reg n (t, b))) \<and> snd (mem_reg n (t, b)) = (t, b)"
  by (auto simp: mem_reg_def mem_register_def bus_register_def bus_lookup_def jm_has_def)

lemma register_until_taken:
  assumes "distinct (as @ n # bs)" "\<And>a. a \<in> set as \<Longrightarrow> bus_lookup b a = None" "bus_lookup b n \<noteq> None"
  shows "\<exists>e t' b'. register_dispatchers mem_reg (as @ n # bs) (t, b) = (Inl e, t', b')
    \<and> (\<forall>a \<in> set as. bus_lookup b' a = Some a) \<and> (\<forall>m. bus_lookup b m \<noteq> None \<longrightarrow> bus_lookup b' m = bus_lookup b m)"
  using assms
proof (induction as arbitrary: t b)
  case Nil
  then show ?case using mem_reg_taken [of b n t] by (cases "mem_reg n (t, b)") (auto elim: is_Inl.elims)
next
  case (Cons a as)
  let ?b = "jm_set b a a"
  have free: "bus_lookup b a = None" using Cons.prems(2) by simp
  have look: "bus_lookup ?b m = (if m = a then Some a else bus_lookup b m)" for m
    by (simp add: bus_lookup_def)
  have fresh: "bus_lookup ?b x = None" if "x \<in> set as" for x
    using that Cons.prems by (auto simp: look)
  have taken: "bus_lookup ?b n \<noteq> None" using Cons.prems by (auto simp: look)
  have dist: "distinct (as @ n # bs)" using Cons.prems(1) by simp
  obtain e t' b' where step:
    "register_dispatchers mem_reg (as @ n # bs) (t\<lparr>mt_services := List.insert a (mt_services t)\<rparr>, ?b) = (Inl e, t', b')"
    "\<forall>a \<in> set as. bus_lookup b' a = Some a" "\<forall>m. bus_lookup ?b m \<noteq> None \<longrightarrow> bus_lookup b' m = bus_lookup ?b m"
    using Cons.IH [OF dist fresh taken] by blast
  moreover from step(3) have "bus_lookup b' a = Some a" by (simp add: look)
  moreover have "bus_lookup b' m = bus_lookup b m" if "bus_lookup b m \<noteq> None" for m
    using step(3) that free by (auto simp: look split: if_split_asm)
  ultimately show ?case by (simp add: mem_reg_free [OF free])
qed

section \<open>Properties\<close>


text \<open>A client and a server as the package builds them, registered and started on one bus.\<close>

definition calc_stack :: "client \<times> string mem \<times> server" where
  "calc_stack =
     (let (sv, ts) = MemoryRpcServer;
          sv1 = snd (register_contract calc_contract calc_handlers sv);
          (sv2, ts2, b) = snd (server_start mem_reg mem_start (sv1, ts, []));
          (cl, tc) = MemoryRpcClient None;
          (cl2, tc2, b2) = snd (client_start mem_start (cl, tc, b)) in
      (cl2, (tc2, b2), sv2))"

lemma calc_stack:
  "calc_stack = (\<lparr>cl_state = Started, cl_timeout = 30000\<rparr>,
     (new_mem\<lparr>mt_state := Started\<rparr>, [(''calc'', ''calc'')]), calc_server\<lparr>sv_state := Started\<rparr>)"
  by (simp add: calc_stack_def MemoryRpcServer_def MemoryRpcClient_def calc_server_def server_start_def
      client_start_def new_client_def opt_or_def mem_start_def new_mem_def register_contract_def registerService_def
      new_server_def jm_has_def mem_reg_def mem_register_def bus_register_def jm_keys_def calc_contract_def)


text \<open>
  C2: A call through the client core, both Redis transports and the server core gives what the
  abstract service says for the parameters as JSON carries them, itself carried back by JSON:
  the same result or error up to that encoding, a protocol error when the result is
  \<open>undefined\<close>, which JSON drops, and the timeout when no reply comes.
\<close>

theorem redis_call_end_to_end:
  assumes "rc_state rc = Started" "calls_inv (rc_calls rc)" "rc_instanceId rc \<noteq> []"
    and "SERVICE_RE s" "METHOD_RE m" "json_ok p"
    and "jm_get (rs_dispatchers rs) s = Some s" "rs_keyPrefix rs = rc_keyPrefix rc"
    and "\<And>n. n \<in> set (jm_keys (rs_dispatchers rs)) \<Longrightarrow> no_colon n"
    and "jm_get (sv_services sv) s = Some \<lparr>se_contract = c, se_handlers = hs\<rparr>" "good_service c hs"
    and "m \<notin> set object_prototype_names \<or> jm_get (ct_methods c) m \<noteq> None"
    and "\<And>out. call_spec c hs m (js_nullish (json_norm p) (JObj [])) = Some out \<Longrightarrow> outcome_ok out"
  shows "fst (client_call redis_rpc_send cl uuid s m p ms (rc, rs, sv)) =
    wire_result (call_spec c hs m (js_nullish (json_norm p) (JObj [])))"
  using assms by (rule redis_call_lemma)

theorem redis_call_end_to_end_witness:
  "fst (client_call redis_rpc_send (new_client None) ''u1'' ''calc'' ''add''
     (JObj [(''a'', JNum 2), (''b'', JNum 3), (''c'', JUndef)]) None
     (rc_sample, rs_sample, calc_server)) = Inr (JNum 5)"
proof -
  let ?p = "JObj [(''a'', JNum 2), (''b'', JNum 3), (''c'', JUndef)]"
  have rc: "rc_instanceId rc_sample \<noteq> []" "rc_keyPrefix rc_sample = ''app''" by code_simp+
  have own: "''add'' \<notin> set object_prototype_names \<or> jm_get (ct_methods calc_contract) ''add'' \<noteq> None"
    by (simp add: calc_methods)
  have keys: "\<And>n. n \<in> set (jm_keys (rs_dispatchers rs_sample)) \<Longrightarrow> no_colon n"
    by (simp add: rs_sample_facts no_colon_def)
  have spec: "call_spec calc_contract calc_handlers ''add'' (js_nullish (json_norm ?p) (JObj [])) = Some (Answer (JNum 5))"
    using calc_add_spec [of 2 3] by simp
  have ok: "\<And>out. call_spec calc_contract calc_handlers ''add'' (js_nullish (json_norm ?p) (JObj [])) = Some out \<Longrightarrow> outcome_ok out"
    unfolding spec by auto
  have same: "rs_keyPrefix rs_sample = rc_keyPrefix rc_sample" by (simp add: rc rs_sample_facts)
  have jo: "json_ok ?p" by simp
  show ?thesis
    using redis_call_end_to_end [OF rc_sample_facts(2) rc_sample_inv rc(1) calc_names(1,2) jo
        rs_sample_facts(1) same keys calc_server_entry calc_good own ok]
    unfolding spec by simp
qed

text \<open>
  When \<open>start\<close> of the server core fails because one of its services is already on the bus,
  the services registered before it stay on the bus, and stopping the core does not take them
  off again, since the core never became started.
\<close>

lemma failed_start_leaves_services:
  assumes "sv_state sv = Idle" "jm_keys (sv_services sv) = as @ n # bs" "distinct (as @ n # bs)"
    and "\<And>a. a \<in> set as \<Longrightarrow> bus_lookup b a = None" "bus_lookup b n \<noteq> None"
  shows "is_Inl (fst (server_start mem_reg mem_start (sv, t, b))) \<and>
    (\<forall>a \<in> set as. bus_lookup (snd (snd (snd (fst (server_stop mem_stop inflight graceMs now
        (snd (server_start mem_reg mem_start (sv, t, b)))))))) a = Some a)"
proof -
  obtain e t' b' where r: "register_dispatchers mem_reg (as @ n # bs) (t, b) = (Inl e, t', b')"
    "\<forall>a \<in> set as. bus_lookup b' a = Some a"
    using register_until_taken [OF assms(3,4,5)] by blast
  have st: "server_start mem_reg mem_start (sv, t, b) = (Inl e, sv, t', b')"
    using assms(1,2) r(1) by (simp add: server_start_def)
  show ?thesis
    using r(2) assms(1) by (simp add: st server_stop_def)
qed

definition two_services :: server where
  "two_services = snd (registerService ''other'' \<lparr>se_contract = calc_contract, se_handlers = calc_handlers\<rparr> calc_server)"

end
