(* ===== verification/Backoff.thy ===== *)
theory Backoff
  imports Complex_Main
begin

text \<open>
  \<open>ts/packages/over-redis/src/backoff.ts\<close>: the exponential back-off. The closure's variable
  \<open>current\<close> is the state; \<open>Math.random\<close> is an argument. Numbers are rationals, so the
  rounding of floating point arithmetic is not modelled.
\<close>

record backoff_opts =
  bo_initialMs :: rat
  bo_maxMs :: rat
  bo_factor :: "rat option"
  bo_jitter :: "bool option"

definition bo_the_factor :: "backoff_opts \<Rightarrow> rat" where
  "bo_the_factor opts = (case bo_factor opts of None \<Rightarrow> 2 | Some f \<Rightarrow> f)"

definition expBackoff :: "backoff_opts \<Rightarrow> rat" where
  "expBackoff opts = bo_initialMs opts"

definition backoff_next :: "backoff_opts \<Rightarrow> rat \<Rightarrow> rat \<Rightarrow> rat \<times> rat" where
  "backoff_next opts random current =
     (let value = current;
          current' = min (bo_maxMs opts) (current * bo_the_factor opts) in
      (if (case bo_jitter opts of None \<Rightarrow> True | Some b \<Rightarrow> b)
       then of_int \<lfloor>value * (1/2 + random * (1/2))\<rfloor> else value, current'))"

text \<open>\<open>resetable\<close>: the closure it keeps, and the two operations on it.\<close>

datatype backoff_op = NextDelay rat | Reset

fun resetable_step :: "backoff_opts \<Rightarrow> backoff_op \<Rightarrow> rat \<Rightarrow> rat option \<times> rat" where
  "resetable_step opts (NextDelay random) current =
     (let (v, c) = backoff_next opts random current in (Some v, c))"
| "resetable_step opts Reset current = (None, expBackoff opts)"

fun resetable_run :: "backoff_opts \<Rightarrow> backoff_op list \<Rightarrow> rat \<Rightarrow> rat option list" where
  "resetable_run opts [] current = []"
| "resetable_run opts (p # ps) current =
     (let (v, c) = resetable_step opts p current in v # resetable_run opts ps c)"

section \<open>The delays\<close>

text \<open>The state after \<open>n\<close> delays.\<close>

fun backoff_state :: "backoff_opts \<Rightarrow> nat \<Rightarrow> rat" where
  "backoff_state opts 0 = expBackoff opts"
| "backoff_state opts (Suc n) = snd (backoff_next opts 0 (backoff_state opts n))"

lemma backoff_next_state: "snd (backoff_next opts r c) = min (bo_maxMs opts) (c * bo_the_factor opts)"
  by (simp add: backoff_next_def Let_def)

lemma backoff_state_closed:
  assumes "0 \<le> bo_maxMs opts" "1 \<le> bo_the_factor opts" "0 \<le> bo_initialMs opts"
    and "0 < n"
  shows "backoff_state opts n = min (bo_maxMs opts) (bo_initialMs opts * bo_the_factor opts ^ n)"
  using assms(4)
proof (induction n)
  case 0
  then show ?case by simp
next
  case (Suc n)
  let ?m = "bo_maxMs opts" and ?f = "bo_the_factor opts" and ?i = "bo_initialMs opts"
  have grow: "x \<le> x * ?f" if "0 \<le> x" for x
    using mult_left_mono [OF assms(2) that] by simp
  have step: "min ?m (min ?m x * ?f) = min ?m (x * ?f)" if x: "0 \<le> x" for x
  proof (cases "x \<le> ?m")
    case True
    then show ?thesis by simp
  next
    case False
    then have "?m \<le> x * ?f" using grow [OF x] by simp
    with False show ?thesis using grow [OF assms(1)] by (simp add: min_def)
  qed
  show ?case
  proof (cases n)
    case 0
    then show ?thesis by (simp add: backoff_next_state expBackoff_def)
  next
    case (Suc k)
    have "0 \<le> ?i * ?f ^ n" using assms by simp
    note st = step [OF this]
    have "backoff_state opts (Suc n) = min ?m (backoff_state opts n * ?f)"
      by (simp only: backoff_state.simps backoff_next_state)
    also have "\<dots> = min ?m (min ?m (?i * ?f ^ n) * ?f)" using Suc.IH Suc by simp
    also have "\<dots> = min ?m (?i * ?f ^ Suc n)" unfolding st by (simp only: power_Suc2 mult.assoc)
    finally show ?thesis .
  qed
qed

lemma backoff_jitter_bounds:
  assumes "0 \<le> r" "r < 1" "0 \<le> c"
  shows "of_int \<lfloor>c / 2\<rfloor> \<le> fst (backoff_next opts r c)" "fst (backoff_next opts r c) \<le> c"
proof -
  have lo: "c / 2 \<le> c * (1/2 + r * (1/2))"
    using assms mult_nonneg_nonneg [of c r] by (simp add: distrib_left)
  have "c * (1/2 + r * (1/2)) \<le> c * 1"
    using assms by (intro mult_left_mono) auto
  then have hi: "of_int \<lfloor>c * (1/2 + r * (1/2))\<rfloor> \<le> c"
    using of_int_floor_le [of "c * (1/2 + r * (1/2))"] by linarith
  have half: "of_int \<lfloor>c / 2\<rfloor> \<le> c"
    using assms(3) of_int_floor_le [of "c / 2"] by linarith
  show "of_int \<lfloor>c / 2\<rfloor> \<le> fst (backoff_next opts r c)"
    using floor_mono [OF lo] half by (auto simp: backoff_next_def Let_def split: option.split)
  show "fst (backoff_next opts r c) \<le> c"
    using hi by (auto simp: backoff_next_def Let_def split: option.split)
qed

text \<open>After a reset the delays start over, whatever went before.\<close>

lemma resetable_reset:
  "resetable_run opts (ps @ Reset # qs) c
     = resetable_run opts ps c @ None # resetable_run opts qs (expBackoff opts)"
  by (induction ps arbitrary: c) (simp_all add: split_beta)

section \<open>Properties\<close>

text \<open>
  Without jitter the \<open>n\<close>-th delay after the first is the initial delay times the factor to
  the power \<open>n\<close>, cut off at the maximum.
\<close>

lemma backoff_delays:
  assumes "0 \<le> bo_maxMs opts" "1 \<le> bo_the_factor opts" "0 \<le> bo_initialMs opts" "0 < n"
    and "bo_jitter opts = Some False"
  shows "fst (backoff_next opts r (backoff_state opts n))
    = min (bo_maxMs opts) (bo_initialMs opts * bo_the_factor opts ^ n)"
  using backoff_state_closed [OF assms(1-4)] assms(5) by (simp add: backoff_next_def Let_def)

end
