(* ===== verification/CaseConv.thy ===== *)
theory CaseConv
  imports Envelope
begin

text \<open>
  \<open>ts/packages/codegen/src/case.ts\<close>: the three case conversions. A global regular
  expression replacement is a recursive scan that goes on behind each match. The lemmas say
  which names survive the trip to snake case and back, and that the converted names are
  identifiers.
\<close>

definition is_lower_digit :: "char \<Rightarrow> bool" where
  "is_lower_digit c \<longleftrightarrow> is_lower c \<or> is_digit c"

definition underscore :: "char" where
  "underscore = CHR ''_''"

section \<open>The conversions\<close>

text \<open>\<open>.replace(/([a-z0-9])([A-Z])/g, '$1_$2')\<close>\<close>

fun split_lower_upper :: "string \<Rightarrow> string" where
  "split_lower_upper (c # d # r) =
     (if is_lower_digit c \<and> is_upper d then c # underscore # d # split_lower_upper r
      else c # split_lower_upper (d # r))"
| "split_lower_upper s = s"

text \<open>\<open>.replace(/([A-Z])([A-Z][a-z])/g, '$1_$2')\<close>\<close>

fun split_upper_word :: "string \<Rightarrow> string" where
  "split_upper_word (c # d # e # r) =
     (if is_upper c \<and> is_upper d \<and> is_lower e then c # underscore # d # e # split_upper_word r
      else c # split_upper_word (d # e # r))"
| "split_upper_word s = s"

text \<open>\<open>.replace(/([A-Z])([A-Z])/g, '$1_$2')\<close>\<close>

fun split_upper_upper :: "string \<Rightarrow> string" where
  "split_upper_upper (c # d # r) =
     (if is_upper c \<and> is_upper d then c # underscore # d # split_upper_upper r
      else c # split_upper_upper (d # r))"
| "split_upper_upper s = s"

definition camelToSnake :: "string \<Rightarrow> string" where
  "camelToSnake s = map to_lower (split_upper_upper (split_upper_word (split_lower_upper s)))"

fun snakeToCamel :: "string \<Rightarrow> string" where
  "snakeToCamel (c # d # r) =
     (if c = underscore \<and> is_lower_digit d then to_upper d # snakeToCamel r
      else c # snakeToCamel (d # r))"
| "snakeToCamel s = s"

fun upper_first :: "string \<Rightarrow> string" where
  "upper_first [] = []"
| "upper_first (c # cs) = to_upper c # cs"

definition kebabAndCamelToPascal :: "string \<Rightarrow> string" where
  "kebabAndCamelToPascal s = js_join [] (map upper_first (js_split (CHR ''-'') s))"

section \<open>Round trip\<close>

text \<open>No two adjacent upper case letters.\<close>

fun no_upper_pair :: "string \<Rightarrow> bool" where
  "no_upper_pair (c # d # r) = (\<not> (is_upper c \<and> is_upper d) \<and> no_upper_pair (d # r))"
| "no_upper_pair s = True"

definition alnum :: "char \<Rightarrow> bool" where
  "alnum c \<longleftrightarrow> is_lower c \<or> is_upper c \<or> is_digit c"

lemma underscore_not [simp]: "\<not> is_lower underscore" "\<not> is_upper underscore" "\<not> is_digit underscore"
  by (simp_all add: underscore_def char_simps)

lemma alnum_ne: "alnum c \<Longrightarrow> c \<noteq> underscore"
  by (auto simp: alnum_def)

lemma lower_digit_not_upper: "is_lower_digit c \<Longrightarrow> \<not> is_upper c"
  by (auto simp: is_lower_digit_def lower_not_upper dest: digit_not_letter)

lemma alnum_cases: "alnum c \<longleftrightarrow> is_lower_digit c \<or> is_upper c"
  by (auto simp: alnum_def is_lower_digit_def)

lemma METHOD_RE_alnum: "METHOD_RE s \<longleftrightarrow> s \<noteq> [] \<and> is_lower (hd s) \<and> list_all alnum s"
  by (cases s) (auto simp: alnum_def[abs_def])

lemma no_pair_id:
  "no_upper_pair s \<Longrightarrow> split_upper_word s = s" "no_upper_pair s \<Longrightarrow> split_upper_upper s = s"
proof -
  show "no_upper_pair s \<Longrightarrow> split_upper_word s = s"
    by (induction s rule: split_upper_word.induct) auto
  show "no_upper_pair s \<Longrightarrow> split_upper_upper s = s"
    by (induction s rule: split_upper_upper.induct) auto
qed

lemma no_pair_underscore: "no_upper_pair (underscore # s) \<longleftrightarrow> no_upper_pair s"
  by (cases s) simp_all

lemma split_lower_upper_hd: "split_lower_upper (c # s) = c # tl (split_lower_upper (c # s))"
  by (cases s) simp_all

lemma hd_split_lower_upper [simp]: "hd (split_lower_upper (c # s)) = c"
  by (cases s) auto

lemma no_pair_split: "no_upper_pair s \<Longrightarrow> no_upper_pair (split_lower_upper s)"
proof (induction s rule: split_lower_upper.induct)
  case (1 c d r)
  show ?case
  proof (cases "is_lower_digit c \<and> is_upper d")
    case True
    have r: "no_upper_pair (split_lower_upper r)" using 1 True by (cases r) auto
    have "no_upper_pair (d # split_lower_upper r)"
    proof (cases r)
      case Nil
      then show ?thesis by simp
    next
      case (Cons e q)
      obtain p where "split_lower_upper r = e # p" using split_lower_upper_hd Cons by blast
      with r Cons "1.prems" True show ?thesis by simp
    qed
    with True show ?thesis by (simp add: no_pair_underscore lower_digit_not_upper)
  next
    case False
    with 1 have IH: "no_upper_pair (split_lower_upper (d # r))" by simp
    obtain q where q: "split_lower_upper (d # r) = d # q" using split_lower_upper_hd by blast
    from IH "1.prems" show ?thesis by (simp add: False q)
  qed
qed auto

lemma snakeToCamel_plain: "c \<noteq> underscore \<Longrightarrow> snakeToCamel (c # s) = c # snakeToCamel s"
  by (cases s) auto

text \<open>After a lower case letter or digit every upper case letter has its underscore.\<close>

lemma camel_back:
  assumes "list_all alnum (c # s)" "no_upper_pair (c # s)" "is_lower_digit c"
  shows "snakeToCamel (map to_lower (split_lower_upper (c # s))) = c # s"
  using assms
proof (induction "length s" arbitrary: c s rule: less_induct)
  case less
  have c: "to_lower c = c" "c \<noteq> underscore"
    using less.prems by (auto simp: lower_digit_not_upper alnum_ne)
  show ?case
  proof (cases s)
    case Nil
    with c show ?thesis by simp
  next
    case (Cons d r)
    show ?thesis
    proof (cases "is_upper d")
      case False
      then have d: "is_lower_digit d" using less.prems Cons by (simp add: alnum_cases)
      then have "snakeToCamel (map to_lower (split_lower_upper (d # r))) = d # r"
        using less.hyps [of r d] less.prems Cons by simp
      with False c Cons show ?thesis by (simp add: snakeToCamel_plain)
    next
      case True
      then have d: "is_lower_digit (to_lower d)" "to_upper (to_lower d) = d"
        by (simp_all add: is_lower_digit_def)
      have step: "snakeToCamel (map to_lower (split_lower_upper (c # s)))
          = c # d # snakeToCamel (map to_lower (split_lower_upper r))"
        using True less.prems(3) c d by (simp add: Cons snakeToCamel_plain)
      show ?thesis
      proof (cases r)
        case Nil
        then show ?thesis unfolding step by (simp add: \<open>s = d # r\<close>)
      next
        case (Cons e q)
        then have "is_lower_digit e" using less.prems True \<open>s = d # r\<close> by (simp add: alnum_cases)
        then have "snakeToCamel (map to_lower (split_lower_upper (e # q))) = e # q"
          using less.hyps [of q e] less.prems Cons \<open>s = d # r\<close> by simp
        then show ?thesis unfolding step by (simp add: Cons \<open>s = d # r\<close>)
      qed
    qed
  qed
qed

lemma camelToSnake_back:
  assumes "METHOD_RE s" "no_upper_pair s"
  shows "snakeToCamel (camelToSnake s) = s"
proof -
  from assms obtain c r where s: "s = c # r" "is_lower c" "list_all alnum (c # r)"
    by (cases s) (auto simp: METHOD_RE_alnum)
  have "camelToSnake s = map to_lower (split_lower_upper s)"
    using assms(2) by (simp add: camelToSnake_def no_pair_id no_pair_split)
  then show ?thesis using camel_back [of c r] assms(2) s by (simp add: is_lower_digit_def)
qed

section \<open>Identifiers\<close>

text \<open>\<open>[A-Za-z_][A-Za-z0-9_]*\<close>\<close>

fun is_identifier :: "string \<Rightarrow> bool" where
  "is_identifier [] = False"
| "is_identifier (c # cs) =
     ((is_lower c \<or> is_upper c \<or> c = underscore)
      \<and> list_all (\<lambda>d. alnum d \<or> d = underscore) (c # cs))"

definition snake_char :: "char \<Rightarrow> bool" where
  "snake_char c \<longleftrightarrow> is_lower_digit c \<or> c = underscore"

lemma split_set:
  "set (split_lower_upper s) \<subseteq> insert underscore (set s)"
  "set (split_upper_word s) \<subseteq> insert underscore (set s)"
  "set (split_upper_upper s) \<subseteq> insert underscore (set s)"
proof -
  show "set (split_lower_upper s) \<subseteq> insert underscore (set s)"
    by (induction s rule: split_lower_upper.induct) auto
  show "set (split_upper_word s) \<subseteq> insert underscore (set s)"
    by (induction s rule: split_upper_word.induct) auto
  show "set (split_upper_upper s) \<subseteq> insert underscore (set s)"
    by (induction s rule: split_upper_upper.induct) auto
qed

lemma to_lower_snake: "alnum c \<or> c = underscore \<Longrightarrow> snake_char (to_lower c)"
  by (cases "is_upper c") (auto simp: snake_char_def is_lower_digit_def alnum_def)

lemma camelToSnake_chars:
  assumes "list_all (\<lambda>c. alnum c \<or> c = underscore) s"
  shows "list_all snake_char (camelToSnake s)"
proof -
  have "set (split_upper_upper (split_upper_word (split_lower_upper s))) \<subseteq> insert underscore (set s)"
    using split_set by blast
  with assms show ?thesis
    unfolding camelToSnake_def list_all_iff by (auto intro!: to_lower_snake)
qed

lemma split_hd:
  "split_lower_upper (c # s) = c # tl (split_lower_upper (c # s))"
  "split_upper_word (c # s) = c # tl (split_upper_word (c # s))"
  "split_upper_upper (c # s) = c # tl (split_upper_upper (c # s))"
proof -
  show "split_lower_upper (c # s) = c # tl (split_lower_upper (c # s))" by (rule split_lower_upper_hd)
  show "split_upper_word (c # s) = c # tl (split_upper_word (c # s))"
    by (cases s; cases "tl s") auto
  show "split_upper_upper (c # s) = c # tl (split_upper_upper (c # s))" by (cases s) auto
qed

lemma camelToSnake_hd: "\<exists>t. camelToSnake (c # s) = to_lower c # t"
proof -
  obtain s1 where 1: "split_lower_upper (c # s) = c # s1" using split_hd(1) by blast
  obtain s2 where 2: "split_upper_word (c # s1) = c # s2" using split_hd(2) by blast
  obtain s3 where 3: "split_upper_upper (c # s2) = c # s3" using split_hd(3) by blast
  show ?thesis unfolding camelToSnake_def 1 2 3 by simp
qed

lemma snake_char_identifier:
  "list_all snake_char s \<Longrightarrow> s \<noteq> [] \<Longrightarrow> is_lower (hd s) \<Longrightarrow> is_identifier s"
  by (cases s) (auto simp: snake_char_def is_lower_digit_def alnum_def list_all_iff)

lemma camelToSnake_identifier:
  assumes "METHOD_RE s"
  shows "is_identifier (camelToSnake s) \<and> list_all snake_char (camelToSnake s)"
proof -
  from assms obtain c r where s: "s = c # r" "is_lower c" "list_all alnum (c # r)"
    by (cases s) (auto simp: METHOD_RE_alnum)
  obtain t where t: "camelToSnake s = to_lower c # t" using camelToSnake_hd s(1) by blast
  have "list_all snake_char (camelToSnake s)"
    using s(3) by (intro camelToSnake_chars) (auto simp: s(1) list_all_iff)
  moreover from this have "is_identifier (camelToSnake s)"
    using s(2) by (intro snake_char_identifier) (auto simp: t lower_not_upper)
  ultimately show ?thesis by simp
qed

section \<open>Pascal case\<close>

lemma js_join_nil: "js_join [] ss = concat ss"
  by (induction "[] :: string" ss rule: js_join.induct) simp_all

lemma js_split_chars: "t \<in> set (js_split c s) \<Longrightarrow> set t \<subseteq> set s"
proof (induction s arbitrary: t)
  case (Cons x xs)
  then show ?case by (auto split: if_splits list.splits) blast+
qed simp

lemma alnum_to_upper: "alnum c \<Longrightarrow> alnum (to_upper c)"
  by (cases "is_lower c") (simp_all add: alnum_def)

lemma upper_first_chars:
  "list_all alnum s \<Longrightarrow> list_all alnum (upper_first s)"
  by (cases s) (auto simp: alnum_to_upper list_all_iff)

lemma pascal_identifier:
  assumes "SERVICE_RE s"
  shows "is_identifier (kebabAndCamelToPascal s) \<and> is_upper (hd (kebabAndCamelToPascal s))
    \<and> list_all alnum (kebabAndCamelToPascal s)"
proof -
  from assms obtain c r where s: "s = c # r" "is_lower c"
    and all: "\<forall>d \<in> set s. alnum d \<or> d = CHR ''-''"
    by (cases s) (auto simp: list_all_iff alnum_def)
  have "list_all alnum (upper_first t)" if "t \<in> set (js_split (CHR ''-'') s)" for t
    using js_split_chars [OF that] js_split_free [OF that] all
    by (intro upper_first_chars) (auto simp: list_all_iff)
  then have al: "list_all alnum (kebabAndCamelToPascal s)"
    by (auto simp: kebabAndCamelToPascal_def js_join_nil list_all_iff)
  have "c \<noteq> CHR ''-''" using s(2) by (auto simp: char_simps)
  then obtain t ts where "js_split (CHR ''-'') s = (c # t) # ts"
    by (cases "js_split (CHR ''-'') r") (auto simp: s(1))
  then have "kebabAndCamelToPascal s = to_upper c # t @ concat (map upper_first ts)"
    by (simp add: kebabAndCamelToPascal_def js_join_nil)
  with al s(2) show ?thesis
    by (auto simp: list_all_iff)
qed

section \<open>Properties\<close>

text \<open>
  C35: The Python name of a method determines the method: going to snake case and back gives the
  wire name again, for every valid method name without two adjacent capitals.
\<close>

theorem snake_case_roundtrip:
  assumes "METHOD_RE s" "no_upper_pair s"
  shows "snakeToCamel (camelToSnake s) = s"
  using assms by (rule camelToSnake_back)

theorem snake_case_roundtrip_witness:
  "snakeToCamel (camelToSnake ''getUser2Name'') = ''getUser2Name''"
  using snake_case_roundtrip [of "''getUser2Name''"] by (simp add: char_simps)

text \<open>
  With adjacent capitals the Python names are not what the comment beside the code says, and
  two different valid method names can get the same one.
\<close>

lemma snake_case_collision:
  "METHOD_RE ''aBCD'' \<and> METHOD_RE ''aBCd'' \<and> camelToSnake ''aBCD'' = ''a_b_cd''
   \<and> camelToSnake ''aBCd'' = ''a_b_cd'' \<and> camelToSnake ''ABC'' = ''a_bc''"
  by code_simp

end
