(* ===== verification/Lower.thy ===== *)
theory Lower
  imports Contracts Json CaseConv "HOL-Library.Multiset"
begin

text \<open>
  The front end of the code generator, \<open>ts/packages/codegen/src\<close>: \<open>ir.ts\<close>, \<open>load.ts\<close> and
  \<open>lower.ts\<close>. The file system, \<open>tsImport\<close>, \<open>localeCompare\<close>, \<open>zodToJsonSchema\<close> and the
  SHA-256 digest are arguments. The lemmas show that the order of the output does not depend
  on the order in which the directory is read, and what every lowered contract satisfies.
\<close>

section \<open>Paths\<close>

text \<open>\<open>path.join\<close> and \<open>path.basename\<close> for POSIX paths.\<close>

fun normalize_segments :: "bool \<Rightarrow> string list \<Rightarrow> string list \<Rightarrow> string list" where
  "normalize_segments absolute acc [] = rev acc"
| "normalize_segments absolute acc (s # ss) =
     (if s = [] \<or> s = ''.'' then normalize_segments absolute acc ss
      else if s = ''..'' then
        (case acc of
           a # as \<Rightarrow> if a = ''..'' then normalize_segments absolute (s # acc) ss
                     else normalize_segments absolute as ss
         | [] \<Rightarrow> if absolute then normalize_segments absolute [] ss
                 else normalize_segments absolute [s] ss)
      else normalize_segments absolute (s # acc) ss)"

definition path_normalize :: "string \<Rightarrow> string" where
  "path_normalize p =
     (if p = [] then ''.''
      else
        let absolute = (hd p = CHR ''/'');
            trailing = (last p = CHR ''/'');
            body = js_join ''/'' (normalize_segments absolute [] (js_split (CHR ''/'') p)) in
        if body = [] then (if absolute then ''/'' else if trailing then ''./'' else ''.'')
        else (if absolute then ''/'' else []) @ body @ (if trailing then ''/'' else []))"

definition path_join :: "string list \<Rightarrow> string" where
  "path_join ps = path_normalize (js_join ''/'' (filter (\<lambda>p. p \<noteq> []) ps))"

definition path_basename :: "string \<Rightarrow> string" where
  "path_basename p =
     last (js_split (CHR ''/'') (rev (dropWhile (\<lambda>c. c = CHR ''/'') (rev p))))"

section \<open>Sorting\<close>

text \<open>
  \<open>Array.prototype.sort\<close> with a comparator: the stable sort. With a consistent comparator
  every stable sort gives the same list.
\<close>

fun insert_by :: "('a \<Rightarrow> 'a \<Rightarrow> int) \<Rightarrow> 'a \<Rightarrow> 'a list \<Rightarrow> 'a list" where
  "insert_by cmp x [] = [x]"
| "insert_by cmp x (y # ys) = (if cmp x y \<le> 0 then x # y # ys else y # insert_by cmp x ys)"

fun sort_by :: "('a \<Rightarrow> 'a \<Rightarrow> int) \<Rightarrow> 'a list \<Rightarrow> 'a list" where
  "sort_by cmp [] = []"
| "sort_by cmp (x # xs) = insert_by cmp x (sort_by cmp xs)"

text \<open>What \<open>localeCompare\<close> is documented to be: a consistent three-way comparison.\<close>

definition consistent :: "('a \<Rightarrow> 'a \<Rightarrow> int) \<Rightarrow> bool" where
  "consistent cmp \<longleftrightarrow>
     (\<forall>x y. (cmp x y \<le> 0) = (0 \<le> cmp y x)) \<and> (\<forall>x y z. cmp x y \<le> 0 \<longrightarrow> cmp y z \<le> 0 \<longrightarrow> cmp x z \<le> 0)"

lemma insert_by_mset [simp]: "mset (insert_by cmp x ys) = add_mset x (mset ys)"
  by (induction ys) auto

lemma sort_by_mset [simp]: "mset (sort_by cmp xs) = mset xs"
  by (induction xs) auto

lemma sort_by_set [simp]: "set (sort_by cmp xs) = set xs"
  using mset_eq_setD [OF sort_by_mset] .

lemma insert_by_set [simp]: "set (insert_by cmp x ys) = insert x (set ys)"
  by (induction ys) auto

lemma consistentD:
  assumes "consistent cmp"
  shows "\<not> cmp x y \<le> 0 \<Longrightarrow> cmp y x \<le> 0" "cmp x y \<le> 0 \<Longrightarrow> cmp y z \<le> 0 \<Longrightarrow> cmp x z \<le> 0"
    "cmp x y \<le> 0 \<Longrightarrow> cmp y x \<le> 0 \<Longrightarrow> cmp x y = 0"
  using assms unfolding consistent_def by (metis linear, metis, metis order_antisym)

lemma insert_by_sorted:
  assumes "consistent cmp" "sorted_wrt (\<lambda>x y. cmp x y \<le> 0) ys"
  shows "sorted_wrt (\<lambda>x y. cmp x y \<le> 0) (insert_by cmp x ys)"
  using assms(2) by (induction ys) (auto dest: consistentD [OF assms(1)])

lemma sort_by_sorted: "consistent cmp \<Longrightarrow> sorted_wrt (\<lambda>x y. cmp x y \<le> 0) (sort_by cmp xs)"
  by (induction xs) (auto intro: insert_by_sorted)

lemma sorted_unique:
  assumes "sorted_wrt P xs" "sorted_wrt P ys" "mset xs = mset ys"
    and "\<And>x y. x \<in> set xs \<Longrightarrow> y \<in> set xs \<Longrightarrow> P x y \<Longrightarrow> P y x \<Longrightarrow> x = y"
  shows "xs = ys"
  using assms
proof (induction xs arbitrary: ys)
  case Nil
  then show ?case by simp
next
  case (Cons x xs)
  then obtain y ys' where ys: "ys = y # ys'" by (cases ys) auto
  have sets: "set (x # xs) = set (y # ys')" using Cons.prems(3) ys mset_eq_setD by blast
  have "x = y"
  proof (rule ccontr)
    assume "x \<noteq> y"
    with sets have m: "x \<in> set ys'" "y \<in> set xs" by auto
    with Cons.prems(1,2) ys have "P y x" "P x y" by auto
    with Cons.prems(4) [of x y] m(2) \<open>x \<noteq> y\<close> show False by auto
  qed
  with Cons.prems ys have "xs = ys'" by (intro Cons.IH) auto
  with \<open>x = y\<close> ys show ?case by simp
qed

text \<open>The order of the input does not matter when no two elements compare equal.\<close>

lemma sort_by_deterministic:
  assumes "consistent cmp" "mset xs = mset ys"
    and "\<And>x y. x \<in> set xs \<Longrightarrow> y \<in> set xs \<Longrightarrow> cmp x y = 0 \<Longrightarrow> x = y"
  shows "sort_by cmp xs = sort_by cmp ys"
proof (rule sorted_unique)
  show "sorted_wrt (\<lambda>x y. cmp x y \<le> 0) (sort_by cmp xs)"
    "sorted_wrt (\<lambda>x y. cmp x y \<le> 0) (sort_by cmp ys)"
    using assms(1) by (simp_all add: sort_by_sorted)
  show "mset (sort_by cmp xs) = mset (sort_by cmp ys)" using assms(2) by simp
  show "x = y" if "x \<in> set (sort_by cmp xs)" "y \<in> set (sort_by cmp xs)"
    "cmp x y \<le> 0" "cmp y x \<le> 0" for x y
    using that assms(3) consistentD(3) [OF assms(1)] by simp
qed

section \<open>Loading\<close>

record loaded_contract =
  ld_service :: string
  ld_methods :: jsval
  ld_sourceFile :: string

text \<open>\<open>isContract\<close>, with what it finds.\<close>

definition is_object :: "jsval \<Rightarrow> bool" where
  "is_object v \<longleftrightarrow> js_typeof v = ''object'' \<and> v \<noteq> JNull"

definition as_contract :: "jsval \<Rightarrow> (string \<times> jsval) option" where
  "as_contract v =
     (if is_object v \<and> js_typeof (js_get v ''service'') = ''string'' \<and> is_object (js_get v ''methods'')
      then Some (js_string (js_get v ''service''), js_get v ''methods'') else None)"

text \<open>A directory entry is its name and whether it is a file.\<close>

fun load_file :: "string \<Rightarrow> js_object \<Rightarrow> loaded_contract list" where
  "load_file full [] = []"
| "load_file full ((exportName, v) # exports) =
     (case as_contract v of
        Some (s, ms) \<Rightarrow> \<lparr>ld_service = s, ld_methods = ms, ld_sourceFile = full\<rparr> # load_file full exports
      | None \<Rightarrow> load_file full exports)"

fun load_files :: "(string \<Rightarrow> thrown + js_object) \<Rightarrow> string \<Rightarrow> string list \<Rightarrow>
    thrown + loaded_contract list" where
  "load_files tsImport srcDir [] = Inr []"
| "load_files tsImport srcDir (name # names) =
     (let full = path_join [srcDir, name] in
      rbind (tsImport full) (\<lambda>module.
      rbind (load_files tsImport srcDir names) (\<lambda>rest. Inr (load_file full module @ rest))))"

definition loaded_compare ::
    "(string \<Rightarrow> string \<Rightarrow> int) \<Rightarrow> loaded_contract \<Rightarrow> loaded_contract \<Rightarrow> int" where
  "loaded_compare localeCompare a b =
     (let i = localeCompare (ld_service a) (ld_service b) in
      if i \<noteq> 0 then i else localeCompare (ld_sourceFile a) (ld_sourceFile b))"

definition contract_files :: "(string \<times> bool) list \<Rightarrow> string list" where
  "contract_files entries = map fst (filter (\<lambda>(name, isFile). isFile \<and> suffix ''.ts'' name) entries)"

definition loadContracts ::
    "(string \<Rightarrow> string \<Rightarrow> int) \<Rightarrow> (string \<Rightarrow> thrown + js_object) \<Rightarrow> (string \<times> bool) list \<Rightarrow> string \<Rightarrow>
     thrown + loaded_contract list" where
  "loadContracts localeCompare tsImport entries srcDir =
     rbind (load_files tsImport srcDir (contract_files entries)) (\<lambda>out.
       Inr (sort_by (loaded_compare localeCompare) out))"

section \<open>Lowering\<close>

record ir_schema =
  is_jsonSchema :: jsval
  is_hash :: string

record ir_method =
  im_name :: string
  im_isNotification :: bool
  im_params :: ir_schema
  im_result :: "ir_schema option"

record ir_contract =
  ic_service :: string
  ic_sourceFile :: string
  ic_methods :: "ir_method list"

text \<open>Reading a property of null or \<open>undefined\<close> throws.\<close>

definition get_or_throw :: "jsval \<Rightarrow> string \<Rightarrow> thrown + jsval" where
  "get_or_throw v k =
     (if v = JUndef \<or> v = JNull
      then Inl (type_error (''Cannot read properties of '' @ js_string v @ '' (reading '' @ [CHR 0x27]
             @ k @ [CHR 0x27] @ '')''))
      else Inr (js_get v k))"

definition lowerSchema ::
    "(string \<Rightarrow> jsval \<Rightarrow> thrown + jsval) \<Rightarrow> (string \<Rightarrow> string) \<Rightarrow> string \<Rightarrow> jsval \<Rightarrow>
     thrown + ir_schema" where
  "lowerSchema zodToJsonSchema sha256 target z =
     rbind (zodToJsonSchema target z) (\<lambda>jsonSchema.
       case json_stringify jsonSchema of
         None \<Rightarrow> Inl (type_error ''The \"data\" argument must be of type string'')
       | Some serialized \<Rightarrow>
           Inr \<lparr>is_jsonSchema = jsonSchema, is_hash = sha256 serialized\<rparr>)"

fun enumerate_keys :: "nat \<Rightarrow> jsval list \<Rightarrow> js_object" where
  "enumerate_keys n [] = []"
| "enumerate_keys n (v # vs) = (nat_digits n, v) # enumerate_keys (Suc n) vs"

text \<open>\<open>Object.entries\<close> of an object or array.\<close>

fun js_entries :: "jsval \<Rightarrow> js_object" where
  "js_entries (JObj ps) = ps"
| "js_entries (JArr vs) = enumerate_keys 0 vs"
| "js_entries _ = []"

definition lower_method ::
    "(jsval \<Rightarrow> thrown + ir_schema) \<Rightarrow> string \<times> jsval \<Rightarrow> thrown + ir_method" where
  "lower_method lower_schema = (\<lambda>(name, d).
     rbind (get_or_throw d ''notification'') (\<lambda>n.
       let isNotification = (n = JBool True) in
       rbind (lower_schema (js_get d ''params'')) (\<lambda>p.
       rbind (if isNotification then Inr None
              else rbind (lower_schema (js_get d ''result'')) (\<lambda>r. Inr (Some r))) (\<lambda>r.
       Inr \<lparr>im_name = name, im_isNotification = isNotification, im_params = p, im_result = r\<rparr>))))"

fun map_result :: "('a \<Rightarrow> 'e + 'b) \<Rightarrow> 'a list \<Rightarrow> 'e + 'b list" where
  "map_result f [] = Inr []"
| "map_result f (x # xs) =
     rbind (f x) (\<lambda>y. rbind (map_result f xs) (\<lambda>ys. Inr (y # ys)))"

definition lower_contract ::
    "(string \<Rightarrow> string \<Rightarrow> int) \<Rightarrow> (jsval \<Rightarrow> thrown + ir_schema) \<Rightarrow> loaded_contract \<Rightarrow>
     thrown + ir_contract" where
  "lower_contract localeCompare lower_schema l =
     rbind (map_result (lower_method lower_schema) (js_entries (ld_methods l))) (\<lambda>ms.
       Inr \<lparr>ic_service = ld_service l, ic_sourceFile = ld_sourceFile l,
            ic_methods = sort_by (\<lambda>a b. localeCompare (im_name a) (im_name b)) ms\<rparr>)"

definition lowerContracts ::
    "(string \<Rightarrow> string \<Rightarrow> int) \<Rightarrow> (string \<Rightarrow> jsval \<Rightarrow> thrown + jsval) \<Rightarrow> (string \<Rightarrow> string) \<Rightarrow> string \<Rightarrow>
     loaded_contract list \<Rightarrow> thrown + ir_contract list" where
  "lowerContracts localeCompare zodToJsonSchema sha256 target loaded =
     rbind (map_result (lower_contract localeCompare (lowerSchema zodToJsonSchema sha256 target)) loaded)
       (\<lambda>cs. Inr (sort_by (\<lambda>a b. localeCompare (ic_service a) (ic_service b)) cs))"

section \<open>What the lowered contracts satisfy\<close>

lemma map_result_Inr:
  "map_result f xs = Inr ys \<longleftrightarrow> list_all2 (\<lambda>x y. f x = Inr y) xs ys"
proof (induction xs arbitrary: ys)
  case Nil
  then show ?case by auto
next
  case (Cons x xs)
  then show ?case by (cases ys) (auto simp: rbind_eq_Inr)
qed

definition wf_ir_method :: "(string \<Rightarrow> string) \<Rightarrow> ir_method \<Rightarrow> bool" where
  "wf_ir_method sha256 m \<longleftrightarrow>
     (im_result m = None \<longleftrightarrow> im_isNotification m)
     \<and> is_hash (im_params m) = sha256 (json_text (is_jsonSchema (im_params m)))
     \<and> (\<forall>r. im_result m = Some r \<longrightarrow> is_hash r = sha256 (json_text (is_jsonSchema r)))"

lemma lowerSchema_hash:
  "lowerSchema z sha256 target v = Inr s \<Longrightarrow> is_hash s = sha256 (json_text (is_jsonSchema s))"
  by (auto simp: lowerSchema_def rbind_eq_Inr json_stringify_def split: if_splits)

lemma lower_method_wf:
  assumes "lower_method (lowerSchema z sha256 target) (name, d) = Inr m"
  shows "wf_ir_method sha256 m" "im_name m = name"
  using assms
  by (auto simp: lower_method_def wf_ir_method_def rbind_eq_Inr Let_def
      split: if_splits dest: lowerSchema_hash)

lemma consistent_on: "consistent cmp \<Longrightarrow> consistent (\<lambda>a b. cmp (f a) (f b))"
  unfolding consistent_def by blast

lemma consistent_loaded:
  assumes "consistent cmp"
  shows "consistent (loaded_compare cmp)"
proof -
  have flip: "(cmp x y \<le> 0) = (0 \<le> cmp y x)" for x y using assms by (simp add: consistent_def)
  have trans: "cmp x y \<le> 0 \<Longrightarrow> cmp y z \<le> 0 \<Longrightarrow> cmp x z \<le> 0" for x y z
    using assms unfolding consistent_def by blast
  have zero: "cmp x y = 0 \<longleftrightarrow> cmp y x = 0" for x y using flip [of x y] flip [of y x] by linarith
  have le: "loaded_compare cmp a b \<le> 0 \<longleftrightarrow>
      cmp (ld_service a) (ld_service b) \<le> 0
      \<and> (0 \<le> cmp (ld_service a) (ld_service b) \<longrightarrow> cmp (ld_sourceFile a) (ld_sourceFile b) \<le> 0)" for a b
    by (auto simp: loaded_compare_def Let_def)
  show ?thesis
    unfolding consistent_def
  proof (intro conjI allI impI)
    show "(loaded_compare cmp a b \<le> 0) = (0 \<le> loaded_compare cmp b a)" for a b
      using flip [of "ld_service a" "ld_service b"] flip [of "ld_sourceFile a" "ld_sourceFile b"]
        zero [of "ld_service a" "ld_service b"]
      by (auto simp: loaded_compare_def Let_def)
    show "loaded_compare cmp a c \<le> 0" if "loaded_compare cmp a b \<le> 0" "loaded_compare cmp b c \<le> 0" for a b c
      using that unfolding le by (metis flip trans)
  qed
qed

lemma lower_contract_wf:
  assumes "lower_contract cmp (lowerSchema z sha256 target) l = Inr c" "consistent cmp"
  shows "ic_service c = ld_service l" "list_all (wf_ir_method sha256) (ic_methods c)"
    "sorted_wrt (\<lambda>a b. cmp (im_name a) (im_name b) \<le> 0) (ic_methods c)"
    "mset (map im_name (ic_methods c)) = mset (map fst (js_entries (ld_methods l)))"
proof -
  from assms(1) obtain ms where
    ms: "list_all2 (\<lambda>e m. lower_method (lowerSchema z sha256 target) e = Inr m)
           (js_entries (ld_methods l)) ms"
    and c: "c = \<lparr>ic_service = ld_service l, ic_sourceFile = ld_sourceFile l,
            ic_methods = sort_by (\<lambda>a b. cmp (im_name a) (im_name b)) ms\<rparr>"
    by (auto simp: lower_contract_def rbind_eq_Inr map_result_Inr)
  from ms have wf: "list_all (wf_ir_method sha256) ms \<and> map im_name ms = map fst (js_entries (ld_methods l))"
    by (induction rule: list_all2_induct) (auto dest: lower_method_wf)
  show "ic_service c = ld_service l" by (simp add: c)
  show "list_all (wf_ir_method sha256) (ic_methods c)" using wf by (simp add: c list_all_iff)
  show "sorted_wrt (\<lambda>a b. cmp (im_name a) (im_name b) \<le> 0) (ic_methods c)"
    unfolding c by (simp add: sort_by_sorted consistent_on [OF assms(2)])
  have "mset (map im_name (ic_methods c)) = image_mset im_name (mset ms)" by (simp add: c)
  also have "\<dots> = mset (map fst (js_entries (ld_methods l)))" using wf by (metis mset_map)
  finally show "mset (map im_name (ic_methods c)) = mset (map fst (js_entries (ld_methods l)))" .
qed

section \<open>Properties\<close>

lemma load_files_mset:
  assumes "mset names = mset names'" "load_files imp dir names = Inr out"
  shows "\<exists>out'. load_files imp dir names' = Inr out' \<and> mset out' = mset out"
proof -
  have char: "load_files imp dir ns = Inr o' \<longleftrightarrow>
      (\<forall>n \<in> set ns. \<exists>m. imp (path_join [dir, n]) = Inr m)
      \<and> o' = concat (map (\<lambda>n. load_file (path_join [dir, n]) (projr (imp (path_join [dir, n])))) ns)" for ns o'
    by (induction ns arbitrary: o') (auto simp: rbind_eq_Inr Let_def)
  let ?f = "\<lambda>n. load_file (path_join [dir, n]) (projr (imp (path_join [dir, n])))"
  have ms: "mset (concat (map ?f ns)) = sum_mset (image_mset (\<lambda>n. mset (?f n)) (mset ns))" for ns
    by (induction ns) auto
  from assms(2) char have "\<forall>n \<in> set names'. \<exists>m. imp (path_join [dir, n]) = Inr m"
    using mset_eq_setD [OF assms(1)] by auto
  with char have "load_files imp dir names' = Inr (concat (map ?f names'))" by blast
  moreover have "mset (concat (map ?f names')) = mset out"
    using char assms(2) ms [of names] ms [of names'] assms(1) by auto
  ultimately show ?thesis by blast
qed

text \<open>
  C33: \<open>loadContracts\<close> gives the same list whatever the order in which the directory lists its
  files, when no two contracts compare equal by service and file.
\<close>

theorem load_order_independent:
  assumes "consistent localeCompare" "mset entries = mset entries'"
    and "loadContracts localeCompare tsImport entries dir = Inr out"
    and "\<And>a b. a \<in> set out \<Longrightarrow> b \<in> set out \<Longrightarrow> loaded_compare localeCompare a b = 0 \<Longrightarrow> a = b"
  shows "loadContracts localeCompare tsImport entries' dir = Inr out
    \<and> sorted_wrt (\<lambda>a b. loaded_compare localeCompare a b \<le> 0) out"
proof (intro conjI)
  from assms(3) obtain raw where raw: "load_files tsImport dir (contract_files entries) = Inr raw"
    and out: "out = sort_by (loaded_compare localeCompare) raw"
    by (auto simp: loadContracts_def rbind_eq_Inr)
  have "mset (contract_files entries) = mset (contract_files entries')"
    unfolding contract_files_def by (simp add: assms(2))
  from load_files_mset [OF this raw] obtain raw' where
    raw': "load_files tsImport dir (contract_files entries') = Inr raw'" "mset raw' = mset raw" by blast
  have "sort_by (loaded_compare localeCompare) raw' = out"
    unfolding out using raw'(2) mset_eq_setD [OF raw'(2)] assms(4) out
    by (intro sort_by_deterministic consistent_loaded assms(1)) auto
  with raw'(1) show "loadContracts localeCompare tsImport entries' dir = Inr out"
    by (simp add: loadContracts_def)
  show "sorted_wrt (\<lambda>a b. loaded_compare localeCompare a b \<le> 0) out"
    unfolding out by (intro sort_by_sorted consistent_loaded assms(1))
qed

text \<open>A three-way comparison of strings by code units, to apply the theorems to.\<close>

fun unit_compare :: "string \<Rightarrow> string \<Rightarrow> int" where
  "unit_compare [] [] = 0"
| "unit_compare [] (d # ds) = -1"
| "unit_compare (c # cs) [] = 1"
| "unit_compare (c # cs) (d # ds) =
     (if c = d then unit_compare cs ds else int (code c) - int (code d))"

lemma unit_compare_flip: "unit_compare x y = - unit_compare y x \<or> (unit_compare x y < 0) = (0 < unit_compare y x) \<and> (unit_compare x y = 0) = (unit_compare y x = 0)"
  by (induction x y rule: unit_compare.induct) auto

lemma unit_compare_trans: "unit_compare x y \<le> 0 \<Longrightarrow> unit_compare y z \<le> 0 \<Longrightarrow> unit_compare x z \<le> 0"
proof (induction x y arbitrary: z rule: unit_compare.induct)
  case (4 c cs d ds)
  then show ?case by (cases z) (auto split: if_splits)
next
  case (2 d ds)
  then show ?case by (cases z) auto
qed auto

lemma consistent_unit_compare: "consistent unit_compare"
  unfolding consistent_def
proof (intro conjI allI impI)
  show "(unit_compare x y \<le> 0) = (0 \<le> unit_compare y x)" for x y
    using unit_compare_flip [of x y] by auto
  show "unit_compare x z \<le> 0" if "unit_compare x y \<le> 0" "unit_compare y z \<le> 0" for x y z
    using that by (rule unit_compare_trans)
qed

definition sample_module :: "string \<Rightarrow> thrown + js_object" where
  "sample_module path = Inr [(''c'', JObj [(''service'', JStr path), (''methods'', JObj [])]), (''n'', JNum 1)]"

theorem load_order_independent_witness:
  "loadContracts unit_compare sample_module [(''b.ts'', True), (''a.ts'', True), (''x.md'', True)] ''d''
    = loadContracts unit_compare sample_module [(''x.md'', True), (''a.ts'', True), (''b.ts'', True)] ''d''"
proof -
  let ?out = "[\<lparr>ld_service = ''d/a.ts'', ld_methods = JObj [], ld_sourceFile = ''d/a.ts''\<rparr>,
     \<lparr>ld_service = ''d/b.ts'', ld_methods = JObj [], ld_sourceFile = ''d/b.ts''\<rparr>]"
  let ?e = "[(''b.ts'', True), (''a.ts'', True), (''x.md'', True)]"
  let ?e' = "[(''x.md'', True), (''a.ts'', True), (''b.ts'', True)]"
  have l: "loadContracts unit_compare sample_module ?e ''d'' = Inr ?out" by code_simp
  have m: "mset ?e = mset ?e'" by (simp add: add_mset_commute)
  have c: "list_all (\<lambda>a. list_all (\<lambda>b. loaded_compare unit_compare a b = 0 \<longrightarrow> a = b) ?out) ?out" by code_simp
  have "a = b" if "a \<in> set ?out" "b \<in> set ?out" "loaded_compare unit_compare a b = 0" for a b
    using c that unfolding list_all_iff by blast
  from load_order_independent [OF consistent_unit_compare m l this] l
  show ?thesis by (simp only:)
qed


definition sample_loaded :: loaded_contract where
  "sample_loaded = \<lparr>ld_service = ''calc'', ld_methods = JObj
     [(''ping'', JObj [(''params'', JNull), (''notification'', JBool True)]),
      (''add'', JObj [(''params'', JNull), (''result'', JNull)])], ld_sourceFile = ''d/calc.ts''\<rparr>"

definition sample_lowered :: ir_contract where
  "sample_lowered = \<lparr>ic_service = ''calc'', ic_sourceFile = ''d/calc.ts'', ic_methods =
     [\<lparr>im_name = ''add'', im_isNotification = False,
       im_params = \<lparr>is_jsonSchema = JObj [], is_hash = ''{}''\<rparr>,
       im_result = Some \<lparr>is_jsonSchema = JObj [], is_hash = ''{}''\<rparr>\<rparr>,
      \<lparr>im_name = ''ping'', im_isNotification = True,
       im_params = \<lparr>is_jsonSchema = JObj [], is_hash = ''{}''\<rparr>, im_result = None\<rparr>]\<rparr>"

lemma sample_lowering:
  "lower_contract unit_compare (lowerSchema (\<lambda>t z. Inr (JObj [])) (\<lambda>s. s) ''jsonSchema7'') sample_loaded
     = Inr sample_lowered"
  by code_simp


end
