(* ===== verification/EmitTs.thy ===== *)
theory EmitTs
  imports Lower
begin

text \<open>
  \<open>ts/packages/codegen/src/emit-ts.ts\<close>: the generated TypeScript wrapper, as text. The file
  operations of the generator are a list of effects. \<open>VERSION\<close>, read from a file at run
  time (\<open>version.ts\<close>), is an argument. The service name is inserted literally, so a name
  with a dollar sign, which no valid service has, is outside the model.
\<close>

datatype gen_op =
    Mkdir string
  | WriteFile string string
  | Mkdtemp string
  | RunTool string "string list"
  | ReadFile string
  | RemoveDir string
  | Warn string

definition nl :: "string" where "nl = [CHR 0x0A]"

definition sq :: "string" where "sq = [CHR 0x27]"

definition squoted :: "string \<Rightarrow> string" where
  "squoted s = sq @ s @ sq"

text \<open>\<open>.replace(/-([a-z])/g, (_, ch) => ch.toUpperCase())\<close>\<close>

fun kebab_to_camel :: "string \<Rightarrow> string" where
  "kebab_to_camel (c # d # r) =
     (if c = CHR ''-'' \<and> is_lower d then to_upper d # kebab_to_camel r
      else c # kebab_to_camel (d # r))"
| "kebab_to_camel s = s"

definition export_name :: "string \<Rightarrow> string" where
  "export_name service = kebab_to_camel service @ ''Contract''"

text \<open>\<open>.replace(/\{service\}/g, c.service)\<close>\<close>

fun replace_service :: "nat \<Rightarrow> string \<Rightarrow> string \<Rightarrow> string" where
  "replace_service skip service [] = []"
| "replace_service skip service (c # cs) =
     (if 0 < skip then replace_service (skip - 1) service cs
      else if prefix ''{service}'' (c # cs) then service @ replace_service 8 service cs
      else c # replace_service 0 service cs)"

definition params_type :: "ir_method \<Rightarrow> string" where
  "params_type m = upper_first (im_name m) @ ''Params''"

definition result_type :: "ir_method \<Rightarrow> string" where
  "result_type m = upper_first (im_name m) @ ''Result''"

definition ts_alias :: "string \<Rightarrow> ir_method \<Rightarrow> string" where
  "ts_alias exportName m =
     (let params = ''export type '' @ params_type m @ '' = z.infer<typeof '' @ exportName
            @ ''.methods.'' @ im_name m @ ''.params>;'' in
      if im_isNotification m then params
      else params @ nl @ ''export type '' @ result_type m @ '' = z.infer<typeof '' @ exportName
            @ ''.methods.'' @ im_name m @ ''.result>;'')"

definition ts_client_method :: "string \<Rightarrow> ir_method \<Rightarrow> string" where
  "ts_client_method service m =
     (if im_isNotification m then
        ''  '' @ im_name m @ ''(params: '' @ params_type m @ ''): Promise<void> {'' @ nl
        @ ''    return this.client.notify('' @ squoted service @ '', '' @ squoted (im_name m)
        @ '', params);'' @ nl @ ''  }''
      else
        ''  '' @ im_name m @ ''(params: '' @ params_type m
        @ '', opts?: { timeoutMs?: number }): Promise<'' @ result_type m @ ''> {'' @ nl
        @ ''    return this.client.call('' @ squoted service @ '', '' @ squoted (im_name m)
        @ '', params, opts);'' @ nl @ ''  }'')"

definition ts_service_method :: "ir_method \<Rightarrow> string" where
  "ts_service_method m =
     (if im_isNotification m
      then ''  '' @ im_name m @ ''(params: '' @ params_type m @ ''): Promise<void>;''
      else ''  '' @ im_name m @ ''(params: '' @ params_type m
        @ '', opts?: { timeoutMs?: number }): Promise<'' @ result_type m @ ''>;'')"

definition renderTsFile :: "string \<Rightarrow> string \<Rightarrow> ir_contract \<Rightarrow> string" where
  "renderTsFile version contractImportPath c =
     (let Pascal = kebabAndCamelToPascal (ic_service c);
          sourceBase = path_basename (ic_sourceFile c);
          exportName = export_name (ic_service c);
          typeAliases = js_join nl (map (ts_alias exportName) (ic_methods c));
          clientMethods = js_join nl (map (ts_client_method (ic_service c)) (ic_methods c));
          serviceMethods = js_join nl (map ts_service_method (ic_methods c));
          importPath = replace_service 0 (ic_service c) contractImportPath in
      ''// AUTO-GENERATED by @clamator/codegen v'' @ version @ '' from '' @ sourceBase @ ''.'' @ nl
      @ ''// DO NOT EDIT. Re-run codegen to update.'' @ nl
      @ ''import { '' @ exportName @ '' } from '' @ squoted importPath @ '';'' @ nl
      @ ''import type { ClamatorClient } from '' @ squoted ''@clamator/protocol'' @ '';'' @ nl
      @ ''import type { z } from '' @ squoted ''zod'' @ '';'' @ nl
      @ nl
      @ typeAliases @ nl
      @ nl
      @ ''export class '' @ Pascal @ ''Client {'' @ nl
      @ ''  constructor(private client: ClamatorClient) {}'' @ nl
      @ clientMethods @ nl
      @ ''}'' @ nl
      @ nl
      @ ''export interface '' @ Pascal @ ''Service {'' @ nl
      @ serviceMethods @ nl
      @ ''}'' @ nl)"

definition ts_file :: "string \<Rightarrow> ir_contract \<Rightarrow> string" where
  "ts_file outDir c = path_join [outDir, ic_service c @ ''.ts'']"

definition emitTs ::
    "string \<Rightarrow> string \<Rightarrow> string \<Rightarrow> ir_contract list \<Rightarrow> gen_op list \<times> string list" where
  "emitTs version outDir contractImportPath contracts =
     (Mkdir outDir # map (\<lambda>c. WriteFile (ts_file outDir c) (renderTsFile version contractImportPath c)) contracts,
      map (ts_file outDir) contracts)"

text \<open>What a file holds after the operations.\<close>

fun file_after :: "gen_op list \<Rightarrow> string \<Rightarrow> string option \<Rightarrow> string option" where
  "file_after [] f old = old"
| "file_after (WriteFile g txt # ops) f old = file_after ops f (if g = f then Some txt else old)"
| "file_after (_ # ops) f old = file_after ops f old"

section \<open>The generated text\<close>

lemma file_after_append: "file_after (xs @ ys) f old = file_after ys f (file_after xs f old)"
  by (induction xs f old rule: file_after.induct) auto

lemma sublist_join: "t \<in> set ts \<Longrightarrow> sublist t (js_join sep ts)"
proof (induction sep ts rule: js_join.induct)
  case (3 sep s t' ts)
  then show ?case by (auto intro: sublist_appendI sublist_append_leftI sublist_append_rightI
        simp: sublist_append)
qed auto

lemma sublist_trans: "sublist a b \<Longrightarrow> sublist b c \<Longrightarrow> sublist a c"
  by (rule sublist_order.order_trans)

lemma sublist_mid: "sublist a b \<Longrightarrow> sublist a (p @ b @ q)"
  by (meson sublist_appendI sublist_trans)

text \<open>Every method of the contract has its proxy method and its interface method.\<close>

lemma renderTsFile_methods:
  assumes "m \<in> set (ic_methods c)"
  shows "sublist (ts_client_method (ic_service c) m) (renderTsFile v p c)"
    "sublist (ts_service_method m) (renderTsFile v p c)"
    "sublist (ts_alias (export_name (ic_service c)) m) (renderTsFile v p c)"
proof -
  have js: "sublist (f m) (js_join nl (map f (ic_methods c)))" for f
    using assms by (intro sublist_join) simp
  have text_split: "\<exists>a b. renderTsFile v p c = a @ js_join nl (map (ts_client_method (ic_service c)) (ic_methods c)) @ b"
    "\<exists>a b. renderTsFile v p c = a @ js_join nl (map ts_service_method (ic_methods c)) @ b"
    "\<exists>a b. renderTsFile v p c = a @ js_join nl (map (ts_alias (export_name (ic_service c))) (ic_methods c)) @ b"
    unfolding renderTsFile_def Let_def by (metis append.assoc)+
  show "sublist (ts_client_method (ic_service c) m) (renderTsFile v p c)"
    using text_split(1) js sublist_mid by metis
  show "sublist (ts_service_method m) (renderTsFile v p c)"
    using text_split(2) js sublist_mid by metis
  show "sublist (ts_alias (export_name (ic_service c)) m) (renderTsFile v p c)"
    using text_split(3) js sublist_mid by metis
qed

section \<open>Names\<close>

text \<open>Model names of different methods differ.\<close>

lemma upper_first_inject:
  assumes "METHOD_RE a" "METHOD_RE b"
  shows "upper_first a = upper_first b \<longleftrightarrow> a = b"
proof
  assume eq: "upper_first a = upper_first b"
  from assms obtain c r d q where ab: "a = c # r" "b = d # q" "is_lower c" "is_lower d"
    by (cases a; cases b) auto
  with eq have "to_upper c = to_upper d" "r = q" by auto
  then have "to_lower (to_upper c) = to_lower (to_upper d)" by simp
  with ab \<open>r = q\<close> show "a = b" by simp
qed simp

lemma type_names_inject:
  assumes "METHOD_RE (im_name m)" "METHOD_RE (im_name n)"
  shows "params_type m = params_type n \<longleftrightarrow> im_name m = im_name n"
    "result_type m = result_type n \<longleftrightarrow> im_name m = im_name n"
    "params_type m \<noteq> result_type n"
proof -
  show "params_type m = params_type n \<longleftrightarrow> im_name m = im_name n"
    "result_type m = result_type n \<longleftrightarrow> im_name m = im_name n"
    using upper_first_inject [OF assms] by (simp_all add: params_type_def result_type_def)
  show "params_type m \<noteq> result_type n"
  proof
    assume "params_type m = result_type n"
    from arg_cong [OF this, of "\<lambda>s. take 2 (rev s)"] show False
      by (simp add: params_type_def result_type_def)
  qed
qed

text \<open>When the exported name is an identifier: every hyphen stands before a letter.\<close>

fun hyphens_before_letters :: "string \<Rightarrow> bool" where
  "hyphens_before_letters (c # d # r) =
     ((c = CHR ''-'' \<longrightarrow> is_lower d) \<and> hyphens_before_letters (d # r))"
| "hyphens_before_letters [c] = (c \<noteq> CHR ''-'')"
| "hyphens_before_letters [] = True"

lemma kebab_hyphen: "CHR ''-'' \<in> set (kebab_to_camel s) \<longleftrightarrow> \<not> hyphens_before_letters s"
proof (induction s rule: kebab_to_camel.induct)
  case (1 c d r)
  have up: "is_lower d \<Longrightarrow> to_upper d \<noteq> CHR ''-''" "is_lower d \<Longrightarrow> d \<noteq> CHR ''-''"
    using is_upper_to_upper [of d] by (auto simp: char_simps)
  have rest: "is_lower d \<Longrightarrow> hyphens_before_letters (d # r) = hyphens_before_letters r"
    using up(2) by (cases r) auto
  show ?case
  proof (cases "c = CHR ''-'' \<and> is_lower d")
    case True
    with 1 up rest show ?thesis by auto
  next
    case False
    with 1 show ?thesis by auto
  qed
qed auto

lemma alnum_lower_upper: "is_lower c \<Longrightarrow> alnum (to_upper c)"
  by (simp add: alnum_def)

lemma kebab_chars:
  "\<forall>c \<in> set s. alnum c \<or> c = CHR ''-'' \<Longrightarrow> \<forall>c \<in> set (kebab_to_camel s). alnum c \<or> c = CHR ''-''"
  by (induction s rule: kebab_to_camel.induct) (auto simp: alnum_lower_upper alnum_to_upper)

lemma export_name_identifier:
  assumes "SERVICE_RE s"
  shows "is_identifier (export_name s) \<longleftrightarrow> hyphens_before_letters s"
proof -
  from assms obtain c r where s: "s = c # r" "is_lower c"
    and all: "\<forall>d \<in> set s. alnum d \<or> d = CHR ''-''"
    by (cases s) (auto simp: list_all_iff alnum_def)
  have hy: "c \<noteq> CHR ''-''" "\<not> alnum (CHR ''-'')" "CHR ''-'' \<noteq> underscore"
    using s(2) by (auto simp: char_simps alnum_def underscore_def)
  then obtain t where t: "kebab_to_camel s = c # t" by (cases r) (auto simp: s(1))
  have contract: "list_all alnum ''Contract''" by (simp add: alnum_def char_simps)
  have "is_identifier (export_name s) \<longleftrightarrow> list_all (\<lambda>d. alnum d \<or> d = underscore) (kebab_to_camel s)"
    using s(2) contract by (auto simp: export_name_def t list_all_iff)
  also have "\<dots> \<longleftrightarrow> CHR ''-'' \<notin> set (kebab_to_camel s)"
    using kebab_chars [OF all] hy by (auto simp: list_all_iff)
  finally show ?thesis by (simp add: kebab_hyphen)
qed

end
