(* ===== verification/ManifestFile.thy ===== *)
theory ManifestFile
  imports EmitTs
begin

text \<open>
  \<open>ts/packages/codegen/src/manifest.ts\<close>: the manifest with the schema hashes of every
  method. Assigning to a property of a plain object is \<open>jm_set\<close>, so a service or method
  that occurs twice keeps its last entry. The lemmas read the hashes back from the file.
\<close>

definition method_entry :: "ir_method \<Rightarrow> jsval" where
  "method_entry m =
     JObj [(''paramsHash'', JStr (is_hash (im_params m))),
           (''resultHash'', (case im_result m of None \<Rightarrow> JNull | Some r \<Rightarrow> JStr (is_hash r)))]"

fun fill_entry :: "js_object \<Rightarrow> ir_method list \<Rightarrow> js_object" where
  "fill_entry entry [] = entry"
| "fill_entry entry (m # ms) = fill_entry (jm_set entry (im_name m) (method_entry m)) ms"

fun fill_contracts :: "js_object \<Rightarrow> ir_contract list \<Rightarrow> js_object" where
  "fill_contracts cs [] = cs"
| "fill_contracts cs (c # rest) =
     fill_contracts (jm_set cs (ic_service c) (JObj (fill_entry [] (ic_methods c)))) rest"

definition manifest_value :: "string \<Rightarrow> ir_contract list \<Rightarrow> jsval" where
  "manifest_value version contracts =
     JObj [(''generatedBy'', JStr (''@clamator/codegen v'' @ version)),
           (''contracts'', JObj (fill_contracts [] contracts))]"

definition manifest_text :: "string \<Rightarrow> ir_contract list \<Rightarrow> string" where
  "manifest_text version contracts = json_pretty (manifest_value version contracts) @ nl"

definition writeManifest :: "string \<Rightarrow> ir_contract list \<Rightarrow> string \<Rightarrow> gen_op list" where
  "writeManifest version contracts outPath = [WriteFile outPath (manifest_text version contracts)]"

section \<open>The objects\<close>

lemma fill_entry_get:
  "jm_get (fill_entry entry ms) k =
     (case find (\<lambda>m. im_name m = k) (rev ms) of Some m \<Rightarrow> Some (method_entry m) | None \<Rightarrow> jm_get entry k)"
proof (induction entry ms rule: fill_entry.induct)
  case (1 entry)
  then show ?case by simp
next
  case (2 entry m ms)
  have "find P (xs @ [x]) = (case find P xs of Some y \<Rightarrow> Some y | None \<Rightarrow> if P x then Some x else None)"
    for P :: "ir_method \<Rightarrow> bool" and xs x by (induction xs) auto
  with 2 show ?case by (auto split: option.split)
qed

lemma fill_contracts_get:
  "jm_get (fill_contracts cs ics) k =
     (case find (\<lambda>c. ic_service c = k) (rev ics) of
        Some c \<Rightarrow> Some (JObj (fill_entry [] (ic_methods c))) | None \<Rightarrow> jm_get cs k)"
proof (induction cs ics rule: fill_contracts.induct)
  case (1 cs)
  then show ?case by simp
next
  case (2 cs c rest)
  have "find P (xs @ [x]) = (case find P xs of Some y \<Rightarrow> Some y | None \<Rightarrow> if P x then Some x else None)"
    for P :: "ir_contract \<Rightarrow> bool" and xs x by (induction xs) auto
  with 2 show ?case by (auto split: option.split)
qed

section \<open>The file reads back\<close>

text \<open>An object of values that the trip leaves alone.\<close>

definition solid :: "jsval \<Rightarrow> bool" where
  "solid v \<longleftrightarrow> json_ok v \<and> json_norm v = v"

lemma solid_obj:
  assumes "jm_wf ps" "\<forall>(k, v) \<in> set ps. solid v"
  shows "solid (JObj ps)"
proof -
  have ne: "\<forall>p \<in> set ps. snd p \<noteq> JUndef" using assms(2) json_norm_defined unfolding solid_def by fastforce
  have f: "filter (\<lambda>p. snd p \<noteq> JUndef) ps = ps" using ne by (simp add: filter_id_conv)
  have m: "map (\<lambda>(k, v). (k, json_norm v)) ps = ps"
    using assms(2) by (intro map_idI) (auto simp: solid_def)
  have n: "json_norm (JObj ps) = JObj ps" by (simp only: json_norm.simps f m)
  have "json_ok (JObj ps)"
    using assms by (auto simp: jm_wf_def list_all_iff solid_def)
  with n show ?thesis by (simp only: solid_def)
qed

lemma jm_set_values:
  "(k, v) \<in> set (jm_set m k' v') \<Longrightarrow> (k, v) \<in> set m \<or> v = v'"
  by (induction m k' v' rule: jm_set.induct) (auto split: if_splits)

lemma solid_method: "solid (method_entry m)"
  unfolding method_entry_def
  by (rule solid_obj) (auto simp: jm_wf_def solid_def split: option.split)

lemma solid_entry:
  "jm_wf entry \<Longrightarrow> \<forall>(k, v) \<in> set entry. solid v \<Longrightarrow>
     jm_wf (fill_entry entry ms) \<and> (\<forall>(k, v) \<in> set (fill_entry entry ms). solid v)"
proof (induction entry ms rule: fill_entry.induct)
  case (2 entry m ms)
  have "\<forall>(k, v) \<in> set (jm_set entry (im_name m) (method_entry m)). solid v"
    using "2.prems"(2) solid_method [of m] by (auto dest!: jm_set_values)
  with 2 show ?case by simp
qed simp

lemma solid_contracts:
  "jm_wf cs \<Longrightarrow> \<forall>(k, v) \<in> set cs. solid v \<Longrightarrow>
     jm_wf (fill_contracts cs ics) \<and> (\<forall>(k, v) \<in> set (fill_contracts cs ics). solid v)"
proof (induction cs ics rule: fill_contracts.induct)
  case (2 cs c rest)
  have "solid (JObj (fill_entry [] (ic_methods c)))"
    using solid_entry [of "[]" "ic_methods c"] by (auto intro: solid_obj)
  then have "\<forall>(k, v) \<in> set (jm_set cs (ic_service c) (JObj (fill_entry [] (ic_methods c)))). solid v"
    using "2.prems"(2) by (auto dest!: jm_set_values)
  with 2 show ?case by simp
qed simp

lemma solid_manifest: "solid (manifest_value version contracts)"
proof -
  have "solid (JObj (fill_contracts [] contracts))"
    using solid_contracts [of "[]" contracts] by (auto intro: solid_obj)
  then show ?thesis
    unfolding manifest_value_def
    by (intro solid_obj) (auto simp: jm_wf_def, simp add: solid_def)
qed

lemma manifest_text_parses: "json_parse (manifest_text version contracts) = Inr (manifest_value version contracts)"
proof -
  have "list_all is_ws nl" by (simp add: nl_def is_ws_def)
  with solid_manifest [of version contracts] show ?thesis
    unfolding manifest_text_def solid_def by (metis json_parse_pretty)
qed

section \<open>Properties\<close>

text \<open>
  C37: The manifest file is JSON that reads back as the manifest: under each service and method,
  for distinct services and distinct methods, the hashes of the parameter and result schemas,
  with null for a notification's result.
\<close>

theorem manifest_reads_back:
  assumes "distinct (map ic_service contracts)" "c \<in> set contracts"
    and "distinct (map im_name (ic_methods c))" "m \<in> set (ic_methods c)"
  shows "\<exists>v. json_parse (manifest_text version contracts) = Inr v
    \<and> js_get (js_get (js_get v ''contracts'') (ic_service c)) (im_name m) = method_entry m"
proof -
  have once: "find (\<lambda>y. f y = f x) ys = Some x" if "distinct (map f ys)" "x \<in> set ys"
    for f :: "'b \<Rightarrow> string" and x ys
    using that by (induction ys) (auto simp: image_iff)
  have "jm_get (fill_contracts [] contracts) (ic_service c) = Some (JObj (fill_entry [] (ic_methods c)))"
    using once [of ic_service "rev contracts" c] assms(1,2) by (simp add: fill_contracts_get flip: rev_map)
  moreover have "jm_get (fill_entry [] (ic_methods c)) (im_name m) = Some (method_entry m)"
    using once [of im_name "rev (ic_methods c)" m] assms(3,4) by (simp add: fill_entry_get flip: rev_map)
  ultimately show ?thesis
    by (intro exI [of _ "manifest_value version contracts"])
      (simp add: manifest_text_parses manifest_value_def obj_get_jm [of "fill_contracts [] contracts"]
          obj_get_jm [of "fill_entry [] (ic_methods c)"])
qed

theorem manifest_reads_back_witness:
  "\<exists>v. json_parse (manifest_text ''1'' [sample_lowered]) = Inr v
    \<and> js_get (js_get (js_get v ''contracts'') ''calc'') ''ping'' = JObj [(''paramsHash'', JStr ''{}''), (''resultHash'', JNull)]"
  using manifest_reads_back [of "[sample_lowered]" sample_lowered "ic_methods sample_lowered ! 1" "''1''"]
  by (simp add: sample_lowered_def method_entry_def)

end
