(* ===== verification/EmitPy.thy ===== *)
theory EmitPy
  imports EmitTs
begin

text \<open>
  \<open>ts/packages/codegen/src/emit-py.ts\<close>: the generated Python module. The tool
  \<open>datamodel-codegen\<close> is an argument: for the \<open>n\<close>-th contract it leaves a text in its
  output file or fails, as the events of its process say (\<open>tool_of\<close>); so is the random suffix of the \<open>n\<close>-th temporary directory.
\<close>

section \<open>The input of the tool\<close>

text \<open>\<open>defs\<close>: the parameter and result schemas of every method, by model name.\<close>

fun py_defs :: "js_object \<Rightarrow> ir_method list \<Rightarrow> js_object" where
  "py_defs defs [] = defs"
| "py_defs defs (m # ms) =
     (let defs1 = jm_set defs (params_type m) (is_jsonSchema (im_params m)) in
      py_defs (case im_result m of
          None \<Rightarrow> defs1
        | Some r \<Rightarrow> jm_set defs1 (result_type m) (is_jsonSchema r)) ms)"

definition py_wrapper :: "ir_contract \<Rightarrow> jsval" where
  "py_wrapper c =
     JObj [(''$schema'', JStr ''http://json-schema.org/draft-07/schema#''),
           (''type'', JStr ''object''),
           (''$defs'', JObj (py_defs [] (ic_methods c)))]"

definition datamodel_args :: "string \<Rightarrow> string \<Rightarrow> string list" where
  "datamodel_args schemaPath outPath =
     [''--input'', schemaPath, ''--input-file-type'', ''jsonschema'', ''--output'', outPath,
      ''--output-model-type'', ''pydantic_v2.BaseModel'', ''--target-python-version'', ''3.11'',
      ''--field-constraints'', ''--use-double-quotes'', ''--snake-case-field'',
      ''--enum-field-as-literal'', ''all'', ''--reuse-model'', ''--skip-root-model'']"

text \<open>
  \<open>runDatamodelCodegen\<close>: the events of the child process in their order. The promise is settled by
  the first \<open>error\<close> or \<open>exit\<close>; \<open>None\<close> when neither comes. The code of an exit is \<open>null\<close> when a signal
  ended the process.
\<close>

datatype child_event = StderrData string | ChildError thrown | ChildExit "int option"

definition exit_text :: "int option \<Rightarrow> string" where
  "exit_text status = (case status of None \<Rightarrow> ''null'' | Some n \<Rightarrow> int_digits n)"

fun child_outcome :: "string \<Rightarrow> child_event list \<Rightarrow> (thrown + unit) option" where
  "child_outcome stderr [] = None"
| "child_outcome stderr (StderrData chunk # es) = child_outcome (stderr @ chunk) es"
| "child_outcome stderr (ChildError e # es) = Some (Inl e)"
| "child_outcome stderr (ChildExit status # es) =
     Some (if status = Some 0 then Inr ()
           else Inl (new_error (''datamodel-codegen exited '' @ exit_text status @ '': '' @ stderr)))"

definition runDatamodelCodegen :: "child_event list \<Rightarrow> (thrown + unit) option" where
  "runDatamodelCodegen es = child_outcome [] es"

text \<open>The tool as the generator sees it, when it leaves \<open>models\<close> in its output file.\<close>

definition tool_of :: "child_event list \<Rightarrow> string \<Rightarrow> (thrown + string) option" where
  "tool_of es models = map_option (map_sum id (\<lambda>_. models)) (runDatamodelCodegen es)"

section \<open>Cleaning the models\<close>

definition is_nl :: "char \<Rightarrow> bool" where
  "is_nl c \<longleftrightarrow> c = CHR 0x0A"

definition skip_line :: "string \<Rightarrow> string" where
  "skip_line s = tl (dropWhile (\<lambda>c. \<not> is_nl c) s)"

lemma skip_line_shorter: "s \<noteq> [] \<Longrightarrow> length (skip_line s) < length s"
  using length_dropWhile_le [of "\<lambda>c. \<not> is_nl c" "tl s"]
  by (cases s) (auto simp: skip_line_def)

text \<open>\<open>.replace(/^(#[^\n]*\n)*/m, '')\<close>: its first match is at the start of the text.\<close>

function strip_comments :: "string \<Rightarrow> string" where
  "strip_comments s =
     (if s \<noteq> [] \<and> hd s = CHR ''#'' \<and> list_ex is_nl s then strip_comments (skip_line s) else s)"
  by pat_completeness auto
termination
  by (relation "measure length") (auto simp: skip_line_shorter)

declare strip_comments.simps [simp del]

text \<open>\<open>.replace(/^from __future__[^\n]*\n/gm, '')\<close>; the flag: a line starts here.\<close>

function strip_future :: "bool \<Rightarrow> string \<Rightarrow> string" where
  "strip_future start [] = []"
| "strip_future start (c # cs) =
     (if start \<and> prefix ''from __future__'' (c # cs) \<and> list_ex is_nl (c # cs)
      then strip_future True (skip_line (c # cs))
      else c # strip_future (is_nl c \<or> c = CHR 0x0D) cs)"
  by pat_completeness auto
termination
  by (relation "measure (\<lambda>(start, s). length s)") (auto intro: less_le_trans [OF skip_line_shorter])

declare strip_future.simps(2) [simp del]

text \<open>\<open>String.prototype.trim\<close>\<close>

definition clean_models :: "string \<Rightarrow> string" where
  "clean_models s = js_trim (strip_future True (strip_comments s))"

section \<open>The rendered tail\<close>

definition py_client_method :: "string \<Rightarrow> ir_method \<Rightarrow> string" where
  "py_client_method service m =
     (let snake = camelToSnake (im_name m) in
      if im_isNotification m then
        ''    async def '' @ snake @ ''(self, params: '' @ params_type m @ '') -> None:'' @ nl
        @ ''        await self._client.notify(\"'' @ service @ ''\", \"'' @ im_name m
        @ ''\", params.model_dump(mode='' @ squoted ''json'' @ '', by_alias=True))''
      else
        ''    async def '' @ snake @ ''(self, params: '' @ params_type m
        @ '', *, timeout_ms: int | None = None) -> '' @ result_type m @ '':'' @ nl
        @ ''        raw = await self._client.call(\"'' @ service @ ''\", \"'' @ im_name m
        @ ''\", params.model_dump(mode='' @ squoted ''json'' @ '', by_alias=True), timeout_ms=timeout_ms)'' @ nl
        @ ''        return '' @ result_type m @ ''.model_validate(raw)'')"

definition py_abc_method :: "ir_method \<Rightarrow> string" where
  "py_abc_method m =
     ''    @abstractmethod'' @ nl @ ''    async def '' @ camelToSnake (im_name m)
     @ ''(self, params: '' @ params_type m @ '') -> ''
     @ (if im_isNotification m then ''None'' else result_type m) @ '': ...''"

definition py_method_entry :: "ir_method \<Rightarrow> string" where
  "py_method_entry m =
     ''    \"'' @ im_name m @ ''\": MethodEntry(params_model='' @ params_type m @ '', result_model=''
     @ (if im_isNotification m then ''None'' else result_type m)
     @ '', handler_attr=\"'' @ camelToSnake (im_name m) @ ''\"),''"

definition py_service_var :: "string \<Rightarrow> string" where
  "py_service_var service =
     camelToSnake (map (\<lambda>c. if c = CHR ''-'' then underscore else c) service) @ ''_contract''"

definition renderPyTail :: "ir_contract \<Rightarrow> string" where
  "renderPyTail c =
     (let Pascal = kebabAndCamelToPascal (ic_service c);
          clientLines = js_join (nl @ nl) (map (py_client_method (ic_service c)) (ic_methods c));
          abcLines = js_join (nl @ nl) (map py_abc_method (ic_methods c));
          methodsEntries = js_join nl (map py_method_entry (ic_methods c)) in
      ''class '' @ Pascal @ ''Client:'' @ nl
      @ ''    def __init__(self, client: ClamatorClient) -> None:'' @ nl
      @ ''        self._client = client'' @ nl
      @ nl
      @ clientLines @ nl
      @ nl
      @ nl
      @ ''class '' @ Pascal @ ''Service(ABC):'' @ nl
      @ abcLines @ nl
      @ nl
      @ nl
      @ ''METHODS = {'' @ nl
      @ methodsEntries @ nl
      @ ''}'' @ nl
      @ nl
      @ py_service_var (ic_service c) @ '' = Contract('' @ nl
      @ ''    service=\"'' @ ic_service c @ ''\",'' @ nl
      @ ''    methods=METHODS,'' @ nl
      @ '')'' @ nl)"

definition py_header :: "string \<Rightarrow> string \<Rightarrow> string" where
  "py_header version sourceFile =
     ''# AUTO-GENERATED by @clamator/codegen v'' @ version @ '' from '' @ path_basename sourceFile @ ''.'' @ nl
     @ ''# DO NOT EDIT. Re-run codegen to update.'' @ nl
     @ ''from __future__ import annotations'' @ nl
     @ ''from abc import ABC, abstractmethod'' @ nl
     @ ''from clamator_protocol import ClamatorClient, Contract, MethodEntry'' @ nl
     @ nl"

definition py_file :: "string \<Rightarrow> ir_contract \<Rightarrow> string" where
  "py_file outDir c = path_join [outDir, ic_service c @ ''.py'']"

text \<open>The work for one contract; when the tool fails, what comes after it does not happen.\<close>

definition emit_py_contract ::
    "string \<Rightarrow> string \<Rightarrow> string \<Rightarrow> string \<Rightarrow> thrown + string \<Rightarrow> ir_contract \<Rightarrow>
     gen_op list \<times> (thrown + string)" where
  "emit_py_contract version bin outDir rand tool c =
     (let tmp_prefix = path_join [outDir, ''.tmp-''];
          tmp = tmp_prefix @ rand;
          schemaPath = path_join [tmp, ''schema.json''];
          modelsPath = path_join [tmp, ''models.py''];
          ops = [Mkdtemp tmp_prefix, WriteFile schemaPath (json_pretty (py_wrapper c)),
                 RunTool bin (datamodel_args schemaPath modelsPath)] in
      case tool of
        Inl e \<Rightarrow> (ops, Inl e)
      | Inr models \<Rightarrow>
        (ops @ [ReadFile modelsPath, RemoveDir tmp,
           WriteFile (py_file outDir c)
             (py_header version (ic_sourceFile c) @ clean_models models @ nl @ nl @ nl @ renderPyTail c)],
         Inr (py_file outDir c)))"

fun emit_py_contracts ::
    "string \<Rightarrow> string \<Rightarrow> string \<Rightarrow> (nat \<Rightarrow> string) \<Rightarrow> (nat \<Rightarrow> thrown + string) \<Rightarrow> nat \<Rightarrow>
     ir_contract list \<Rightarrow> gen_op list \<times> (thrown + string list)" where
  "emit_py_contracts version bin outDir rand tool n [] = ([], Inr [])"
| "emit_py_contracts version bin outDir rand tool n (c # cs) =
     (case emit_py_contract version bin outDir (rand n) (tool n) c of
        (ops, Inl e) \<Rightarrow> (ops, Inl e)
      | (ops, Inr file) \<Rightarrow>
        (case emit_py_contracts version bin outDir rand tool (Suc n) cs of
           (ops', Inl e) \<Rightarrow> (ops @ ops', Inl e)
         | (ops', Inr files) \<Rightarrow> (ops @ ops', Inr (file # files))))"

definition emitPy ::
    "string \<Rightarrow> (nat \<Rightarrow> string) \<Rightarrow> (nat \<Rightarrow> thrown + string) \<Rightarrow> string \<Rightarrow> string option \<Rightarrow>
     ir_contract list \<Rightarrow> gen_op list \<times> (thrown + string list)" where
  "emitPy version rand tool outDir datamodelCodegenBin contracts =
     (let bin = (case datamodelCodegenBin of None \<Rightarrow> ''datamodel-codegen'' | Some b \<Rightarrow> b);
          (ops, r) = emit_py_contracts version bin outDir rand tool 0 contracts in
      (Mkdir outDir # ops, r))"

section \<open>Lemmas\<close>

text \<open>Every schema of every method reaches the tool under its own name.\<close>

lemma py_defs_other:
  "k \<notin> params_type ` set ms \<union> result_type ` set ms \<Longrightarrow> jm_get (py_defs defs ms) k = jm_get defs k"
  by (induction defs ms rule: py_defs.induct) (auto simp: Let_def split: option.split)

lemma py_defs_get:
  assumes "distinct (map im_name ms)" "\<forall>m \<in> set ms. METHOD_RE (im_name m)" "m \<in> set ms"
  shows "jm_get (py_defs defs ms) (params_type m) = Some (is_jsonSchema (im_params m))"
    "im_result m = Some r \<Longrightarrow> jm_get (py_defs defs ms) (result_type m) = Some (is_jsonSchema r)"
proof -
  have "jm_get (py_defs defs ms) (params_type m) = Some (is_jsonSchema (im_params m))
    \<and> (\<forall>r. im_result m = Some r \<longrightarrow> jm_get (py_defs defs ms) (result_type m) = Some (is_jsonSchema r))"
    using assms
  proof (induction defs ms rule: py_defs.induct)
    case (1 defs)
    then show ?case by simp
  next
    case (2 defs n ms)
    show ?case
    proof (cases "m = n")
      case True
      have "params_type n \<noteq> params_type x \<and> params_type n \<noteq> result_type x
          \<and> result_type n \<noteq> result_type x \<and> result_type n \<noteq> params_type x" if "x \<in> set ms" for x
        using "2.prems" that type_names_inject [of n x] type_names_inject(3) [of x n] by force
      then have "params_type n \<notin> params_type ` set ms \<union> result_type ` set ms"
        "result_type n \<notin> params_type ` set ms \<union> result_type ` set ms" by auto
      with True show ?thesis
        using type_names_inject(3) [of n n] "2.prems"
        by (auto simp: Let_def py_defs_other split: option.split)
    next
      case False
      with 2 show ?thesis by (simp add: Let_def)
    qed
  qed
  then show "jm_get (py_defs defs ms) (params_type m) = Some (is_jsonSchema (im_params m))"
    "im_result m = Some r \<Longrightarrow> jm_get (py_defs defs ms) (result_type m) = Some (is_jsonSchema r)" by auto
qed

lemma renderPyTail_methods:
  assumes "m \<in> set (ic_methods c)"
  shows "sublist (py_client_method (ic_service c) m) (renderPyTail c)"
    "sublist (py_abc_method m) (renderPyTail c)"
    "sublist (py_method_entry m) (renderPyTail c)"
proof -
  have js: "sublist (f m) (js_join s (map f (ic_methods c)))" for f s
    using assms by (intro sublist_join) simp
  have text_split: "\<exists>a b. renderPyTail c = a @ js_join (nl @ nl) (map (py_client_method (ic_service c)) (ic_methods c)) @ b"
    "\<exists>a b. renderPyTail c = a @ js_join (nl @ nl) (map py_abc_method (ic_methods c)) @ b"
    "\<exists>a b. renderPyTail c = a @ js_join nl (map py_method_entry (ic_methods c)) @ b"
    unfolding renderPyTail_def Let_def by (metis append.assoc)+
  show "sublist (py_client_method (ic_service c) m) (renderPyTail c)"
    using text_split(1) js sublist_mid by metis
  show "sublist (py_abc_method m) (renderPyTail c)"
    using text_split(2) js sublist_mid by metis
  show "sublist (py_method_entry m) (renderPyTail c)"
    using text_split(3) js sublist_mid by metis
qed

lemma emit_py_writes:
  assumes "emit_py_contracts version bin outDir rand tool n cs = (ops, Inr files)" "c \<in> set cs"
  shows "\<exists>front. WriteFile (py_file outDir c) (front @ renderPyTail c) \<in> set ops"
  using assms
proof (induction cs arbitrary: n ops files)
  case (Cons d cs)
  obtain models where m: "tool n = Inr models"
    using Cons.prems(1) by (cases "tool n") (simp_all add: emit_py_contract_def Let_def)
  obtain ops' r where e: "emit_py_contracts version bin outDir rand tool (Suc n) cs = (ops', r)" by fastforce
  obtain files' where "r = Inr files'"
    using Cons.prems(1) m e by (cases r) (simp_all add: emit_py_contract_def Let_def)
  then have rest: "emit_py_contracts version bin outDir rand tool (Suc n) cs = (ops', Inr files')" "set ops' \<subseteq> set ops"
    using Cons.prems(1) m e by (auto simp: emit_py_contract_def Let_def)
  show ?case
  proof (cases "c = d")
    case True
    have "WriteFile (py_file outDir d) ((py_header version (ic_sourceFile d) @ clean_models models @ nl @ nl @ nl) @ renderPyTail d)
        \<in> set ops"
      using Cons.prems(1) m rest(1) by (auto simp: emit_py_contract_def Let_def)
    with True show ?thesis by blast
  next
    case False
    then show ?thesis using Cons.IH [OF rest(1)] Cons.prems(2) rest(2) by auto
  qed
qed simp

lemma py_service_var_identifier:
  assumes "SERVICE_RE s"
  shows "is_identifier (py_service_var s)"
proof -
  let ?t = "map (\<lambda>c. if c = CHR ''-'' then underscore else c) s"
  from assms obtain c r where s: "s = c # r" "is_lower c"
    and all: "\<forall>d \<in> set s. alnum d \<or> d = CHR ''-''"
    by (cases s) (auto simp: list_all_iff alnum_def)
  have "c \<noteq> CHR ''-''" using s(2) by (auto simp: char_simps)
  then obtain t where "camelToSnake ?t = to_lower c # t"
    using camelToSnake_hd [of c "map (\<lambda>c. if c = CHR ''-'' then underscore else c) r"] by (auto simp: s(1))
  moreover have "list_all snake_char (camelToSnake ?t)"
    using all by (intro camelToSnake_chars) (auto simp: list_all_iff)
  moreover have "list_all snake_char ''_contract''"
    by (simp add: snake_char_def is_lower_digit_def char_simps underscore_def)
  ultimately show ?thesis
    using s(2) by (intro snake_char_identifier) (auto simp: py_service_var_def lower_not_upper)
qed

text \<open>On failure the temporary directory stays; on success every one is removed again.\<close>

definition temp_dirs_left :: "gen_op list \<Rightarrow> int" where
  "temp_dirs_left ops =
     int (length (filter (\<lambda>p. case p of Mkdtemp _ \<Rightarrow> True | _ \<Rightarrow> False) ops))
     - int (length (filter (\<lambda>p. case p of RemoveDir _ \<Rightarrow> True | _ \<Rightarrow> False) ops))"

lemma temp_dirs_left_append: "temp_dirs_left (xs @ ys) = temp_dirs_left xs + temp_dirs_left ys"
  by (simp add: temp_dirs_left_def)

lemma emit_py_contract_temp:
  "temp_dirs_left (fst (emit_py_contract v bin out r tool c)) = (if is_Inl tool then 1 else 0)"
  by (cases tool) (simp_all add: emit_py_contract_def temp_dirs_left_def Let_def)

lemma emit_py_contracts_temp:
  "temp_dirs_left (fst (emit_py_contracts v bin out rand tool n cs)) =
     (if is_Inl (snd (emit_py_contracts v bin out rand tool n cs)) then 1 else 0)"
proof (induction v bin out rand tool n cs rule: emit_py_contracts.induct)
  case (1 v bin out rand tool n)
  then show ?case by (simp add: temp_dirs_left_def)
next
  case (2 v bin out rand tool n c cs)
  have one: "is_Inl (snd (emit_py_contract v bin out (rand n) (tool n) c)) = is_Inl (tool n)"
    by (cases "tool n") (simp_all add: emit_py_contract_def Let_def)
  show ?case
    using 2 emit_py_contract_temp [of v bin out "rand n" "tool n" c] one
    by (auto simp: temp_dirs_left_append split: prod.splits sum.splits)
qed

text \<open>
  The outcome of the child process: the first \<open>error\<close> or \<open>exit\<close> decides, a failure reports the
  diagnostics that came before it, and what comes behind it, late diagnostics included, is lost.
\<close>

fun stderr_text :: "child_event list \<Rightarrow> string" where
  "stderr_text [] = []"
| "stderr_text (StderrData chunk # es) = chunk @ stderr_text es"
| "stderr_text (ev # es) = stderr_text es"

lemma child_outcome_data:
  "list_all (\<lambda>ev. \<exists>c. ev = StderrData c) es \<Longrightarrow>
     child_outcome stderr (es @ fs) = child_outcome (stderr @ stderr_text es) fs"
  by (induction es arbitrary: stderr) auto

lemma child_failure_text:
  assumes "list_all (\<lambda>ev. \<exists>c. ev = StderrData c) es" "status \<noteq> Some 0"
  shows "runDatamodelCodegen (es @ ChildExit status # late)
    = Some (Inl (new_error (''datamodel-codegen exited '' @ exit_text status @ '': '' @ stderr_text es)))"
  using assms by (simp add: runDatamodelCodegen_def child_outcome_data)

lemma child_settles_once:
  "child_outcome stderr es = Some r \<Longrightarrow> child_outcome stderr (es @ late) = Some r"
  by (induction stderr es rule: child_outcome.induct) auto

lemma tool_fails_iff:
  "tool_of es models = Some (Inl e) \<longleftrightarrow> runDatamodelCodegen es = Some (Inl e)"
  by (cases "runDatamodelCodegen es") (auto simp: tool_of_def map_sum_def split: sum.splits)

section \<open>Properties\<close>

text \<open>
  C36: The names the generators make from a valid service and a valid method are identifiers: the
  class name, the Python contract variable and the Python method name. Only the name under
  which the TypeScript file imports the contract may fail to be one; it is an identifier
  exactly when every hyphen of the service name stands before a letter.
\<close>

theorem generated_names_are_identifiers:
  assumes "SERVICE_RE s" "METHOD_RE m"
  shows "is_identifier (kebabAndCamelToPascal s) \<and> is_identifier (py_service_var s)
    \<and> is_identifier (camelToSnake m) \<and> list_all snake_char (camelToSnake m)
    \<and> (is_identifier (export_name s) \<longleftrightarrow> hyphens_before_letters s)"
  using pascal_identifier [OF assms(1)] py_service_var_identifier [OF assms(1)]
    camelToSnake_identifier [OF assms(2)] export_name_identifier [OF assms(1)] by simp

theorem generated_names_are_identifiers_witness:
  "\<not> is_identifier (export_name ''job-2'') \<and> is_identifier (export_name ''job-two'')
   \<and> is_identifier (py_service_var ''job-2'')"
  using generated_names_are_identifiers [of "''job-2''" "''add''"]
    generated_names_are_identifiers [of "''job-two''" "''add''"]
  by (simp add: char_simps)

text \<open>
  With valid and distinct method names, the schema file given to the model generator holds
  every parameter and result schema of the contract under the model name that the generated
  Python refers to; none overwrites another.
\<close>

lemma py_schemas_complete:
  assumes "distinct (map im_name (ic_methods c))" "\<forall>m \<in> set (ic_methods c). METHOD_RE (im_name m)"
    and "m \<in> set (ic_methods c)"
  shows "js_get (js_get (py_wrapper c) ''$defs'') (params_type m) = is_jsonSchema (im_params m)
    \<and> (im_result m = Some r \<longrightarrow> js_get (js_get (py_wrapper c) ''$defs'') (result_type m) = is_jsonSchema r)"
  using py_defs_get [OF assms] by (simp_all add: py_wrapper_def obj_get_jm [of "py_defs [] (ic_methods c)"])

text \<open>
  The Python generator removes every temporary directory it made when it succeeds, and leaves
  exactly one behind when the model generator fails.
\<close>

lemma py_temp_dirs:
  "temp_dirs_left (fst (emitPy version rand tool outDir bin cs)) =
     (if is_Inl (snd (emitPy version rand tool outDir bin cs)) then 1 else 0)"
  using emit_py_contracts_temp [of version _ outDir rand tool 0 cs]
  by (simp add: emitPy_def Let_def split_beta temp_dirs_left_def)

end
