(* ===== verification/Cli.thy ===== *)
theory Cli
  imports ManifestFile EmitPy
begin

text \<open>
  \<open>ts/packages/codegen/src/cli.ts\<close>: \<open>runCli\<close>, and the action that makes its options from
  what the command line parser hands over. The result is the file operations done and how
  the run ended; behind it the command as it is declared and the entry point of the module. The
  command line parser is a third-party package: a function from the declared command and the arguments.
\<close>

record cli_options =
  co_src :: string
  co_outTs :: "string option"
  co_outPy :: "string option"
  co_manifest :: "string option"
  co_jsonSchemaTarget :: "string option"
  co_tsContractImport :: "string option"
  co_watch :: "bool option"

text \<open>A string option counts when it is truthy.\<close>

definition truthy :: "string option \<Rightarrow> string option" where
  "truthy x = (case x of Some (c # cs) \<Rightarrow> Some (c # cs) | _ \<Rightarrow> None)"

definition cli_action :: "cli_options \<Rightarrow> cli_options" where
  "cli_action opts =
     \<lparr>co_src = co_src opts, co_outTs = truthy (co_outTs opts), co_outPy = truthy (co_outPy opts),
      co_manifest = truthy (co_manifest opts),
      co_jsonSchemaTarget = truthy (co_jsonSchemaTarget opts),
      co_tsContractImport = truthy (co_tsContractImport opts),
      co_watch = (if co_watch opts = Some True then Some True else None)\<rparr>"

text \<open>The three output steps; each is skipped when its option is missing.\<close>

definition cli_ts :: "string \<Rightarrow> cli_options \<Rightarrow> ir_contract list \<Rightarrow> gen_op list \<times> (thrown + unit)" where
  "cli_ts version opts ir =
     (case truthy (co_outTs opts) of
        None \<Rightarrow> ([], Inr ())
      | Some dir \<Rightarrow>
        (case truthy (co_tsContractImport opts) of
           None \<Rightarrow> ([], Inl (new_error ''--out-ts requires --ts-contract-import''))
         | Some imp \<Rightarrow> (fst (emitTs version dir imp ir), Inr ())))"

definition cli_py :: "string \<Rightarrow> (nat \<Rightarrow> string) \<Rightarrow> (nat \<Rightarrow> thrown + string) \<Rightarrow> cli_options \<Rightarrow>
    ir_contract list \<Rightarrow> gen_op list \<times> (thrown + unit)" where
  "cli_py version rand tool opts ir =
     (case truthy (co_outPy opts) of
        None \<Rightarrow> ([], Inr ())
      | Some dir \<Rightarrow>
        (case emitPy version rand tool dir None ir of
           (ops, Inl e) \<Rightarrow> (ops, Inl e) | (ops, Inr files) \<Rightarrow> (ops, Inr ())))"

definition cli_manifest :: "string \<Rightarrow> cli_options \<Rightarrow> ir_contract list \<Rightarrow> gen_op list \<times> (thrown + unit)" where
  "cli_manifest version opts ir =
     (case truthy (co_manifest opts) of
        None \<Rightarrow> ([], Inr ()) | Some out \<Rightarrow> (writeManifest version ir out, Inr ()))"

text \<open>One step after another; the first failure ends the run.\<close>

fun run_steps :: "(gen_op list \<times> (thrown + unit)) list \<Rightarrow> gen_op list \<times> (thrown + unit)" where
  "run_steps [] = ([], Inr ())"
| "run_steps ((ops, Inl e) # steps) = (ops, Inl e)"
| "run_steps ((ops, Inr u) # steps) = (let (ops', r) = run_steps steps in (ops @ ops', r))"

definition runCli ::
    "string \<Rightarrow> (nat \<Rightarrow> string) \<Rightarrow> (nat \<Rightarrow> thrown + string) \<Rightarrow>
     (string \<Rightarrow> thrown + loaded_contract list) \<Rightarrow>
     (string \<Rightarrow> loaded_contract list \<Rightarrow> thrown + ir_contract list) \<Rightarrow>
     cli_options \<Rightarrow> gen_op list \<times> (thrown + unit)" where
  "runCli version rand tool load_contracts lower_contracts opts =
     (if co_watch opts = Some True
      then ([Warn ''--watch is not implemented in v0.1; performing a single run and exiting''], Inr ())
      else case load_contracts (co_src opts) of
        Inl e \<Rightarrow> ([], Inl e)
      | Inr loaded \<Rightarrow>
        if loaded = []
        then ([Warn (''[clamator-codegen] no contracts found in '' @ co_src opts)], Inr ())
        else case lower_contracts (case co_jsonSchemaTarget opts of None \<Rightarrow> ''jsonSchema7'' | Some t \<Rightarrow> t) loaded of
          Inl e \<Rightarrow> ([], Inl e)
        | Inr ir \<Rightarrow>
          run_steps [cli_ts version opts ir, cli_py version rand tool opts ir,
                     cli_manifest version opts ir])"

lemma run_steps_Inr:
  assumes "run_steps steps = (ops, Inr ())"
  shows "\<forall>s \<in> set steps. snd s = Inr () \<and> set (fst s) \<subseteq> set ops"
  using assms
proof (induction steps arbitrary: ops rule: run_steps.induct)
  case (3 ops1 u steps)
  obtain ops2 r where r: "run_steps steps = (ops2, r)" by (cases "run_steps steps")
  with "3.prems" have "r = Inr ()" "ops = ops1 @ ops2" by auto
  with "3.IH" r show ?case by auto
qed auto

text \<open>\<open>version.ts\<close>: the version that the texts show, from the text of \<open>package.json\<close>.\<close>

definition package_version :: "thrown + string \<Rightarrow> thrown + string" where
  "package_version file =
     rbind file (\<lambda>txt. rbind (json_parse txt) (\<lambda>pkg.
       rbind (get_or_throw pkg ''version'') (\<lambda>v. Inr (js_string v))))"

text \<open>
  Whether the module is the program that was started: both paths lead to the same file.
  \<open>realpath\<close> throws when there is none.
\<close>

definition isInvokedAsCli :: "(string \<Rightarrow> thrown + string) \<Rightarrow> string \<Rightarrow> string option \<Rightarrow> bool" where
  "isInvokedAsCli realpath this_file argv1 =
     (case truthy argv1 of
        None \<Rightarrow> False
      | Some p \<Rightarrow>
        (case realpath this_file of
           Inl _ \<Rightarrow> False
         | Inr a \<Rightarrow> (case realpath p of Inl _ \<Rightarrow> False | Inr b \<Rightarrow> a = b)))"

section \<open>The program\<close>

text \<open>
  The command as it is declared: each option with its flags, its description, its default and
  whether it is required.
\<close>

record option_decl =
  od_flags :: string
  od_description :: string
  od_default :: "string option"
  od_required :: bool

record cli_command =
  cc_name :: string
  cc_description :: string
  cc_options :: "option_decl list"

definition required_option :: "string \<Rightarrow> string \<Rightarrow> option_decl" where
  "required_option flags description =
     \<lparr>od_flags = flags, od_description = description, od_default = None, od_required = True\<rparr>"

definition plain_option :: "string \<Rightarrow> string \<Rightarrow> string option \<Rightarrow> option_decl" where
  "plain_option flags description dflt =
     \<lparr>od_flags = flags, od_description = description, od_default = dflt, od_required = False\<rparr>"

definition program :: cli_command where
  "program =
     \<lparr>cc_name = ''clamator-codegen'',
      cc_description = ''Generate TS + Py wrappers from Zod contracts'',
      cc_options =
        [required_option ''--src <dir>'' ''directory containing *.ts files exporting defineContract calls'',
         plain_option ''--out-ts <dir>'' ''output dir for generated TS wrappers'' None,
         plain_option ''--out-py <dir>'' ''output dir for generated Py wrappers'' None,
         plain_option ''--manifest <path>'' ''optional cross-side manifest output'' None,
         plain_option ''--json-schema-target <name>'' ''jsonSchema7 | openApi3'' (Some ''jsonSchema7''),
         plain_option ''--ts-contract-import <path>'' ''how generated TS imports the source contract'' None,
         plain_option ''--watch'' ''rebuild on src changes'' None]\<rparr>"

text \<open>
  What the command line parser makes of the arguments: the options for the action, or the end
  of the process (after the help text, or for a missing or unknown option).
\<close>

datatype parsed_args = ParsedOptions cli_options | ParserExits nat

text \<open>
  A whole run of the module: nothing when it is only imported. An error of the action is
  printed and ends the process with 1. The result: what was done, what is printed as an
  error, and the exit code.
\<close>

definition cli_main ::
    "(cli_command \<Rightarrow> string list \<Rightarrow> parsed_args) \<Rightarrow> (cli_options \<Rightarrow> gen_op list \<times> (thrown + unit)) \<Rightarrow>
     bool \<Rightarrow> string list \<Rightarrow> gen_op list \<times> thrown option \<times> nat" where
  "cli_main parse_args run invoked args =
     (if \<not> invoked then ([], None, 0)
      else case parse_args program args of
        ParserExits n \<Rightarrow> ([], None, n)
      | ParsedOptions opts \<Rightarrow>
        (case run (cli_action opts) of
           (ops, Inl err) \<Rightarrow> (ops, Some err, 1)
         | (ops, Inr _) \<Rightarrow> (ops, None, 0)))"

lemma cli_main_ok:
  assumes "cli_main parse_args run True args = (ops, None, n)" "parse_args program args = ParsedOptions opts"
  shows "run (cli_action opts) = (ops, Inr ())" "n = 0"
  using assms by (auto simp: cli_main_def split: prod.splits sum.splits)

lemma truthy_twice [simp]: "truthy (truthy x) = truthy x"
  by (auto simp: truthy_def split: option.split list.split)

lemma cli_action_sel [simp]:
  "co_src (cli_action opts) = co_src opts" "co_outTs (cli_action opts) = truthy (co_outTs opts)"
  "co_outPy (cli_action opts) = truthy (co_outPy opts)"
  "co_manifest (cli_action opts) = truthy (co_manifest opts)"
  "co_jsonSchemaTarget (cli_action opts) = truthy (co_jsonSchemaTarget opts)"
  "co_watch (cli_action opts) = Some True \<longleftrightarrow> co_watch opts = Some True"
  by (simp_all add: cli_action_def)

text \<open>What \<open>runCli\<close> has written when it ends normally.\<close>

lemma runCli_writes_outputs:
  assumes "runCli version rand tool load lower opts = (ops, Inr ())" "co_watch opts \<noteq> Some True"
    and "load (co_src opts) = Inr loaded" "loaded \<noteq> []"
    and "lower (case co_jsonSchemaTarget opts of None \<Rightarrow> ''jsonSchema7'' | Some t \<Rightarrow> t) loaded = Inr ir"
    and "c \<in> set ir" "m \<in> set (ic_methods c)"
  shows "(\<forall>dir. truthy (co_outTs opts) = Some dir \<longrightarrow> (\<exists>txt. WriteFile (ts_file dir c) txt \<in> set ops
        \<and> sublist (ts_client_method (ic_service c) m) txt \<and> sublist (ts_service_method m) txt
        \<and> sublist (ts_alias (export_name (ic_service c)) m) txt))
    \<and> (\<forall>dir. truthy (co_outPy opts) = Some dir \<longrightarrow> (\<exists>txt. WriteFile (py_file dir c) txt \<in> set ops
        \<and> sublist (py_client_method (ic_service c) m) txt \<and> sublist (py_abc_method m) txt
        \<and> sublist (py_method_entry m) txt))
    \<and> (\<forall>out. truthy (co_manifest opts) = Some out \<longrightarrow> WriteFile out (manifest_text version ir) \<in> set ops)"
proof (intro conjI allI impI)
  let ?steps = "[cli_ts version opts ir, cli_py version rand tool opts ir, cli_manifest version opts ir]"
  have "run_steps ?steps = (ops, Inr ())" using assms(1-5) by (simp add: runCli_def)
  from run_steps_Inr [OF this] have
    ts: "snd (cli_ts version opts ir) = Inr ()" "set (fst (cli_ts version opts ir)) \<subseteq> set ops" and
    py: "snd (cli_py version rand tool opts ir) = Inr ()" "set (fst (cli_py version rand tool opts ir)) \<subseteq> set ops" and
    mf: "set (fst (cli_manifest version opts ir)) \<subseteq> set ops" by auto
  show "\<exists>txt. WriteFile (ts_file dir c) txt \<in> set ops
        \<and> sublist (ts_client_method (ic_service c) m) txt \<and> sublist (ts_service_method m) txt
        \<and> sublist (ts_alias (export_name (ic_service c)) m) txt"
    if dir: "truthy (co_outTs opts) = Some dir" for dir
  proof -
    obtain imp where "WriteFile (ts_file dir c) (renderTsFile version imp c) \<in> set ops"
      using ts dir assms(6) by (auto simp: cli_ts_def emitTs_def split: option.splits)
    then show ?thesis using renderTsFile_methods [OF assms(7), of version imp] by blast
  qed
  show "\<exists>txt. WriteFile (py_file dir c) txt \<in> set ops
        \<and> sublist (py_client_method (ic_service c) m) txt \<and> sublist (py_abc_method m) txt
        \<and> sublist (py_method_entry m) txt"
    if dir: "truthy (co_outPy opts) = Some dir" for dir
  proof -
    obtain ops' files where e: "emit_py_contracts version ''datamodel-codegen'' dir rand tool 0 ir = (ops', Inr files)"
      "set ops' \<subseteq> set ops"
      using py dir by (auto simp: cli_py_def emitPy_def Let_def split: prod.splits sum.splits)
    obtain front where "WriteFile (py_file dir c) (front @ renderPyTail c) \<in> set ops"
      using emit_py_writes [OF e(1) assms(6)] e(2) by blast
    moreover have "sublist x (front @ renderPyTail c)" if "sublist x (renderPyTail c)" for x
      using sublist_mid [OF that, of front "[]"] by simp
    ultimately show ?thesis using renderPyTail_methods [OF assms(7)] by blast
  qed
  show "WriteFile out (manifest_text version ir) \<in> set ops" if "truthy (co_manifest opts) = Some out" for out
    using mf that by (auto simp: cli_manifest_def writeManifest_def)
qed

section \<open>Properties\<close>


definition sample_options :: cli_options where
  "sample_options = \<lparr>co_src = ''d'', co_outTs = None, co_outPy = Some ''o'', co_manifest = Some ''m.json'',
     co_jsonSchemaTarget = Some ''jsonSchema7'', co_tsContractImport = None, co_watch = None\<rparr>"

definition sample_run :: "cli_options \<Rightarrow> gen_op list \<times> (thrown + unit)" where
  "sample_run = runCli ''1'' (\<lambda>n. []) (\<lambda>n. Inr []) (\<lambda>src. Inr [sample_loaded]) (\<lambda>t l. Inr [sample_lowered])"

text \<open>A parser that understands one command line.\<close>

definition sample_parser :: "cli_command \<Rightarrow> string list \<Rightarrow> parsed_args" where
  "sample_parser cmd args =
     (if args = [''--src'', ''d'', ''--out-py'', ''o'', ''--manifest'', ''m.json'']
      then ParsedOptions (sample_options\<lparr>co_jsonSchemaTarget := od_default (cc_options cmd ! 4)\<rparr>)
      else ParserExits 1)"


text \<open>
  With the watch option \<open>runCli\<close> says that it performs a single run and exits, but it performs
  none: it neither loads a contract nor writes a file.
\<close>

lemma watch_runs_nothing:
  assumes "co_watch opts = Some True"
  shows "runCli version rand tool load lower opts =
    ([Warn ''--watch is not implemented in v0.1; performing a single run and exiting''], Inr ())"
  using assms by (simp add: runCli_def)

end
