(* ===== verification/ReadmeCheck.thy ===== *)
theory ReadmeCheck
  imports Lower EmitTs
begin

text \<open>
  The maintenance script \<open>scripts/check-readme-verbatim.mjs\<close>: it finds the fenced code blocks
  of the READMEs, reads the source range each one cites, strips comments and white space from
  both, and reports every block that differs. The files are a parameter \<open>read_file\<close>; a line of
  output is a value of \<open>report\<close>, since the texts hold characters beyond 255.
\<close>

section \<open>Comments\<close>

definition lines_of :: "string \<Rightarrow> string list" where
  "lines_of = js_split (CHR 0x0A)"

text \<open>\<open>#.*$\<close>: the dot stops at a line terminator, and the dollar is the end of the string.\<close>

fun hash_to_end :: "string \<Rightarrow> bool" where
  "hash_to_end [] = False"
| "hash_to_end (c # cs) = (c = CHR ''#'' \<and> CHR 0x0A \<notin> set cs \<and> CHR 0x0D \<notin> set cs)"

fun cut_hash :: "string \<Rightarrow> string" where
  "cut_hash [] = []"
| "cut_hash (c # cs) = (if js_space c \<and> hash_to_end cs then [c] else c # cut_hash cs)"

definition strip_py_line :: "string \<Rightarrow> string" where
  "strip_py_line line = (if hash_to_end line then [] else cut_hash line)"

text \<open>\<open>indexOf\<close> of a string, from the start and from a position.\<close>

fun find_sub :: "string \<Rightarrow> string \<Rightarrow> nat option" where
  "find_sub pat [] = (if pat = [] then Some 0 else None)"
| "find_sub pat (c # cs) =
     (if prefix pat (c # cs) then Some 0 else map_option Suc (find_sub pat cs))"

definition find_from :: "string \<Rightarrow> nat \<Rightarrow> string \<Rightarrow> nat option" where
  "find_from pat i s = map_option (\<lambda>k. k + i) (find_sub pat (drop i s))"

lemma find_sub_Some:
  "find_sub pat s = Some i \<Longrightarrow> prefix pat (drop i s) \<and> i + length pat \<le> length s"
proof (induction s arbitrary: i)
  case Nil
  then show ?case by (simp split: if_split_asm)
next
  case (Cons c cs)
  then show ?case
    by (auto split: if_split_asm dest: prefix_length_le)
qed

lemma find_sub_None: "find_sub pat s = None \<longleftrightarrow> \<not> sublist pat s"
  by (induction s) (auto simp: sublist_Cons_right)

lemma find_from_Some:
  assumes "find_from pat k s = Some i" "k \<le> length s"
  shows "k \<le> i \<and> i + length pat \<le> length s"
  using assms find_sub_Some [of pat "drop k s"] by (auto simp: find_from_def)

text \<open>The inner loop: it removes closed block comments, and cuts the line at an open one.\<close>

function strip_opens :: "string \<Rightarrow> string \<times> bool" where
  "strip_opens line =
     (case find_sub ''/*'' line of
        None \<Rightarrow> (line, False)
      | Some i \<Rightarrow>
        (case find_from ''*/'' (i + 2) line of
           None \<Rightarrow> (take i line, True)
         | Some e \<Rightarrow> strip_opens (take i line @ drop (e + 2) line)))"
  by pat_completeness auto

termination
proof (relation "measure length")
  fix line i e
  assume "find_sub ''/*'' line = Some i" "find_from ''*/'' (i + 2) line = Some e"
  then show "(take i line @ drop (e + 2) line, line) \<in> measure length"
    using find_sub_Some [of "''/*''" line i] find_from_Some [of "''*/''" "i + 2" line e] by auto
qed simp

declare strip_opens.simps [simp del]

text \<open>How often a quote occurs that no backslash precedes.\<close>

fun unescaped :: "char \<Rightarrow> bool \<Rightarrow> string \<Rightarrow> nat" where
  "unescaped q after_backslash [] = 0"
| "unescaped q after_backslash (c # cs) =
     (if c = q \<and> \<not> after_backslash then 1 else 0) + unescaped q (c = CHR 0x5C) cs"

definition strip_slashes :: "string \<Rightarrow> string" where
  "strip_slashes line =
     (case find_sub ''//'' line of
        None \<Rightarrow> line
      | Some i \<Rightarrow>
        (let before = take i line in
         if even (unescaped (CHR 0x22) False before) \<and> even (unescaped (CHR 0x27) False before)
         then before else line))"

definition ts_line :: "bool \<Rightarrow> string \<Rightarrow> string \<times> bool" where
  "ts_line inBlock line =
     (let code_part = (\<lambda>line. let (l, b) = strip_opens line in (strip_slashes l, b)) in
      if inBlock then
        (case find_sub ''*/'' line of
           None \<Rightarrow> ([], True)
         | Some e \<Rightarrow> code_part (drop (e + 2) line))
      else code_part line)"

fun strip_ts_lines :: "bool \<Rightarrow> string list \<Rightarrow> string list" where
  "strip_ts_lines inBlock [] = []"
| "strip_ts_lines inBlock (l # ls) =
     (let (l', b) = ts_line inBlock l in l' # strip_ts_lines b ls)"

definition stripComments :: "string \<Rightarrow> string \<Rightarrow> string" where
  "stripComments txt lang =
     (if lang = ''python'' \<or> lang = ''py'' then js_join nl (map strip_py_line (lines_of txt))
      else if lang = ''ts'' \<or> lang = ''typescript'' then js_join nl (strip_ts_lines False (lines_of txt))
      else txt)"

section \<open>White space\<close>

definition rtrim :: "string \<Rightarrow> string" where
  "rtrim l = rev (dropWhile js_space (rev l))"

fun collapse :: "bool \<Rightarrow> string list \<Rightarrow> string list" where
  "collapse lastBlank [] = []"
| "collapse lastBlank (l # ls) =
     (let blank = (l = []) in
      if blank \<and> lastBlank then collapse lastBlank ls else l # collapse blank ls)"

definition shift_blank :: "string list \<Rightarrow> string list" where
  "shift_blank ls = dropWhile (\<lambda>l. l = []) ls"

definition pop_blank :: "string list \<Rightarrow> string list" where
  "pop_blank ls = rev (dropWhile (\<lambda>l. l = []) (rev ls))"

definition normalizeWhitespace :: "string \<Rightarrow> string" where
  "normalizeWhitespace txt =
     js_join nl (pop_blank (shift_blank (collapse False (map rtrim (lines_of txt)))))"

section \<open>Blocks and their citations\<close>

record citation =
  ci_path :: string
  ci_range :: "(nat \<times> nat) option"

record code_block =
  cb_lang :: string
  cb_code :: string
  cb_citation :: "citation option"
  cb_blockStartLine :: nat
  cb_citationLineNo :: "nat option"

definition ticks :: string where
  "ticks = replicate 3 (CHR 0x60)"

definition is_word :: "char \<Rightarrow> bool" where
  "is_word c \<longleftrightarrow> is_lower c \<or> is_upper c \<or> is_digit c \<or> c = CHR 0x5F"

text \<open>The opening fence, a name behind three backticks, and the closing one.\<close>

definition open_fence :: "string \<Rightarrow> string option" where
  "open_fence line =
     (if prefix ticks line then
        (let w = takeWhile is_word (drop 3 line) in
         if w \<noteq> [] \<and> list_all js_space (dropWhile is_word (drop 3 line))
         then Some (map to_lower w) else None)
      else None)"

definition close_fence :: "string \<Rightarrow> bool" where
  "close_fence line \<longleftrightarrow> prefix ticks line \<and> list_all js_space (drop 3 line)"

text \<open>
  \<open>CITATION_RE\<close>. Its path is lazy: it ends at the first place where the rest of the quoted text
  is a line range, or at the end. A number is exact, also where JavaScript would round it.
\<close>

fun cite_range :: "string \<Rightarrow> (nat \<times> nat) option" where
  "cite_range [] = None"
| "cite_range (c # cs) =
     (let a = takeWhile is_digit cs; r = dropWhile is_digit cs in
      if c = CHR '':'' \<and> a \<noteq> [] \<and> r \<noteq> [] \<and> hd r = CHR ''-'' \<and> tl r \<noteq> [] \<and> list_all is_digit (tl r)
      then Some (digits_val a, digits_val (tl r)) else None)"

fun split_cite :: "string \<Rightarrow> string \<Rightarrow> citation" where
  "split_cite p [] = \<lparr>ci_path = p, ci_range = None\<rparr>"
| "split_cite p (c # cs) =
     (case cite_range (c # cs) of
        Some r \<Rightarrow> \<lparr>ci_path = p, ci_range = Some r\<rparr>
      | None \<Rightarrow> split_cite (p @ [c]) cs)"

definition cite_intro :: string where
  "cite_intro = ''(Verbatim from '' @ [CHR 0x60]"

definition parse_citation :: "string \<Rightarrow> citation option" where
  "parse_citation t =
     (if prefix cite_intro t then
        (let quoted = takeWhile (\<lambda>c. c \<noteq> CHR 0x60) (drop (length cite_intro) t);
             rest = dropWhile (\<lambda>c. c \<noteq> CHR 0x60) (drop (length cite_intro) t) in
         if quoted \<noteq> [] \<and> prefix [CHR 0x60, CHR ''.''] rest
         then Some (split_cite [hd quoted] (tl quoted)) else None)
      else None)"

text \<open>The scan behind a block: the first line that is not blank decides. \<open>n\<close> is its number.\<close>

fun scan_citation :: "nat \<Rightarrow> string list \<Rightarrow> (citation \<times> nat) option" where
  "scan_citation n [] = None"
| "scan_citation n (l # ls) =
     (if js_trim l = [] then scan_citation (Suc n) ls
      else map_option (\<lambda>c. (c, n)) (parse_citation (js_trim l)))"

text \<open>\<open>i\<close> is the index of the first of the lines that are left.\<close>

function extract_from :: "nat \<Rightarrow> string list \<Rightarrow> thrown + code_block list" where
  "extract_from i [] = Inr []"
| "extract_from i (l # ls) =
     (case open_fence l of
        None \<Rightarrow> extract_from (Suc i) ls
      | Some lang \<Rightarrow>
        (let body = takeWhile (\<lambda>x. \<not> close_fence x) ls;
             j = i + 1 + length body in
         case dropWhile (\<lambda>x. \<not> close_fence x) ls of
           [] \<Rightarrow> Inl (new_error (''Unclosed fence starting at line '' @ nat_digits (i + 1)))
         | _ # after \<Rightarrow>
           (let found = scan_citation (j + 2) (take 5 after) in
            rbind (extract_from (j + 1) after) (\<lambda>blocks.
              Inr (\<lparr>cb_lang = lang, cb_code = js_join nl body, cb_citation = map_option fst found,
                    cb_blockStartLine = i + 2, cb_citationLineNo = map_option snd found\<rparr> # blocks)))))"
  by pat_completeness auto

termination
proof (relation "measure (length \<circ> snd)")
  fix i l ls lang body j c after
  assume "dropWhile (\<lambda>x. \<not> close_fence x) ls = c # after"
  then have "length (c # after) \<le> length ls" by (metis length_dropWhile_le)
  then show "((j + 1, after), i, l # ls) \<in> measure (length \<circ> snd)" by simp
qed simp_all

definition extractBlocks :: "string \<Rightarrow> thrown + code_block list" where
  "extractBlocks markdown = extract_from 0 (lines_of markdown)"

section \<open>The check\<close>

definition readSourceRange ::
    "(string \<Rightarrow> thrown + string) \<Rightarrow> string \<Rightarrow> citation \<Rightarrow> thrown + string" where
  "readSourceRange read_file root cite =
     rbind (read_file (path_join [root, ci_path cite])) (\<lambda>content.
       case ci_range cite of
         None \<Rightarrow> Inr content
       | Some (start, finish) \<Rightarrow>
         (let ls = lines_of content in
          if start < 1 \<or> length ls < finish \<or> finish < start then
            Inl (new_error (''Bad line range '' @ nat_digits start @ ''-'' @ nat_digits finish
              @ '' for '' @ ci_path cite @ '' (file has '' @ nat_digits (length ls) @ '' lines)''))
          else Inr (js_join nl (drop (start - 1) (take finish ls)))))"

fun diff_lines :: "string list \<Rightarrow> string list \<Rightarrow> string list" where
  "diff_lines [] [] = []"
| "diff_lines (x # xs) [] = (''- '' @ x) # diff_lines xs []"
| "diff_lines [] (y # ys) = (''+ '' @ y) # diff_lines [] ys"
| "diff_lines (x # xs) (y # ys) =
     (if x = y then (''  '' @ x) # diff_lines xs ys
      else (''- '' @ x) # (''+ '' @ y) # diff_lines xs ys)"

definition unifiedDiff :: "string \<Rightarrow> string \<Rightarrow> string \<Rightarrow> string \<Rightarrow> string" where
  "unifiedDiff a b aLabel bLabel =
     js_join nl ([''--- '' @ aLabel, ''+++ '' @ bLabel] @ diff_lines (lines_of a) (lines_of b))"

definition READ_LANGS :: "string list" where
  "READ_LANGS = [''ts'', ''typescript'', ''python'', ''py'']"

definition README_GLOBS :: "string list" where
  "README_GLOBS =
     [''ts/packages/protocol/README.md'', ''ts/packages/over-memory/README.md'',
      ''ts/packages/over-redis/README.md'', ''ts/packages/codegen/README.md'',
      ''py/packages/protocol/README.md'', ''py/packages/over-memory/README.md'',
      ''py/packages/over-redis/README.md'']"

datatype report =
    ParseFail string string
  | MissingCitation string nat string
  | SourceMissing string nat string string
  | Mismatch string nat string citation string

definition check_block ::
    "(string \<Rightarrow> thrown + string) \<Rightarrow> string \<Rightarrow> string \<Rightarrow> code_block \<Rightarrow> report option" where
  "check_block read_file root readme b =
     (if cb_lang b \<notin> set READ_LANGS then None
      else case cb_citation b of
        None \<Rightarrow> Some (MissingCitation readme (cb_blockStartLine b) (cb_lang b))
      | Some cite \<Rightarrow>
        (case readSourceRange read_file root cite of
           Inl e \<Rightarrow> Some (SourceMissing readme (cb_blockStartLine b) (ci_path cite) (thrown_message e))
         | Inr source \<Rightarrow>
           (let a = normalizeWhitespace (stripComments (cb_code b) (cb_lang b));
                c = normalizeWhitespace (stripComments source (cb_lang b)) in
            if a \<noteq> c then
              Some (Mismatch readme (cb_blockStartLine b) (cb_lang b) cite
                (unifiedDiff a c ''README block (comments stripped)'' ''source range (comments stripped)''))
            else None)))"

text \<open>
  The reports of one README. Each comes with \<open>failed = true\<close>. A README that cannot be read ends
  the script with that error.
\<close>

definition check_readme ::
    "(string \<Rightarrow> thrown + string) \<Rightarrow> string \<Rightarrow> string \<Rightarrow> thrown + report list" where
  "check_readme read_file root readme =
     rbind (read_file (path_join [root, readme])) (\<lambda>markdown.
       case extractBlocks markdown of
         Inl e \<Rightarrow> Inr [ParseFail readme (thrown_message e)]
       | Inr blocks \<Rightarrow> Inr (List.map_filter (check_block read_file root readme) blocks))"

fun check_readmes ::
    "(string \<Rightarrow> thrown + string) \<Rightarrow> string \<Rightarrow> string list \<Rightarrow> report list \<times> (thrown + unit)" where
  "check_readmes read_file root [] = ([], Inr ())"
| "check_readmes read_file root (r # rs) =
     (case check_readme read_file root r of
        Inl e \<Rightarrow> ([], Inl e)
      | Inr reports \<Rightarrow>
        (let (reports', out) = check_readmes read_file root rs in (reports @ reports', out)))"

definition exit_code :: "report list \<times> (thrown + unit) \<Rightarrow> nat" where
  "exit_code r = (case r of (reports, Inr _) \<Rightarrow> (if reports \<noteq> [] then 1 else 0) | (reports, Inl e) \<Rightarrow> 1)"

section \<open>Lines\<close>

lemma lines_of_join:
  "ls \<noteq> [] \<Longrightarrow> \<forall>l \<in> set ls. CHR 0x0A \<notin> set l \<Longrightarrow> lines_of (js_join nl ls) = ls"
proof (induction ls)
  case (Cons l ls)
  have line: "CHR 0x0A \<notin> set l \<Longrightarrow> js_split (CHR 0x0A) (l @ rest) =
      (case js_split (CHR 0x0A) rest of [] \<Rightarrow> [l] | x # xs \<Rightarrow> (l @ x) # xs)" for rest
    by (induction l) (auto split: list.splits)
  show ?case
    using Cons line [of "[]"] line [of "CHR 0x0A # js_join nl ls"]
    by (cases ls) (simp_all add: lines_of_def nl_def)
qed simp

lemma lines_of_free: "l \<in> set (lines_of t) \<Longrightarrow> CHR 0x0A \<notin> set l"
  unfolding lines_of_def by (rule js_split_free)

section \<open>The normal form of the white space\<close>

text \<open>The paragraphs of a list of lines: the maximal runs of lines that are not blank.\<close>

fun paras :: "string list \<Rightarrow> string list \<Rightarrow> string list list" where
  "paras cur [] = (if cur = [] then [] else [cur])"
| "paras cur (l # ls) =
     (if l = [] then (if cur = [] then [] else [cur]) @ paras [] ls else paras (cur @ [l]) ls)"

definition paragraphs :: "string \<Rightarrow> string list list" where
  "paragraphs t = paras [] (map rtrim (lines_of t))"

fun glue :: "string list list \<Rightarrow> string list" where
  "glue [] = []"
| "glue [p] = p"
| "glue (p # q # ps) = p @ [] # glue (q # ps)"

lemma rtrim_idem [simp]: "rtrim (rtrim l) = rtrim l"
proof -
  have "dropWhile js_space (dropWhile js_space l') = dropWhile js_space l'" for l'
    by (induction l') auto
  then show ?thesis by (simp add: rtrim_def)
qed

lemma set_rtrim: "set (rtrim l) \<subseteq> set l"
  unfolding rtrim_def using set_dropWhileD [of _ js_space "rev l"] by auto

lemma collapse_paras: "b \<longrightarrow> cur = [] \<Longrightarrow> paras cur (collapse b ls) = paras cur ls"
  by (induction ls arbitrary: b cur) auto

lemma collapse_set: "set (collapse b ls) \<subseteq> set ls"
proof (induction ls arbitrary: b)
  case (Cons l ls)
  have "collapse b (l # ls) = collapse b ls \<or> collapse b (l # ls) = l # collapse (l = []) ls"
    by (simp add: Let_def)
  then show ?case using Cons [of b] Cons [of "l = []"] by (elim disjE) auto
qed simp

abbreviation no_blank_pair :: "string list \<Rightarrow> bool" where
  "no_blank_pair \<equiv> successively (\<lambda>a b. \<not> (a = [] \<and> b = []))"

lemma collapse_pairs:
  "no_blank_pair (collapse b ls) \<and> (b \<longrightarrow> collapse b ls = [] \<or> hd (collapse b ls) \<noteq> [])"
proof (induction ls arbitrary: b)
  case (Cons l ls)
  then show ?case
    using Cons [of True] Cons [of "l = []"] by (cases "l = [] \<and> b") (auto simp: successively_Cons)
qed simp

lemma collapse_id: "no_blank_pair ls \<Longrightarrow> b \<longrightarrow> ls = [] \<or> hd ls \<noteq> [] \<Longrightarrow> collapse b ls = ls"
  by (induction ls arbitrary: b) (auto simp: successively_Cons)

lemma shift_blank_suffix: "suffix (shift_blank ls) ls"
  unfolding shift_blank_def by (rule suffix_dropWhile)

lemma pop_blank_prefix: "prefix (pop_blank ls) ls"
  using suffix_dropWhile [of "\<lambda>l. l = []" "rev ls"]
  by (simp add: pop_blank_def suffix_to_prefix)

lemma shift_blank_hd: "shift_blank ls \<noteq> [] \<Longrightarrow> hd (shift_blank ls) \<noteq> []"
  unfolding shift_blank_def by (rule hd_dropWhile)

lemma pop_blank_last: "pop_blank ls \<noteq> [] \<Longrightarrow> last (pop_blank ls) \<noteq> []"
  unfolding pop_blank_def using hd_dropWhile [of "\<lambda>l. l = []" "rev ls"] by (simp add: last_rev)

lemma shift_blank_paras: "paras [] (shift_blank ls) = paras [] ls"
  by (induction ls) (auto simp: shift_blank_def)

lemma pop_blank_paras: "paras cur (pop_blank ls) = paras cur ls"
proof -
  have snoc: "paras cur (xs @ [[]]) = paras cur xs" for cur xs
    by (induction cur xs rule: paras.induct) auto
  show ?thesis by (induction ls rule: rev_induct) (auto simp: pop_blank_def snoc)
qed

definition normal_lines :: "string list \<Rightarrow> bool" where
  "normal_lines ls \<longleftrightarrow> map rtrim ls = ls \<and> no_blank_pair ls \<and> (\<forall>l \<in> set ls. CHR 0x0A \<notin> set l)
     \<and> (ls \<noteq> [] \<longrightarrow> hd ls \<noteq> [] \<and> last ls \<noteq> [])"

lemma normal_lines_made:
  "normal_lines (pop_blank (shift_blank (collapse False (map rtrim (lines_of t)))))"
proof -
  let ?c = "collapse False (map rtrim (lines_of t))"
  let ?s = "shift_blank ?c"
  let ?p = "pop_blank ?s"
  obtain a where a: "?c = a @ ?s" using shift_blank_suffix [of ?c] by (auto simp: suffix_def)
  obtain z where z: "?s = ?p @ z" using pop_blank_prefix [of ?s] by (auto simp: prefix_def)
  have sub: "set ?p \<subseteq> set (map rtrim (lines_of t))"
    using collapse_set [of False "map rtrim (lines_of t)"] a z by (metis Un_subset_iff set_append)
  have "no_blank_pair ?s" using collapse_pairs [of False] a by (metis successively_append_iff)
  then have "no_blank_pair ?p" using z by (metis successively_append_iff)
  moreover have "map rtrim ?p = ?p" using sub by (intro map_idI) auto
  moreover have "\<forall>l \<in> set ?p. CHR 0x0A \<notin> set l" using sub set_rtrim lines_of_free by fastforce
  moreover have "hd ?p \<noteq> []" if "?p \<noteq> []"
  proof -
    have "hd ?s = hd ?p" "?s \<noteq> []" using z that by (metis hd_append2, metis append_is_Nil_conv)
    then show ?thesis using shift_blank_hd [of ?c] by metis
  qed
  ultimately show ?thesis using pop_blank_last unfolding normal_lines_def by blast
qed

lemma made_paras:
  "paras [] (pop_blank (shift_blank (collapse False (map rtrim (lines_of t))))) = paragraphs t"
  by (simp add: pop_blank_paras shift_blank_paras collapse_paras paragraphs_def)

text \<open>Lines in normal form are their paragraphs with one blank line between.\<close>

lemma glue_paras:
  assumes "no_blank_pair ls" "ls \<noteq> [] \<longrightarrow> last ls \<noteq> []" "cur = [] \<longrightarrow> ls = [] \<or> hd ls \<noteq> []"
  shows "glue (paras cur ls) = cur @ ls"
  using assms
proof (induction cur ls rule: paras.induct)
  case (2 cur l ls)
  show ?case
  proof (cases "l = []")
    case True
    with 2(3-5) have ls: "ls \<noteq> []" "hd ls \<noteq> []" "no_blank_pair ls" "last ls \<noteq> []" and cur: "cur \<noteq> []"
      by (auto simp: successively_Cons split: if_split_asm)
    have IH: "glue (paras [] ls) = ls" using 2(1) True ls by simp
    then obtain p ps where "paras [] ls = p # ps" using ls(1) by (cases "paras [] ls") auto
    then show ?thesis using True cur IH by simp
  next
    case False
    then show ?thesis using 2(2-5) by (cases ls) (auto simp: successively_Cons)
  qed
qed simp

lemma normal_lines_join:
  assumes "normal_lines ls"
  shows "ls = (if js_join nl ls = [] then [] else lines_of (js_join nl ls))"
proof (cases "ls = []")
  case False
  then have "lines_of (js_join nl ls) = ls" using assms by (intro lines_of_join) (simp_all add: normal_lines_def)
  moreover have "js_join nl ls \<noteq> []" using False assms by (cases ls; cases "tl ls") (auto simp: normal_lines_def)
  ultimately show ?thesis by simp
qed simp

lemma normal_lines_paras:
  assumes "normal_lines ls" "normal_lines ls'"
  shows "js_join nl ls = js_join nl ls' \<longleftrightarrow> paras [] ls = paras [] ls'"
proof
  assume "js_join nl ls = js_join nl ls'"
  then have "ls = ls'" using normal_lines_join [OF assms(1)] normal_lines_join [OF assms(2)] by metis
  then show "paras [] ls = paras [] ls'" by simp
next
  have g: "glue (paras [] x) = x" if "normal_lines x" for x
    using glue_paras [of x "[]"] that by (cases x) (simp_all add: normal_lines_def)
  assume "paras [] ls = paras [] ls'"
  then have "ls = ls'" using g [OF assms(1)] g [OF assms(2)] by metis
  then show "js_join nl ls = js_join nl ls'" by (rule arg_cong)
qed

lemma normal_lines_fixed:
  assumes "normal_lines ls"
  shows "normalizeWhitespace (js_join nl ls) = js_join nl ls"
proof (cases ls)
  case Nil
  then show ?thesis
    by (simp add: normalizeWhitespace_def lines_of_def rtrim_def shift_blank_def pop_blank_def)
next
  case (Cons l ls')
  have "map rtrim (lines_of (js_join nl ls)) = ls"
    using assms Cons lines_of_join [of ls] by (simp add: normal_lines_def)
  moreover have "collapse False ls = ls" using assms by (intro collapse_id) (auto simp: normal_lines_def)
  moreover have "shift_blank ls = ls" using assms Cons by (simp add: shift_blank_def normal_lines_def)
  moreover have "pop_blank ls = ls"
  proof -
    have "ls \<noteq> []" using Cons by simp
    then have "hd (rev ls) \<noteq> []" "rev ls \<noteq> []" using assms by (simp_all add: normal_lines_def hd_rev)
    then have "dropWhile (\<lambda>l. l = []) (rev ls) = rev ls" by (cases "rev ls") auto
    then show ?thesis by (simp add: pop_blank_def)
  qed
  ultimately show ?thesis by (simp add: normalizeWhitespace_def)
qed

section \<open>Where the blocks stand\<close>

text \<open>
  Block \<open>b\<close> has \<open>n\<close> lines of code: they start at line \<open>cb_blockStartLine b\<close>, counted from one,
  behind its opening fence, and go up to the first closing fence.
\<close>

definition block_span :: "string list \<Rightarrow> code_block \<Rightarrow> nat \<Rightarrow> bool" where
  "block_span ls b n \<longleftrightarrow>
     (let s = cb_blockStartLine b - 1 in
      2 \<le> cb_blockStartLine b \<and> s + n < length ls \<and> open_fence (ls ! (s - 1)) = Some (cb_lang b)
      \<and> cb_code b = js_join nl (take n (drop s ls))
      \<and> (\<forall>k < n. \<not> close_fence (ls ! (s + k))) \<and> close_fence (ls ! (s + n)))"

lemma extract_from_spans:
  assumes "extract_from (length pre) ls = Inr bs"
  shows "(\<forall>b \<in> set bs. \<exists>n. block_span (pre @ ls) b n)
    \<and> (\<forall>k < length ls. open_fence (ls ! k) \<noteq> None \<longrightarrow> (\<exists>b \<in> set bs. \<exists>n. block_span (pre @ ls) b n
         \<and> cb_blockStartLine b \<le> length pre + k + 2 \<and> length pre + k < cb_blockStartLine b + n))"
  using assms
proof (induction "length pre" ls arbitrary: pre bs rule: extract_from.induct)
  case 1
  then show ?case by simp
next
  case (2 l ls)
  show ?case
  proof (cases "open_fence l")
    case None
    have "extract_from (length (pre @ [l])) ls = Inr bs" using 2(3) None by simp
    from 2(1) [OF None _ this] show ?thesis
      using None by (auto simp: nth_Cons split: nat.split)
  next
    case (Some lang)
    let ?body = "takeWhile (\<lambda>x. \<not> close_fence x) ls"
    obtain c after where rest: "dropWhile (\<lambda>x. \<not> close_fence x) ls = c # after"
      using 2(3) Some by (cases "dropWhile (\<lambda>x. \<not> close_fence x) ls") (simp_all add: Let_def)
    then have ls: "ls = ?body @ c # after" by (metis takeWhile_dropWhile_id)
    have c: "close_fence c" using rest by (metis hd_dropWhile list.distinct(1) list.sel(1))
    let ?pre = "pre @ l # ?body @ [c]"
    obtain b0 bs' where bs: "bs = b0 # bs'"
      and b0: "cb_lang b0 = lang" "cb_code b0 = js_join nl ?body" "cb_blockStartLine b0 = length pre + 2"
      and more: "extract_from (length ?pre) after = Inr bs'"
      using 2(3) Some rest by (auto simp: Let_def rbind_eq_Inr)
    have all: "?pre @ after = pre @ l # ls" using ls by simp
    have body: "\<not> close_fence (?body ! k)" if "k < length ?body" for k
      using that nth_mem set_takeWhileD by metis
    have "block_span (pre @ l # ?body @ c # after) b0 (length ?body)"
      using Some c body by (simp add: block_span_def b0 nth_append)
    then have span: "block_span (pre @ l # ls) b0 (length ?body)" using ls by simp
    have IH: "(\<forall>b \<in> set bs'. \<exists>n. block_span (?pre @ after) b n)
      \<and> (\<forall>k < length after. open_fence (after ! k) \<noteq> None \<longrightarrow> (\<exists>b \<in> set bs'. \<exists>n. block_span (?pre @ after) b n
         \<and> cb_blockStartLine b \<le> length ?pre + k + 2 \<and> length ?pre + k < cb_blockStartLine b + n))"
      using 2(2) [OF Some refl refl rest refl, of ?pre bs'] more by simp
    have "\<exists>b \<in> set bs. \<exists>n. block_span (pre @ l # ls) b n
        \<and> cb_blockStartLine b \<le> length pre + k + 2 \<and> length pre + k < cb_blockStartLine b + n"
      if k: "k < length (l # ls)" "open_fence ((l # ls) ! k) \<noteq> None" for k
    proof (cases "k < length ?body + 2")
      case True
      then show ?thesis using span b0(3) bs by fastforce
    next
      case False
      define d where "d = k - (length ?body + 2)"
      have d: "k = length ?body + 2 + d" using False by (simp add: d_def)
      have "length (l # ls) = length ?body + 2 + length after" by (subst ls) simp
      then have "d < length after" using k(1) d by simp
      moreover have "(l # ls) ! k = after ! d" by (subst ls) (simp add: d nth_append)
      ultimately obtain b n where "b \<in> set bs'" "block_span (?pre @ after) b n"
        "cb_blockStartLine b \<le> length ?pre + d + 2" "length ?pre + d < cb_blockStartLine b + n"
        using IH k(2) by auto
      then show ?thesis using d bs unfolding all by fastforce
    qed
    moreover have "\<forall>b \<in> set bs. \<exists>n. block_span (pre @ l # ls) b n"
      using IH span bs unfolding all by auto
    ultimately show ?thesis by blast
  qed
qed

section \<open>When the script accepts\<close>

lemma check_block_None:
  "check_block read_file root readme b = None \<longleftrightarrow> (cb_lang b \<in> set READ_LANGS \<longrightarrow>
     (\<exists>cite source. cb_citation b = Some cite \<and> readSourceRange read_file root cite = Inr source
        \<and> normalizeWhitespace (stripComments (cb_code b) (cb_lang b))
            = normalizeWhitespace (stripComments source (cb_lang b))))"
  by (auto simp: check_block_def Let_def split: option.split sum.split)

lemma check_readme_quiet:
  "check_readme read_file root readme = Inr [] \<longleftrightarrow>
     (\<exists>markdown blocks. read_file (path_join [root, readme]) = Inr markdown
        \<and> extractBlocks markdown = Inr blocks
        \<and> (\<forall>b \<in> set blocks. check_block read_file root readme b = None))"
proof -
  have "List.map_filter f xs = [] \<longleftrightarrow> (\<forall>x \<in> set xs. f x = None)" for f :: "code_block \<Rightarrow> report option" and xs
    by (induction xs) (auto simp: map_filter_simps split: option.split)
  then show ?thesis
    by (cases "read_file (path_join [root, readme])")
      (auto simp: check_readme_def split: sum.split)
qed

lemma exit_code_0:
  "exit_code (check_readmes read_file root rs) = 0 \<longleftrightarrow>
     (\<forall>r \<in> set rs. check_readme read_file root r = Inr [])"
proof (induction rs)
  case (Cons r rs)
  then show ?case
    by (cases "check_readme read_file root r"; cases "check_readmes read_file root rs")
      (auto simp: exit_code_def split: sum.splits if_splits)
qed (simp add: exit_code_def)

section \<open>Properties\<close>

text \<open>
  C39: The script ends with exit code 0 exactly when every README can be read and has no unclosed
  fence, and each of its TypeScript and Python blocks has a citation whose source range can be
  read and agrees with the block, once comments are stripped and white space is normalised.
\<close>

theorem check_accepts_exactly:
  "exit_code (check_readmes read_file root rs) = 0 \<longleftrightarrow>
     (\<forall>r \<in> set rs. \<exists>markdown blocks. read_file (path_join [root, r]) = Inr markdown
        \<and> extractBlocks markdown = Inr blocks
        \<and> (\<forall>b \<in> set blocks. cb_lang b \<in> set READ_LANGS \<longrightarrow>
             (\<exists>cite source. cb_citation b = Some cite \<and> readSourceRange read_file root cite = Inr source
                \<and> normalizeWhitespace (stripComments (cb_code b) (cb_lang b))
                    = normalizeWhitespace (stripComments source (cb_lang b)))))"
  unfolding exit_code_0 check_readme_quiet check_block_None ..

definition sample_files :: "string \<Rightarrow> thrown + string" where
  "sample_files path =
     (if path = ''R.md'' then
        Inr (js_join nl [''Hi'', ticks @ ''ts'', ''f();   // note'', ticks, [], cite_intro @ ''a.ts:2-3'' @ [CHR 0x60] @ ''.)''])
      else if path = ''a.ts'' then Inr (js_join nl [''import'', ''f(); /* x'', ''*/'', ''g()''])
      else Inl (new_error ''ENOENT''))"

theorem check_accepts_exactly_witness:
  "exit_code (check_readmes sample_files '''' [''R.md'']) = 0 \<and> exit_code (check_readmes sample_files '''' [''S.md'']) = 1"
proof -
  let ?md = "js_join nl [''Hi'', ticks @ ''ts'', ''f();   // note'', ticks, [], cite_intro @ ''a.ts:2-3'' @ [CHR 0x60] @ ''.)'']"
  let ?b = "\<lparr>cb_lang = ''ts'', cb_code = ''f();   // note'', cb_citation = Some \<lparr>ci_path = ''a.ts'', ci_range = Some (2, 3)\<rparr>,
     cb_blockStartLine = 3, cb_citationLineNo = Some 6\<rparr>"
  have "sample_files (path_join ['''', ''R.md'']) = Inr ?md" "extractBlocks ?md = Inr [?b]"
    "readSourceRange sample_files '''' \<lparr>ci_path = ''a.ts'', ci_range = Some (2, 3)\<rparr> = Inr (''f(); /* x'' @ nl @ ''*/'')"
    "normalizeWhitespace (stripComments ''f();   // note'' ''ts'')
       = normalizeWhitespace (stripComments (''f(); /* x'' @ nl @ ''*/'') ''ts'')"
    by code_simp+
  then have "exit_code (check_readmes sample_files '''' [''R.md'']) = 0"
    unfolding check_accepts_exactly by simp
  moreover have "exit_code (check_readmes sample_files '''' [''S.md'']) = 1" by code_simp
  ultimately show ?thesis ..
qed

text \<open>
  C40: Normalising white space identifies exactly the texts with the same paragraphs, the runs of
  lines that are not blank, up to white space at line ends. The result is a normal form:
  normalising it again changes nothing, no line ends in white space, no two blank lines are
  adjacent, and the first and the last line are not blank unless the text is empty.
\<close>

theorem normalizing_keeps_paragraphs:
  "(normalizeWhitespace s = normalizeWhitespace t \<longleftrightarrow> paragraphs s = paragraphs t)
   \<and> normalizeWhitespace (normalizeWhitespace t) = normalizeWhitespace t
   \<and> map rtrim (lines_of (normalizeWhitespace t)) = lines_of (normalizeWhitespace t)
   \<and> no_blank_pair (lines_of (normalizeWhitespace t))
   \<and> (hd (lines_of (normalizeWhitespace t)) = [] \<longleftrightarrow> normalizeWhitespace t = [])
   \<and> (last (lines_of (normalizeWhitespace t)) = [] \<longleftrightarrow> normalizeWhitespace t = [])"
proof -
  define made where "made t = pop_blank (shift_blank (collapse False (map rtrim (lines_of t))))" for t
  have n: "normal_lines (made t)" for t unfolding made_def by (rule normal_lines_made)
  have t: "normalizeWhitespace t = js_join nl (made t)" for t by (simp add: normalizeWhitespace_def made_def)
  have eq: "normalizeWhitespace s = normalizeWhitespace t \<longleftrightarrow> paragraphs s = paragraphs t"
    using normal_lines_paras [OF n n] made_paras unfolding t made_def by simp
  show ?thesis
  proof (cases "made t = []")
    case True
    then show ?thesis
      using eq normal_lines_fixed [OF n, of t] t [of t] by (simp add: lines_of_def rtrim_def)
  next
    case False
    then have l: "lines_of (normalizeWhitespace t) = made t" "normalizeWhitespace t \<noteq> []"
      using normal_lines_join [OF n, of t] unfolding t by (simp_all split: if_split_asm)
    then show ?thesis
      using eq normal_lines_fixed [OF n, of t] n [of t] False t [of t] by (simp add: normal_lines_def)
  qed
qed

text \<open>
  When the blocks of a README are extracted, each of them stands where it says: behind an
  opening fence with its language, with exactly the lines up to the first closing fence as its
  code. No opening fence is missed: every line that looks like one opens a block or lies in one.
\<close>

lemma blocks_are_located:
  assumes "extractBlocks markdown = Inr blocks"
  shows "(\<forall>b \<in> set blocks. \<exists>n. block_span (lines_of markdown) b n)
    \<and> (\<forall>k < length (lines_of markdown). open_fence (lines_of markdown ! k) \<noteq> None \<longrightarrow>
         (\<exists>b \<in> set blocks. \<exists>n. block_span (lines_of markdown) b n
            \<and> cb_blockStartLine b \<le> k + 2 \<and> k < cb_blockStartLine b + n))"
  using extract_from_spans [of "[]" "lines_of markdown" blocks] assms by (simp add: extractBlocks_def)

end
