(* ===== verification/Overlap.thy ===== *)
theory Overlap
  imports ServerCore ClientCore RedisServer
begin

text \<open>
  Calls of \<open>start\<close> and \<open>stop\<close> that overlap. The theories of the components run each of them in
  one go; here they are split at their \<open>await\<close>s: for the client and the server core
  (\<open>client-core.ts\<close>, \<open>server-core.ts\<close>), whose life cycles are the same, and for \<open>start\<close> of the
  Redis server transport, which awaits the consumer group of each service. The first lemma of
  each part says that the split operation, undisturbed, is the one of the component.
\<close>

section \<open>The cores\<close>

text \<open>The state, and how many calls of \<open>start\<close> and of \<open>stop\<close> await the transport.\<close>

record core_life =
  co_state :: run_state
  co_starts :: nat
  co_stops :: nat

definition new_core :: core_life where
  "new_core = \<lparr>co_state = Idle, co_starts = 0, co_stops = 0\<rparr>"

text \<open>Up to the \<open>await\<close>: the outcome of a call that ends without one, or \<open>None\<close>.\<close>

definition core_start_call :: "string \<Rightarrow> core_life \<Rightarrow> (thrown + unit) option \<times> core_life" where
  "core_start_call who s =
     (case co_state s of
        Stopped \<Rightarrow> (Some (Inl (new_error (who @ '' has been stopped''))), s)
      | Started \<Rightarrow> (Some (Inr ()), s)
      | Idle \<Rightarrow> (None, s\<lparr>co_starts := Suc (co_starts s)\<rparr>))"

definition core_stop_call :: "core_life \<Rightarrow> (thrown + unit) option \<times> core_life" where
  "core_stop_call s =
     (if co_state s \<noteq> Started then (Some (Inr ()), s\<lparr>co_state := Stopped\<rparr>)
      else (None, s\<lparr>co_stops := Suc (co_stops s)\<rparr>))"

text \<open>The transport's promise settles with \<open>r\<close>, and the call goes on behind its \<open>await\<close>.\<close>

definition core_start_done :: "thrown + unit \<Rightarrow> core_life \<Rightarrow> core_life" where
  "core_start_done r s =
     (if co_starts s = 0 then s
      else case r of
        Inl _ \<Rightarrow> s\<lparr>co_starts := co_starts s - 1\<rparr>
      | Inr _ \<Rightarrow> s\<lparr>co_starts := co_starts s - 1, co_state := Started\<rparr>)"

definition core_stop_done :: "thrown + unit \<Rightarrow> core_life \<Rightarrow> core_life" where
  "core_stop_done r s =
     (if co_stops s = 0 then s
      else case r of
        Inl _ \<Rightarrow> s\<lparr>co_stops := co_stops s - 1\<rparr>
      | Inr _ \<Rightarrow> s\<lparr>co_stops := co_stops s - 1, co_state := Stopped\<rparr>)"

datatype core_event = CoStart | CoStartDone "thrown + unit" | CoStop | CoStopDone "thrown + unit"

fun core_exec :: "core_event \<Rightarrow> core_life \<Rightarrow> core_life" where
  "core_exec CoStart s = snd (core_start_call [] s)"
| "core_exec (CoStartDone r) s = core_start_done r s"
| "core_exec CoStop s = snd (core_stop_call s)"
| "core_exec (CoStopDone r) s = core_stop_done r s"

definition core_run :: "core_event list \<Rightarrow> core_life \<Rightarrow> core_life" where
  "core_run es s = fold core_exec es s"

text \<open>Undisturbed, the two halves are the \<open>start\<close> and the \<open>stop\<close> of the cores.\<close>

definition undisturbed :: "core_event \<Rightarrow> (thrown + unit \<Rightarrow> core_event) \<Rightarrow> thrown + unit \<Rightarrow> run_state \<Rightarrow> run_state" where
  "undisturbed call answer r st =
     co_state (core_run [call, answer r] \<lparr>co_state = st, co_starts = 0, co_stops = 0\<rparr>)"

lemmas core_defs = core_run_def core_start_call_def core_stop_call_def core_start_done_def core_stop_done_def

lemma client_start_halves:
  "cl_state (fst (snd (client_start tstart (c, t)))) = undisturbed CoStart CoStartDone (fst (tstart t)) (cl_state c)"
  by (cases "cl_state c"; cases "tstart t"; cases "fst (tstart t)")
    (simp_all add: client_start_def undisturbed_def core_defs)

lemma client_stop_halves:
  "cl_state (fst (snd (client_stop tstop (c, t)))) = undisturbed CoStop CoStopDone (fst (tstop t)) (cl_state c)"
  by (cases "cl_state c"; cases "tstop t"; cases "fst (tstop t)")
    (simp_all add: client_stop_def undisturbed_def core_defs)

lemma server_start_halves:
  "sv_state (fst (snd (server_start reg tstart (sv, t)))) = undisturbed CoStart CoStartDone
     (case register_dispatchers reg (jm_keys (sv_services sv)) t of (Inl e, t') \<Rightarrow> Inl e | (Inr _, t') \<Rightarrow> fst (tstart t'))
     (sv_state sv)"
  by (cases "sv_state sv")
    (auto simp: server_start_def undisturbed_def core_defs split: prod.split sum.split)

lemma server_stop_halves:
  "sv_state (fst (snd (fst (server_stop tstop inflight graceMs now (sv, t))))) =
     undisturbed CoStop CoStopDone (fst (tstop t)) (sv_state sv)"
  by (cases "sv_state sv"; cases "tstop t"; cases "fst (tstop t)")
    (simp_all add: server_stop_def undisturbed_def core_defs Let_def)

lemma stopped_core_stays:
  "co_state s = Stopped \<Longrightarrow> co_starts s = 0 \<Longrightarrow>
     co_state (core_run es s) = Stopped \<and> co_starts (core_run es s) = 0"
proof (induction es arbitrary: s)
  case (Cons e es)
  have "co_state (core_exec e s) = Stopped \<and> co_starts (core_exec e s) = 0"
    using Cons.prems by (cases e) (auto simp: core_defs split: sum.split)
  then show ?case using Cons.IH [of "core_exec e s"] by (simp add: core_run_def)
qed (simp add: core_run_def)

section \<open>The start of the Redis server transport\<close>

text \<open>
  \<open>start\<close> goes on with the answer to the \<open>XGROUP CREATE\<close> of a service, whatever has happened to
  the transport meanwhile.
\<close>

definition start_resume ::
    "(string \<Rightarrow> string \<Rightarrow> js_error + unit) \<Rightarrow> string \<Rightarrow> string list \<Rightarrow> js_error + unit \<Rightarrow> 'd redis_server \<Rightarrow>
     (thrown + unit) \<times> 'd redis_server" where
  "start_resume xgroup service ns answer t =
     (case answer of
        Inr _ \<Rightarrow> start_services xgroup ns (attach_loops service t)
      | Inl e \<Rightarrow>
        if \<not> js_includes ''BUSYGROUP'' (err_message e) then (Inl (Err e), t)
        else start_services xgroup ns (attach_loops service t))"

lemma start_services_halves:
  "start_services xgroup (n # ns) t =
     start_resume xgroup n ns (xgroup (commandStream (rs_keyPrefix t) n) (consumerGroupName n))
       (t\<lparr>rs_cmds := rs_cmds t @ [XGroupCreate (commandStream (rs_keyPrefix t) n) (consumerGroupName n)]\<rparr>)"
  by (simp add: start_resume_def Let_def)

lemma start_services_conns:
  "set (rs_blockingConns t) \<subseteq> set (rs_blockingConns (snd (start_services xgroup ns t)))"
proof (induction ns arbitrary: t)
  case (Cons n ns)
  then show ?case
    using Cons.IH [of "attach_loops n (t\<lparr>rs_cmds := rs_cmds t
      @ [XGroupCreate (commandStream (rs_keyPrefix t) n) (consumerGroupName n)]\<rparr>)"]
    by (auto simp: Let_def attach_loops_def split: sum.split)
qed simp

text \<open>
  A \<open>stop\<close> that overtakes it closes the connections there are; \<open>start\<close> then opens another one for
  the service, on a transport that is stopped, and no later \<open>stop\<close> closes it.
\<close>

lemma overtaken_start_leaks:
  assumes "group_ready answer" "t1 = snd (rs_stop t)"
    and "t2 = snd (start_resume xgroup n ns answer t1)"
  shows "rs_nextConn t1 \<in> set (rs_blockingConns t2) \<and> rs_state t2 = Stopped
    \<and> rs_blockingConns (snd (rs_stop t2)) = rs_blockingConns t2 \<and> rs_cmds (snd (rs_stop t2)) = rs_cmds t2"
proof -
  have t2: "t2 = snd (start_services xgroup ns (attach_loops n t1))"
    using assms(1,3) by (auto simp: start_resume_def group_ready_def split: sum.split_asm)
  have st: "rs_state t1 = Stopped" using assms(2) by (simp add: rs_stop_def)
  have "rs_nextConn t1 \<in> set (rs_blockingConns (attach_loops n t1))" by (simp add: attach_loops_def Let_def)
  then have "rs_nextConn t1 \<in> set (rs_blockingConns t2)"
    unfolding t2 using start_services_conns by blast
  moreover have "rs_state t2 = Stopped" unfolding t2 using st by (simp add: attach_loops_def Let_def)
  ultimately show ?thesis by (simp add: rs_stop_def)
qed

section \<open>Properties\<close>

text \<open>
  C29: A stopped core is stopped for good exactly when no call of \<open>start\<close> awaits its transport. A
  \<open>start\<close> that was not awaited before \<open>stop\<close> was called makes the core started again when its
  transport has started, although \<open>stop\<close> has returned.
\<close>

theorem stop_is_final_exactly:
  assumes "co_state s = Stopped"
  shows "(\<forall>es. co_state (core_run es s) = Stopped) \<longleftrightarrow> co_starts s = 0"
proof
  assume "co_starts s = 0"
  then show "\<forall>es. co_state (core_run es s) = Stopped" using stopped_core_stays [OF assms] by blast
next
  assume "\<forall>es. co_state (core_run es s) = Stopped"
  then have "co_state (core_run [CoStartDone (Inr ())] s) = Stopped" by blast
  then show "co_starts s = 0" by (auto simp: core_defs split: if_split_asm)
qed

theorem stop_is_final_exactly_witness:
  "fst (core_stop_call (core_run [CoStart] new_core)) = Some (Inr ())
   \<and> co_state (core_run [CoStart, CoStop] new_core) = Stopped
   \<and> (\<exists>es. co_state (core_run (CoStart # CoStop # es) new_core) \<noteq> Stopped)"
proof -
  let ?s = "core_run [CoStart, CoStop] new_core"
  have s: "co_state ?s = Stopped" "co_starts ?s = 1" by (simp_all add: core_defs new_core_def)
  from stop_is_final_exactly [OF s(1)] s(2) obtain es where "co_state (core_run es ?s) \<noteq> Stopped" by auto
  then have "co_state (core_run (CoStart # CoStop # es) new_core) \<noteq> Stopped" by (simp add: core_run_def)
  moreover have "fst (core_stop_call (core_run [CoStart] new_core)) = Some (Inr ())"
    by (simp add: core_defs new_core_def)
  ultimately show ?thesis using s(1) by blast
qed

end
