(* ===== verification/RedisLoops.thy ===== *)
theory RedisLoops
  imports RedisServer
begin

text \<open>
  The consumer and reclaim loops of \<open>over-redis/src/server-transport.ts\<close> as processes that
  interleave, with each other, with \<open>registerService\<close> and with \<open>stop\<close>. \<open>RedisServer\<close> runs a turn
  of one loop in one go; here a step goes from one \<open>await\<close> to the next. The answer that an
  \<open>await\<close> gets, from Redis, from the dispatcher or from a timer, comes with the step.
\<close>

type_synonym entry = "string \<times> string list"

text \<open>What a loop awaits while it handles an entry, and at its top.\<close>

datatype stage = InDispatch envelope "string option" | InReply | InAck

datatype phase = Fetching | Pausing | Running entry stage "entry list" | Done

record proc =
  pr_service :: string
  pr_reclaim :: bool
  pr_phase :: phase

record 'd running_server =
  ru_server :: "'d redis_server"
  ru_procs :: "proc list"
  ru_trace :: "(nat \<times> entry \<times> effect) list"

section \<open>One loop\<close>

definition entry_ack :: "'d redis_server \<Rightarrow> string \<Rightarrow> entry \<Rightarrow> effect" where
  "entry_ack t service e =
     ECmd (XAck (commandStream (rs_keyPrefix t) service) (consumerGroupName service) (fst e))"

text \<open>\<open>handleEntry\<close> up to its first \<open>await\<close>, and what follows when the dispatcher has returned.\<close>

definition begin_entry :: "'d redis_server \<Rightarrow> string \<Rightarrow> entry \<Rightarrow> effect list \<times> stage" where
  "begin_entry t service e =
     (let ack = entry_ack t service e in
      if js_index_of ''envelope'' (snd e) < 0 then ([ack], InAck)
      else case json_parse (opt_or (field_after ''envelope'' (snd e)) []) of
        Inl x \<Rightarrow> ([poison_log service (fst e) x, ack], InAck)
      | Inr v \<Rightarrow>
        (case parse_envelope v of
           Inl x \<Rightarrow> ([poison_log service (fst e) x, ack], InAck)
         | Inr env \<Rightarrow>
           (case jm_get (rs_dispatchers t) service of
              None \<Rightarrow> ([ack], InAck)
            | Some d \<Rightarrow> ([EDispatch env], InDispatch env (field_after ''reply-to'' (snd e))))))"

definition end_dispatch ::
    "'d redis_server \<Rightarrow> string \<Rightarrow> entry \<Rightarrow> string option \<Rightarrow> jsval option \<Rightarrow> effect \<times> stage" where
  "end_dispatch t service e replyTo reply =
     (case (replyTo, reply) of
        (Some (c # to), Some r) \<Rightarrow> (ECmd (reply_cmd t (c # to) r), InReply)
      | _ \<Rightarrow> (entry_ack t service e, InAck))"

text \<open>The condition of the \<open>while\<close>, and the first \<open>await\<close> of the turn.\<close>

definition loop_top :: "bool \<Rightarrow> bool \<Rightarrow> phase" where
  "loop_top abort reclaim = (if abort then Done else if reclaim then Pausing else Fetching)"

fun next_entry :: "'d redis_server \<Rightarrow> string \<Rightarrow> bool \<Rightarrow> entry list \<Rightarrow> (entry \<times> effect) list \<times> phase" where
  "next_entry t service reclaim [] = ([], loop_top (rs_abort t) reclaim)"
| "next_entry t service reclaim (e # es) =
     (let (effs, st) = begin_entry t service e in (map (Pair e) effs, Running e st es))"

text \<open>The \<open>catch\<close> of a turn; both loops sleep next, unless they are to end.\<close>

definition loop_failed ::
    "'d redis_server \<Rightarrow> string \<Rightarrow> bool \<Rightarrow> entry \<Rightarrow> thrown \<Rightarrow> (entry \<times> effect) list \<times> phase" where
  "loop_failed t service reclaim e x =
     (if rs_abort t then ([], Done)
      else ([(e, loop_error_log (if reclaim then ''reclaim'' else ''consumer'') service x)], Pausing))"

datatype answer =
    Fetched "thrown + entry list"
  | Woken
  | Returned "thrown + jsval option"
  | Answered "thrown + unit"

text \<open>One step of a loop; \<open>None\<close> when it does not await such an answer.\<close>

fun proc_step :: "'d redis_server \<Rightarrow> string \<Rightarrow> bool \<Rightarrow> phase \<Rightarrow> answer \<Rightarrow>
    ((entry \<times> effect) list \<times> phase) option" where
  "proc_step t n rc Fetching (Fetched (Inl x)) = Some (loop_failed t n rc ([], []) x)"
| "proc_step t n rc Fetching (Fetched (Inr es)) = Some (next_entry t n rc es)"
| "proc_step t n rc Pausing Woken = Some ([], if rs_abort t then Done else Fetching)"
| "proc_step t n rc (Running e (InDispatch env to) es) (Returned (Inl x)) = Some (loop_failed t n rc e x)"
| "proc_step t n rc (Running e (InDispatch env to) es) (Returned (Inr reply)) =
     (let (eff, st) = end_dispatch t n e to reply in Some ([(e, eff)], Running e st es))"
| "proc_step t n rc (Running e InReply es) (Answered (Inl x)) = Some (loop_failed t n rc e x)"
| "proc_step t n rc (Running e InReply es) (Answered (Inr u)) =
     Some ([(e, entry_ack t n e)], Running e InAck es)"
| "proc_step t n rc (Running e InAck es) (Answered (Inl x)) = Some (loop_failed t n rc e x)"
| "proc_step t n rc (Running e InAck es) (Answered (Inr u)) = Some (next_entry t n rc es)"
| "proc_step t n rc _ _ = None"

section \<open>All loops\<close>

fun proc_of :: "bool \<Rightarrow> server_loop \<Rightarrow> proc" where
  "proc_of abort (ConsumerLoop n c) = \<lparr>pr_service = n, pr_reclaim = False, pr_phase = loop_top abort False\<rparr>"
| "proc_of abort (ReclaimLoop n) = \<lparr>pr_service = n, pr_reclaim = True, pr_phase = loop_top abort True\<rparr>"

text \<open>The transport after \<open>start\<close>.\<close>

definition run_of :: "'d redis_server \<Rightarrow> 'd running_server" where
  "run_of t = \<lparr>ru_server = t, ru_procs = map (proc_of (rs_abort t)) (rs_loops t), ru_trace = []\<rparr>"

datatype 'd run_event = LoopEvent nat answer | StopEvent | RegisterEvent string 'd

fun run_exec :: "'d run_event \<Rightarrow> 'd running_server \<Rightarrow> 'd running_server" where
  "run_exec (LoopEvent i a) s =
     (if i < length (ru_procs s) then
        (let p = ru_procs s ! i in
         case proc_step (ru_server s) (pr_service p) (pr_reclaim p) (pr_phase p) a of
           None \<Rightarrow> s
         | Some (effs, ph) \<Rightarrow>
             s\<lparr>ru_procs := (ru_procs s)[i := p\<lparr>pr_phase := ph\<rparr>],
               ru_trace := ru_trace s @ map (Pair i) effs\<rparr>)
      else s)"
| "run_exec StopEvent s = s\<lparr>ru_server := snd (rs_stop (ru_server s))\<rparr>"
| "run_exec (RegisterEvent n d) s = s\<lparr>ru_server := snd (rs_register n d (ru_server s))\<rparr>"

definition run_events :: "'d run_event list \<Rightarrow> 'd running_server \<Rightarrow> 'd running_server" where
  "run_events es s = fold run_exec es s"

text \<open>What one loop has done.\<close>

definition trace_of :: "nat \<Rightarrow> 'd running_server \<Rightarrow> (entry \<times> effect) list" where
  "trace_of i s = map snd (filter (\<lambda>x. fst x = i) (ru_trace s))"

section \<open>When an entry is acknowledged\<close>

text \<open>
  An acknowledgement is due behind what was done before it: it is for the entry in hand, which
  is poison, or has just been dispatched, or has just been dispatched and answered.
\<close>

definition ack_due :: "(entry \<times> effect) list \<Rightarrow> entry \<Rightarrow> string \<Rightarrow> bool" where
  "ack_due pre e eid \<longleftrightarrow> eid = fst e \<and>
     (case entry_envelope (snd e) of
        None \<Rightarrow> True
      | Some env \<Rightarrow> suffix [(e, EDispatch env)] pre
          \<or> (\<exists>to flds. suffix [(e, EDispatch env), (e, ECmd (XAdd to flds))] pre))"

definition acks_due :: "(entry \<times> effect) list \<Rightarrow> bool" where
  "acks_due tr \<longleftrightarrow> (\<forall>pre e stream grp eid rest.
     tr = pre @ (e, ECmd (XAck stream grp eid)) # rest \<longrightarrow> ack_due pre e eid)"

lemma acks_due_Nil [simp]: "acks_due []"
  by (simp add: acks_due_def)

lemma acks_due_snoc:
  "acks_due (tr @ [x]) \<longleftrightarrow> acks_due tr \<and> (\<forall>e stream grp eid. x = (e, ECmd (XAck stream grp eid)) \<longrightarrow> ack_due tr e eid)"
proof -
  have "tr @ [x] = pre @ y # rest \<longleftrightarrow> (rest = [] \<and> tr = pre \<and> x = y) \<or> (\<exists>r. rest = r @ [x] \<and> tr = pre @ y # r)"
    for pre y rest
    by (cases rest rule: rev_cases) auto
  then show ?thesis unfolding acks_due_def by (auto 0 4)
qed

text \<open>What the phase of a loop says of its last effects.\<close>

fun phase_trace :: "phase \<Rightarrow> (entry \<times> effect) list \<Rightarrow> bool" where
  "phase_trace (Running e (InDispatch env to) es) tr =
     (entry_envelope (snd e) = Some env \<and> suffix [(e, EDispatch env)] tr)"
| "phase_trace (Running e InReply es) tr =
     (\<exists>env to flds. entry_envelope (snd e) = Some env
        \<and> suffix [(e, EDispatch env), (e, ECmd (XAdd to flds))] tr)"
| "phase_trace _ tr = True"

lemma begin_entry_cases:
  assumes "jm_get (rs_dispatchers t) n \<noteq> None"
  shows "(entry_envelope (snd e) = None \<and> begin_entry t n e = ([entry_ack t n e], InAck))
    \<or> (entry_envelope (snd e) = None \<and> (\<exists>x. begin_entry t n e = ([poison_log n (fst e) x, entry_ack t n e], InAck)))
    \<or> (\<exists>env. entry_envelope (snd e) = Some env \<and> begin_entry t n e = ([EDispatch env], InDispatch env (field_after ''reply-to'' (snd e))))"
  using assms by (auto simp: begin_entry_def entry_envelope_def Let_def split: sum.split option.split)

lemma next_entry_trace:
  assumes "jm_get (rs_dispatchers t) n \<noteq> None" "acks_due tr" "next_entry t n rc es = (effs, ph)"
  shows "acks_due (tr @ effs) \<and> phase_trace ph (tr @ effs)"
proof (cases es)
  case Nil
  then show ?thesis using assms by (auto simp: loop_top_def)
next
  case (Cons e es')
  have snoc2: "tr @ [x, y] = (tr @ [x]) @ [y]" for x y :: "entry \<times> effect" by simp
  show ?thesis
    using begin_entry_cases [OF assms(1), of e] assms(2,3)
    by (auto simp: Cons acks_due_snoc snoc2 ack_due_def entry_ack_def poison_log_def suffix_def simp del: append_assoc)
qed

lemma acks_due_ack:
  "acks_due tr \<Longrightarrow> ack_due tr e (fst e) \<Longrightarrow> acks_due (tr @ [(e, entry_ack t n e)])"
  by (auto simp: acks_due_snoc entry_ack_def)

lemma phase_trace_due:
  "phase_trace (Running e (InDispatch env to) es) tr \<Longrightarrow> ack_due tr e (fst e)"
  "phase_trace (Running e InReply es) tr \<Longrightarrow> ack_due tr e (fst e)"
  by (auto simp: ack_due_def)

lemma end_dispatch_trace:
  assumes "phase_trace (Running e (InDispatch env to) es) tr" "acks_due tr"
    and "end_dispatch t n e to reply = (eff, st)"
  shows "acks_due (tr @ [(e, eff)]) \<and> phase_trace (Running e st es) (tr @ [(e, eff)])"
proof (cases st)
  case InReply
  then have eff: "\<exists>to flds. eff = ECmd (XAdd to flds)"
    using assms(3) by (auto simp: end_dispatch_def reply_cmd_def split: option.splits list.splits)
  then have "acks_due (tr @ [(e, eff)])" using assms(2) by (auto simp: acks_due_snoc)
  moreover have "phase_trace (Running e st es) (tr @ [(e, eff)])"
    using assms(1) eff InReply by (auto simp: suffix_def)
  ultimately show ?thesis ..
next
  case InAck
  then have "eff = entry_ack t n e"
    using assms(3) by (auto simp: end_dispatch_def split: option.splits list.splits)
  then show ?thesis
    using InAck acks_due_ack [OF assms(2) phase_trace_due(1) [OF assms(1)]] by simp
next
  case InDispatch
  then show ?thesis using assms(3) by (auto simp: end_dispatch_def split: option.splits list.splits)
qed

lemma proc_step_trace:
  assumes "jm_get (rs_dispatchers t) n \<noteq> None" "acks_due tr" "phase_trace ph tr"
    and "proc_step t n rc ph a = Some (effs, ph')"
  shows "acks_due (tr @ effs) \<and> phase_trace ph' (tr @ effs)"
proof -
  have failed: "acks_due (tr @ effs) \<and> phase_trace ph' (tr @ effs)" if "loop_failed t n rc e x = (effs, ph')" for e x
    using that assms(2) by (auto simp: loop_failed_def acks_due_snoc loop_error_log_def split: if_split_asm)
  note next_one = next_entry_trace [OF assms(1,2)]
  show ?thesis
  proof (cases "(t, n, rc, ph, a)" rule: proc_step.cases)
    case (5 t n rc e env to es reply)
    then show ?thesis
      using assms end_dispatch_trace [of e env to es tr t n reply]
      by (cases "end_dispatch t n e to reply") auto
  next
    case (7 t n rc e es u)
    then show ?thesis
      using assms acks_due_ack [OF assms(2) phase_trace_due(2) [of e es tr], of t n] by auto
  qed (use assms failed next_one in \<open>auto simp del: next_entry.simps\<close>)
qed

section \<open>Every interleaving\<close>

lemma rs_stop_dispatchers [simp]: "rs_dispatchers (snd (rs_stop t)) = rs_dispatchers t"
  by (simp add: rs_stop_def)

text \<open>What holds of each loop at any moment.\<close>

definition loop_ok :: "'d running_server \<Rightarrow> nat \<Rightarrow> bool" where
  "loop_ok s i \<longleftrightarrow>
     (if i < length (ru_procs s)
      then jm_get (rs_dispatchers (ru_server s)) (pr_service (ru_procs s ! i)) \<noteq> None
        \<and> acks_due (trace_of i s) \<and> phase_trace (pr_phase (ru_procs s ! i)) (trace_of i s)
      else trace_of i s = [])"

lemma trace_of_append:
  "trace_of i (s\<lparr>ru_procs := ps, ru_trace := ru_trace s @ map (Pair j) effs\<rparr>)
    = trace_of i s @ (if i = j then effs else [])"
  by (auto simp: trace_of_def filter_map comp_def)

lemma trace_of_server [simp]: "trace_of i (s\<lparr>ru_server := t\<rparr>) = trace_of i s"
  by (simp add: trace_of_def)

lemma run_exec_ok:
  assumes "\<And>i. loop_ok s i"
  shows "loop_ok (run_exec ev s) i"
proof (cases ev)
  case (LoopEvent j a)
  let ?p = "ru_procs s ! j"
  show ?thesis
  proof (cases "proc_step (ru_server s) (pr_service ?p) (pr_reclaim ?p) (pr_phase ?p) a")
    case None
    then show ?thesis using assms [of i] by (simp add: LoopEvent Let_def)
  next
    case (Some r)
    obtain effs ph where r: "r = (effs, ph)" by (cases r)
    show ?thesis
    proof (cases "j < length (ru_procs s)")
      case True
      then have "acks_due (trace_of j s @ effs) \<and> phase_trace ph (trace_of j s @ effs)"
        using proc_step_trace [OF _ _ _ Some [unfolded r]] assms [of j] by (simp add: loop_ok_def)
      then show ?thesis
        using True assms [of i] Some assms [of j]
        by (auto simp: LoopEvent Let_def r loop_ok_def trace_of_append nth_list_update)
    qed (use assms [of i] in \<open>simp add: LoopEvent\<close>)
  qed
next
  case StopEvent
  then show ?thesis using assms [of i] by (simp add: loop_ok_def)
next
  case (RegisterEvent n d)
  then show ?thesis
    using assms [of i] by (auto simp: loop_ok_def rs_register_def jm_get_set)
qed

lemma run_events_ok: "(\<And>i. loop_ok s i) \<Longrightarrow> loop_ok (run_events es s) i"
  unfolding run_events_def by (induction es arbitrary: s i) (auto simp: run_exec_ok)

fun loop_service :: "server_loop \<Rightarrow> string" where
  "loop_service (ConsumerLoop n c) = n"
| "loop_service (ReclaimLoop n) = n"

lemma proc_of_simps [simp]:
  "pr_service (proc_of b l) = loop_service l"
  "phase_trace (pr_phase (proc_of b l)) tr"
  by (cases l; simp add: loop_top_def)+

lemma run_of_ok:
  assumes "\<forall>l \<in> set (rs_loops t). jm_get (rs_dispatchers t) (loop_service l) \<noteq> None"
  shows "loop_ok (run_of t) i"
  using assms by (auto simp: loop_ok_def run_of_def trace_of_def)

lemma loops_for_services: "l \<in> set (loops_for ns c) \<Longrightarrow> loop_service l \<in> set ns"
  by (induction ns arbitrary: c) auto

lemma started_loops_served:
  assumes "rs_loops t = []" "l \<in> set (rs_loops (snd (rs_start xgroup t)))"
  shows "jm_get (rs_dispatchers (snd (rs_start xgroup t))) (loop_service l) \<noteq> None"
proof -
  have "rs_state t = Idle" using assms by (auto simp: rs_start_def split: run_state.splits)
  then have "loop_service l \<in> set (jm_keys (rs_dispatchers t))"
    using assms start_services_loops [of xgroup "jm_keys (rs_dispatchers t)" "t\<lparr>rs_state := Started, rs_abort := False\<rparr>"]
    by (auto simp: rs_start_def dest!: loops_for_services set_takeWhileD)
  then show ?thesis
    using \<open>rs_state t = Idle\<close> by (simp add: rs_start_def jm_keys_get)
qed


lemma run_of_sample:
  "run_of (snd (rs_start (\<lambda>stream grp. Inr ()) rs_sample)) =
     (let t = snd (rs_start (\<lambda>stream grp. Inr ()) rs_sample) in
      \<lparr>ru_server = t, ru_procs = [\<lparr>pr_service = ''calc'', pr_reclaim = False, pr_phase = Fetching\<rparr>,
         \<lparr>pr_service = ''calc'', pr_reclaim = True, pr_phase = Pausing\<rparr>], ru_trace = []\<rparr>)"
  by (simp add: Let_def run_of_def rs_start_def rs_sample_facts loop_top_def attach_loops_def)


section \<open>Behind \<open>stop\<close>\<close>

text \<open>
  The work a loop still has once the abort flag is up: whether it still waits for a fetch, and
  the number of steps for the entries in hand.
\<close>

fun stage_work :: "stage \<Rightarrow> nat" where
  "stage_work (InDispatch env to) = 3"
| "stage_work InReply = 2"
| "stage_work InAck = 1"

fun phase_work :: "phase \<Rightarrow> nat \<times> nat" where
  "phase_work Fetching = (1, 0)"
| "phase_work Pausing = (0, 1)"
| "phase_work (Running e st es) = (0, stage_work st + 4 * length es)"
| "phase_work Done = (0, 0)"

lemma begin_entry_work: "begin_entry t n e = (effs, st) \<Longrightarrow> stage_work st \<le> 3"
  by (cases st) auto

lemma next_entry_work:
  assumes "rs_abort t" "next_entry t n rc es = (effs, ph)"
  shows "fst (phase_work ph) = 0 \<and> snd (phase_work ph) \<le> 4 * length es"
  using assms by (cases es) (auto simp: loop_top_def dest!: begin_entry_work split: prod.splits)

lemma end_dispatch_work: "end_dispatch t n e to reply = (eff, st) \<Longrightarrow> stage_work st < 3"
  by (auto simp: end_dispatch_def split: option.splits list.splits)

text \<open>With the abort flag up no step begins a fetch, and every step is work done.\<close>

lemma proc_step_work:
  assumes "rs_abort t" "proc_step t n rc ph a = Some (effs, ph')"
  shows "fst (phase_work ph') = 0 \<and> (ph = Fetching \<or> fst (phase_work ph) = 0 \<and> snd (phase_work ph') < snd (phase_work ph))"
proof -
  have next_one: "fst (phase_work ph') = 0 \<and> snd (phase_work ph') \<le> 4 * length es"
    if "next_entry t n rc es = (effs, ph')" for es
    using next_entry_work [OF assms(1) that] .
  have fail: "loop_failed t n rc e x = ([], Done)" for e x
    using assms(1) by (simp add: loop_failed_def)
  show ?thesis
  proof (cases "(t, n, rc, ph, a)" rule: proc_step.cases)
    case (5 t n rc e env to es reply)
    then show ?thesis
      using assms end_dispatch_work [of t n e to reply] by (cases "end_dispatch t n e to reply") auto
  next
    case (9 t n rc e es u)
    then show ?thesis using assms next_one [of es] by (auto simp del: next_entry.simps)
  qed (use assms next_one in \<open>auto simp: fail simp del: next_entry.simps\<close>)
qed

text \<open>A loop that has not ended awaits an answer.\<close>

lemma proc_step_enabled: "(\<exists>a. proc_step t n rc ph a \<noteq> None) \<longleftrightarrow> ph \<noteq> Done"
proof (cases ph)
  case Fetching
  then show ?thesis by (intro iffI exI [of _ "Fetched (Inr [])"]) auto
next
  case Pausing
  then show ?thesis by (intro iffI exI [of _ Woken]) auto
next
  case (Running e st es)
  then show ?thesis
    by (cases st) (auto intro: exI [of _ "Returned (Inl undefined)"] exI [of _ "Answered (Inl undefined)"])
qed auto

text \<open>One step of any loop, and the order in which all loops together come to their end.\<close>

inductive loop_move :: "'d running_server \<Rightarrow> 'd running_server \<Rightarrow> bool" where
  move: "i < length (ru_procs s) \<Longrightarrow>
     proc_step (ru_server s) (pr_service (ru_procs s ! i)) (pr_reclaim (ru_procs s ! i))
       (pr_phase (ru_procs s ! i)) a = Some (effs, ph) \<Longrightarrow>
     loop_move s (run_exec (LoopEvent i a) s)"

inductive_simps loop_move_iff: "loop_move s s'"

definition fetches :: "'d running_server \<Rightarrow> nat" where
  "fetches s = sum_list (map (fst \<circ> phase_work \<circ> pr_phase) (ru_procs s))"

definition work_left :: "'d running_server \<Rightarrow> nat" where
  "work_left s = sum_list (map (snd \<circ> phase_work \<circ> pr_phase) (ru_procs s))"

lemma sum_list_map_update:
  "i < length xs \<Longrightarrow> sum_list (map f (xs[i := x])) + f (xs ! i) = sum_list (map f xs) + (f x :: nat)"
  by (induction xs arbitrary: i) (auto split: nat.split)

lemma loop_move_work:
  assumes "rs_abort (ru_server s)" "loop_move s s'"
  shows "rs_abort (ru_server s') \<and> (fetches s' < fetches s \<or> fetches s' = fetches s \<and> work_left s' < work_left s)"
proof -
  obtain i a effs ph where i: "i < length (ru_procs s)"
    and step: "proc_step (ru_server s) (pr_service (ru_procs s ! i)) (pr_reclaim (ru_procs s ! i))
       (pr_phase (ru_procs s ! i)) a = Some (effs, ph)"
    and s': "s' = run_exec (LoopEvent i a) s"
    using assms(2) by (elim loop_move.cases) blast
  let ?p = "ru_procs s ! i"
  have ps: "ru_procs s' = (ru_procs s)[i := ?p\<lparr>pr_phase := ph\<rparr>]" "ru_server s' = ru_server s"
    by (simp_all add: s' i step Let_def)
  have f: "fetches s' + fst (phase_work (pr_phase ?p)) = fetches s + fst (phase_work ph)"
    and w: "work_left s' + snd (phase_work (pr_phase ?p)) = work_left s + snd (phase_work ph)"
    using sum_list_map_update [OF i, of "fst \<circ> phase_work \<circ> pr_phase" "?p\<lparr>pr_phase := ph\<rparr>"]
      sum_list_map_update [OF i, of "snd \<circ> phase_work \<circ> pr_phase" "?p\<lparr>pr_phase := ph\<rparr>"]
    by (simp_all add: fetches_def work_left_def ps)
  show ?thesis using proc_step_work [OF assms(1) step] f w assms(1) ps by auto
qed

definition all_done :: "'d running_server \<Rightarrow> bool" where
  "all_done s = list_all (\<lambda>p. pr_phase p = Done) (ru_procs s)"

lemma no_move_done: "(\<nexists>s'. loop_move s s') \<longleftrightarrow> all_done s"
proof -
  have "(\<exists>s'. loop_move s s') \<longleftrightarrow> (\<exists>i < length (ru_procs s). \<exists>a r.
     proc_step (ru_server s) (pr_service (ru_procs s ! i)) (pr_reclaim (ru_procs s ! i))
       (pr_phase (ru_procs s ! i)) a = Some r)"
    unfolding loop_move_iff split_paired_Ex by blast
  also have "\<dots> \<longleftrightarrow> (\<exists>i < length (ru_procs s). pr_phase (ru_procs s ! i) \<noteq> Done)"
    by (simp only: proc_step_enabled [unfolded not_None_eq])
  finally show ?thesis by (auto simp: all_done_def list_all_length)
qed

lemma loop_moves_end:
  assumes "rs_abort (ru_server s)"
  shows "\<nexists>run. run 0 = s \<and> (\<forall>k. loop_move (run k) (run (Suc k)))"
proof
  assume "\<exists>run. run 0 = s \<and> (\<forall>k. loop_move (run k) (run (Suc k)))"
  then obtain run where run: "run 0 = s" "\<And>k. loop_move (run k) (run (Suc k))" by blast
  have abort: "rs_abort (ru_server (run k))" for k
    by (induction k) (use run assms loop_move_work in auto)
  let ?r = "inv_image (less_than <*lex*> less_than) (\<lambda>s. (fetches s, work_left s))"
  have "(run (Suc k), run k) \<in> ?r" for k
    using loop_move_work [OF abort run(2), of k] by auto
  moreover have "wf ?r" by auto
  ultimately show False using wf_iff_no_infinite_down_chain [of ?r] by blast
qed

lemma loop_moves_work:
  assumes "loop_move\<^sup>*\<^sup>* s s'" "rs_abort (ru_server s)"
  shows "rs_abort (ru_server s') \<and> fetches s' \<le> fetches s"
  using assms by (induction rule: rtranclp_induct) (use loop_move_work in fastforce)+

text \<open>C22: After stop on a started transport every run of its loops ends: there is no infinite
  sequence of steps, no loop begins another fetch, and as long as not every loop has returned one
  of them can go on with an answer it awaits.\<close>

theorem stopping_loops_end:
  assumes "rs_state (ru_server s) = Started"
  shows "let s' = run_exec StopEvent s in
     (\<nexists>run. run 0 = s' \<and> (\<forall>k. loop_move (run k) (run (Suc k))))
   \<and> (\<forall>s''. loop_move\<^sup>*\<^sup>* s' s'' \<longrightarrow> fetches s'' \<le> fetches s' \<and> (all_done s'' \<or> (\<exists>z. loop_move s'' z)))"
proof -
  have "rs_abort (ru_server (run_exec StopEvent s))" using assms by (simp add: rs_stop_def)
  then show ?thesis
    using loop_moves_end [of "run_exec StopEvent s"] loop_moves_work [of "run_exec StopEvent s"]
      no_move_done unfolding Let_def by blast
qed

theorem stopping_loops_end_witness:
  "\<nexists>run. run 0 = run_exec StopEvent (run_of (snd (rs_start (\<lambda>stream grp. Inr ()) rs_sample)))
     \<and> (\<forall>k. loop_move (run k) (run (Suc k)))"
proof -
  have "rs_state (ru_server (run_of (snd (rs_start (\<lambda>stream grp. Inr ()) rs_sample)))) = Started"
    by (simp add: run_of_def rs_start_def rs_sample_facts attach_loops_def Let_def)
  from stopping_loops_end [OF this] show ?thesis unfolding Let_def by blast
qed

section \<open>The steps of a turn\<close>

text \<open>A sequence of steps of one loop, none of them disturbed by a change of the transport.\<close>

fun proc_steps :: "'d redis_server \<Rightarrow> string \<Rightarrow> bool \<Rightarrow> answer list \<Rightarrow>
    (entry \<times> effect) list \<times> phase \<Rightarrow> ((entry \<times> effect) list \<times> phase) option" where
  "proc_steps t n rc [] (effs, ph) = Some (effs, ph)"
| "proc_steps t n rc (a # as) (effs, ph) =
     (case proc_step t n rc ph a of
        None \<Rightarrow> None
      | Some (effs', ph') \<Rightarrow> proc_steps t n rc as (effs @ effs', ph'))"

lemma proc_steps_append:
  "proc_steps t n rc (as @ bs) r = Option.bind (proc_steps t n rc as r) (proc_steps t n rc bs)"
  by (induction t n rc as r rule: proc_steps.induct) (auto split: option.split)

lemma proc_steps_prepend:
  "proc_steps t n rc as (pre @ effs, ph) = map_option (apfst ((@) pre)) (proc_steps t n rc as (effs, ph))"
  by (induction as arbitrary: effs ph) (auto split: option.split)

text \<open>How the handling of one entry goes on, in the terms of both descriptions.\<close>

definition entry_outcome ::
    "'d redis_server \<Rightarrow> string \<Rightarrow> bool \<Rightarrow> entry \<Rightarrow> entry list \<Rightarrow> handled \<Rightarrow>
     (entry \<times> effect) list \<times> phase \<Rightarrow> bool" where
  "entry_outcome t n rc e es h r =
     (case snd h of
        None \<Rightarrow> map snd (fst r) = fst h \<and> (\<exists>env to. snd r = Running e (InDispatch env to) es)
      | Some (Inr u) \<Rightarrow> r = (map (Pair e) (fst h) @ fst (next_entry t n rc es), snd (next_entry t n rc es))
      | Some (Inl x) \<Rightarrow> r = (map (Pair e) (fst h) @ fst (loop_failed t n rc e x), snd (loop_failed t n rc e x)))"

lemma ack_outcome:
  assumes "redis_ack = redis (XAck (commandStream (rs_keyPrefix t) n) (consumerGroupName n) (fst e))"
  shows "\<exists>r. proc_step t n rc (Running e InAck es) (Answered redis_ack) = Some r
    \<and> entry_outcome t n rc e es (pre, Some redis_ack) (map (Pair e) pre @ fst r, snd r)"
  by (cases redis_ack) (auto simp: entry_outcome_def)

lemma begin_entry_handled:
  "(\<exists>pre. begin_entry t n e = (pre @ [entry_ack t n e], InAck)
      \<and> handle_entry run redis t n (commandStream (rs_keyPrefix t) n) (consumerGroupName n) e w
        = (ack_entry redis (XAck (commandStream (rs_keyPrefix t) n) (consumerGroupName n) (fst e)) pre, w))
   \<or> (\<exists>env d to. jm_get (rs_dispatchers t) n = Some d \<and> begin_entry t n e = ([EDispatch env], InDispatch env to)
      \<and> handle_entry run redis t n (commandStream (rs_keyPrefix t) n) (consumerGroupName n) e w =
          (case run d env w of
             (None, w') \<Rightarrow> (([EDispatch env], None), w')
           | (Some (Inl x), w') \<Rightarrow> (([EDispatch env], Some (Inl x)), w')
           | (Some (Inr reply), w') \<Rightarrow>
             (finish_entry redis t (XAck (commandStream (rs_keyPrefix t) n) (consumerGroupName n) (fst e))
                env to reply, w')))"
proof (cases e)
  case (Pair eid flds)
  show ?thesis
    unfolding Pair fst_conv
    by (auto simp: begin_entry_def handle_entry.simps Let_def split: sum.split option.split)
qed

text \<open>
  One entry: with the answers of this dispatcher and this Redis the steps do what \<open>handle_entry\<close> does.
\<close>

lemma entry_steps:
  assumes "begin_entry t n e = (effs0, st)"
    and "handle_entry run redis t n (commandStream (rs_keyPrefix t) n) (consumerGroupName n) e w = (h, w')"
  shows "\<exists>as r. proc_steps t n rc as (map (Pair e) effs0, Running e st es) = Some r
    \<and> entry_outcome t n rc e es h r"
proof -
  let ?ack = "XAck (commandStream (rs_keyPrefix t) n) (consumerGroupName n) (fst e)"
  have ack: "entry_ack t n e = ECmd ?ack" by (simp add: entry_ack_def)
  have acked: "\<exists>as r. proc_steps t n rc as (map (Pair e) (pre @ [ECmd ?ack]), Running e InAck es) = Some r
      \<and> entry_outcome t n rc e es (ack_entry redis ?ack pre) r" for pre
  proof -
    obtain r where "proc_step t n rc (Running e InAck es) (Answered (redis ?ack)) = Some r"
      "entry_outcome t n rc e es (pre @ [ECmd ?ack], Some (redis ?ack)) (map (Pair e) (pre @ [ECmd ?ack]) @ fst r, snd r)"
      using ack_outcome [OF HOL.refl] by blast
    then show ?thesis
      by (intro exI [of _ "[Answered (redis ?ack)]"] exI)
        (simp add: ack_entry_def split_beta del: proc_step.simps)
  qed
  consider (poison) pre where "effs0 = pre @ [ECmd ?ack]" "st = InAck" "h = ack_entry redis ?ack pre"
    | (dispatch) env d to where "effs0 = [EDispatch env]" "st = InDispatch env to"
      "(h, w') = (case run d env w of
             (None, w') \<Rightarrow> (([EDispatch env], None), w')
           | (Some (Inl x), w') \<Rightarrow> (([EDispatch env], Some (Inl x)), w')
           | (Some (Inr reply), w') \<Rightarrow> (finish_entry redis t ?ack env to reply, w'))"
    using begin_entry_handled [of t n e run redis w] unfolding assms ack by auto
  then show ?thesis
  proof cases
    case poison
    then show ?thesis using acked by simp
  next
    case dispatch
    obtain out w1 where run: "run d env w = (out, w1)" by fastforce
    consider "out = None" | x where "out = Some (Inl x)" | reply where "out = Some (Inr reply)"
      by (metis option.exhaust sum.exhaust)
    then show ?thesis
    proof cases
      case 1
      then show ?thesis
        using dispatch run by (intro exI [of _ "[]"]) (auto simp: entry_outcome_def)
    next
      case (2 x)
      then show ?thesis
        using dispatch run by (intro exI [of _ "[Returned (Inl x)]"]) (auto simp: entry_outcome_def split_beta)
    next
      case (3 reply)
      have h: "h = finish_entry redis t ?ack env to reply" using dispatch run 3 by simp
      obtain eff st' where e: "end_dispatch t n e to reply = (eff, st')" by fastforce
      have step: "proc_steps t n rc (Returned (Inr reply) # as) (map (Pair e) effs0, Running e st es)
          = proc_steps t n rc as (map (Pair e) [EDispatch env, eff], Running e st' es)" for as
        using dispatch e by simp
      show ?thesis
      proof (cases "\<exists>c cs r. to = Some (c # cs) \<and> reply = Some r")
        case False
        then have "eff = ECmd ?ack" "st' = InAck" "h = ack_entry redis ?ack [EDispatch env]"
          using e ack by (auto simp: end_dispatch_def h finish_entry_def split: option.splits list.splits)
        then show ?thesis using step acked [of "[EDispatch env]"] by (metis map_append append_Cons append_Nil)
      next
        case True
        then obtain c cs r where r: "to = Some (c # cs)" "reply = Some r" by blast
        let ?cmd = "reply_cmd t (c # cs) r"
        have e': "eff = ECmd ?cmd" "st' = InReply" using e by (simp_all add: end_dispatch_def r)
        show ?thesis
        proof (cases "redis ?cmd")
          case (Inl x)
          then show ?thesis
            using step [of "[Answered (Inl x)]"]
            by (intro exI [of _ "[Returned (Inr reply), Answered (Inl x)]"])
              (simp add: e' h r finish_entry_def Let_def entry_outcome_def split_beta del: proc_step.simps(5))
        next
          case (Inr u)
          have h': "h = ack_entry redis ?ack [EDispatch env, ECmd ?cmd]"
            using Inr by (simp add: h r finish_entry_def Let_def)
          have "proc_steps t n rc (Returned (Inr reply) # Answered (Inr u) # as) (map (Pair e) effs0, Running e st es)
              = proc_steps t n rc as (map (Pair e) ([EDispatch env, ECmd ?cmd] @ [ECmd ?ack]), Running e InAck es)" for as
            unfolding step by (simp add: e' ack)
          then show ?thesis using acked [of "[EDispatch env, ECmd ?cmd]"] unfolding h' by metis
        qed
      qed
    qed
  qed
qed

text \<open>A batch: the same effects in the same order, and the same end.\<close>

definition batch_outcome :: "'d redis_server \<Rightarrow> string \<Rightarrow> bool \<Rightarrow> handled \<Rightarrow> (entry \<times> effect) list \<times> phase \<Rightarrow> bool" where
  "batch_outcome t n rc h r =
     (case snd h of
        None \<Rightarrow> map snd (fst r) = fst h \<and> (\<exists>e env to es. snd r = Running e (InDispatch env to) es)
      | Some (Inr u) \<Rightarrow> map snd (fst r) = fst h \<and> snd r = loop_top (rs_abort t) rc
      | Some (Inl x) \<Rightarrow> map snd (fst r) = fst h @ map snd (fst (loop_failed t n rc ([], []) x))
          \<and> snd r = snd (loop_failed t n rc ([], []) x))"

lemma loop_failed_any:
  "map snd (fst (loop_failed t n rc e x)) = map snd (fst (loop_failed t n rc ([], []) x))"
  "snd (loop_failed t n rc e x) = snd (loop_failed t n rc ([], []) x)"
  by (simp_all add: loop_failed_def)

lemma entry_outcome_end:
  assumes "entry_outcome t n rc e es h r" "snd h = None \<or> (\<exists>x. snd h = Some (Inl x))"
  shows "batch_outcome t n rc h r"
proof -
  have "map snd (map (Pair e) xs) = xs" for xs :: "effect list" by (simp add: comp_def)
  then show ?thesis
    using assms loop_failed_any [of t n rc e]
    by (auto simp: entry_outcome_def batch_outcome_def simp del: map_map)
qed

lemma batch_outcome_prepend:
  "batch_outcome t n rc (effs, res) r \<Longrightarrow> batch_outcome t n rc (pre @ effs, res) (map (Pair e) pre @ fst r, snd r)"
  by (auto simp: batch_outcome_def comp_def split: option.splits sum.splits)

lemma batch_steps:
  assumes "handle_entries run redis t n (commandStream (rs_keyPrefix t) n) (consumerGroupName n) es w = (h, w')"
  shows "\<exists>as r. proc_steps t n rc as (next_entry t n rc es) = Some r \<and> batch_outcome t n rc h r"
  using assms
proof (induction es arbitrary: w h w')
  case Nil
  then show ?case by (intro exI [of _ "[]"]) (auto simp: batch_outcome_def)
next
  case (Cons e es)
  let ?handle = "handle_entry run redis t n (commandStream (rs_keyPrefix t) n) (consumerGroupName n) e w"
  obtain effs0 st where b: "begin_entry t n e = (effs0, st)" by fastforce
  then have start: "next_entry t n rc (e # es) = (map (Pair e) effs0, Running e st es)" by simp
  obtain effs res w1 where h: "?handle = ((effs, res), w1)" by (metis surj_pair)
  obtain as r where steps: "proc_steps t n rc as (map (Pair e) effs0, Running e st es) = Some r"
    and r: "entry_outcome t n rc e es (effs, res) r"
    using entry_steps [OF b h] by blast
  show ?case
  proof (cases "\<exists>u. res = Some (Inr u)")
    case False
    then have "h = (effs, res)" "snd (effs, res) = None \<or> (\<exists>x. snd (effs, res) = Some (Inl x))"
      using Cons.prems h by (cases res; auto split: sum.splits)+
    then show ?thesis
      using entry_outcome_end [OF r] steps unfolding start by blast
  next
    case True
    obtain h2 w2 where more: "handle_entries run redis t n (commandStream (rs_keyPrefix t) n) (consumerGroupName n) es w1 = (h2, w2)"
      by fastforce
    then have hh: "h = (effs @ fst h2, snd h2)" using Cons.prems h True by (auto simp: split_beta)
    from Cons.IH [OF more] obtain bs q where q: "proc_steps t n rc bs (next_entry t n rc es) = Some q" "batch_outcome t n rc h2 q"
      by (metis (lifting) ext)
    have "r = (map (Pair e) effs @ fst (next_entry t n rc es), snd (next_entry t n rc es))"
      using r True by (auto simp: entry_outcome_def)
    then have "proc_steps t n rc (as @ bs) (next_entry t n rc (e # es)) = Some (map (Pair e) effs @ fst q, snd q)"
      unfolding start proc_steps_append steps
      using q(1) by (simp add: proc_steps_prepend apfst_def map_prod_def split_beta)
    moreover have "batch_outcome t n rc h (map (Pair e) effs @ fst q, snd q)"
      unfolding hh by (rule batch_outcome_prepend) (use q(2) in simp)
    ultimately show ?thesis by blast
  qed
qed

text \<open>The end of a turn, and the phase the loop is in then.\<close>

definition turn_end :: "'d redis_server \<Rightarrow> bool \<Rightarrow> effect list \<times> loop_next \<Rightarrow> (entry \<times> effect) list \<times> phase \<Rightarrow> bool" where
  "turn_end t rc o1 r \<longleftrightarrow> map snd (fst r) = fst o1 \<and>
     (case snd o1 of
        NextTurn \<Rightarrow> snd r = loop_top (rs_abort t) rc
      | NextTurnAfter ms \<Rightarrow> snd r = Pausing
      | LoopExit \<Rightarrow> snd r = Done
      | Blocked \<Rightarrow> (\<exists>e env to es. snd r = Running e (InDispatch env to) es))"

lemma batch_turn_end:
  assumes "batch_outcome t n rc h r"
    and "\<And>x. turn_end t rc (catch_it x) (loop_failed t n rc ([], []) x)"
    and "handle_entries run redis t n (commandStream (rs_keyPrefix t) n) (consumerGroupName n) es w = (h, w')"
  shows "turn_end t rc (fst (loop_turn run redis t n catch_it es w)) r"
proof -
  obtain effs res where h: "h = (effs, res)" by fastforce
  consider "res = None" | u where "res = Some (Inr u)" | x where "res = Some (Inl x)"
    by (metis option.exhaust sum.exhaust)
  then show ?thesis
  proof cases
    case (3 x)
    then show ?thesis
      using assms(1,3) assms(2) [of x]
      by (cases "snd (catch_it x)") (auto simp: h loop_turn_def batch_outcome_def turn_end_def split_beta)
  qed (use assms(1,3) in \<open>auto simp: h loop_turn_def batch_outcome_def turn_end_def\<close>)
qed

lemma catch_turn_end:
  "turn_end t False (loop_catch (rs_abort t) ''consumer'' n (NextTurnAfter 100) x) (loop_failed t n False ([], []) x)"
  "turn_end t True (loop_catch (rs_abort t) ''reclaim'' n NextTurn x) (loop_failed t n True ([], []) x)"
  by (auto simp: turn_end_def loop_catch_def loop_failed_def loop_top_def)

lemma entries_turn:
  assumes "\<And>x. turn_end t rc (catch_it x) (loop_failed t n rc ([], []) x)"
  shows "\<exists>as r. proc_steps t n rc (Fetched (Inr es) # as) ([], Fetching) = Some r
    \<and> turn_end t rc (fst (loop_turn run redis t n catch_it es w)) r"
proof -
  obtain h w' where h: "handle_entries run redis t n (commandStream (rs_keyPrefix t) n) (consumerGroupName n) es w = (h, w')"
    by fastforce
  from batch_steps [OF h] obtain as r
    where r: "proc_steps t n rc as (next_entry t n rc es) = Some r" "batch_outcome t n rc h r" by blast
  from batch_turn_end [OF r(2) assms h] r(1) show ?thesis
    by (intro exI [of _ as] exI [of _ r]) (simp add: split_beta)
qed

lemma consumer_turn_steps:
  "\<exists>as r. proc_steps t n False as ([], Fetching) = Some r
    \<and> turn_end t False (fst (consumer_turn run redis t (rs_abort t) n rd w)) r"
  (is "\<exists>as r. ?c as r")
proof (cases rd)
  case (ReadFailed x)
  then have "?c [Fetched (Inl x)] (loop_failed t n False ([], []) x)"
    using catch_turn_end(1) by (simp add: consumer_turn_def Let_def split_beta)
  then show ?thesis by blast
next
  case ReadNothing
  then have "?c [Fetched (Inr [])] ([], loop_top (rs_abort t) False)"
    by (simp add: consumer_turn_def Let_def turn_end_def)
  then show ?thesis by blast
next
  case (ReadEntries batches)
  show ?thesis
    using entries_turn [OF catch_turn_end(1), of t n "concat (map snd batches)" run redis w]
    unfolding consumer_turn_def Let_def ReadEntries read_result.case by blast
qed

lemma reclaim_turn_steps:
  "\<exists>as r. proc_steps t n True as ([], Pausing) = Some r
    \<and> turn_end t True (fst (reclaim_turn run redis t (rs_abort t) (rs_abort t) n claimed w)) r"
  (is "\<exists>as r. ?r as r")
proof (cases "rs_abort t")
  case True
  then have "?r [Woken] ([], Done)" by (simp add: reclaim_turn_def turn_end_def)
  then show ?thesis by blast
next
  case False
  note turns = reclaim_turn_def Let_def
  have woken: "proc_steps t n True (Woken # as) ([], Pausing) = proc_steps t n True as ([], Fetching)" for as
    using False by simp
  consider x where "claimed = Inl x" | "claimed = Inr None \<or> claimed = Inr (Some [])"
    | e es where "claimed = Inr (Some (e # es))"
    by (metis list.exhaust option.exhaust sum.exhaust)
  then show ?thesis
  proof cases
    case (1 x)
    then have "?r [Woken, Fetched (Inl x)] (loop_failed t n True ([], []) x)"
      using catch_turn_end(2) [of t n x] False unfolding woken by (simp add: turns split_beta)
    then show ?thesis by blast
  next
    case 2
    then have "?r [Woken, Fetched (Inr [])] ([], loop_top (rs_abort t) True)"
      using False unfolding woken by (auto simp: turns turn_end_def)
    then show ?thesis by blast
  next
    case (3 e es)
    obtain as r where "proc_steps t n True (Fetched (Inr (e # es)) # as) ([], Fetching) = Some r"
      "turn_end t True (fst (loop_turn run redis t n (loop_catch (rs_abort t) ''reclaim'' n NextTurn) (e # es) w)) r"
      using entries_turn [OF catch_turn_end(2), of t n "e # es" run redis w] by blast
    then have "?r (Woken # Fetched (Inr (e # es)) # as) r"
      using 3 False unfolding woken by (simp add: turns del: proc_steps.simps)
    then show ?thesis by blast
  qed
qed


section \<open>Order and concurrency of dispatches\<close>

fun in_dispatch :: "phase \<Rightarrow> bool" where
  "in_dispatch (Running e (InDispatch env to) es) = True"
| "in_dispatch ph = False"

text \<open>Which loop a process is: there is one of each kind for a service.\<close>

definition loop_id :: "proc \<Rightarrow> string \<times> bool" where
  "loop_id p = (pr_service p, pr_reclaim p)"

lemma run_exec_ids: "map loop_id (ru_procs (run_exec ev s)) = map loop_id (ru_procs s)"
  by (cases ev) (auto simp: Let_def map_update loop_id_def list_update_same_conv split: option.split)

lemma run_events_ids: "map loop_id (ru_procs (run_events es s)) = map loop_id (ru_procs s)"
  unfolding run_events_def by (induction es arbitrary: s) (simp_all add: run_exec_ids del: run_exec.simps)

lemma proc_of_id: "loop_id (proc_of b l) = (loop_service l, case l of ConsumerLoop n c \<Rightarrow> False | ReclaimLoop n \<Rightarrow> True)"
  by (cases l) (simp_all add: loop_id_def)

lemma loops_for_ids:
  "distinct ns \<Longrightarrow> distinct (map (\<lambda>l. loop_id (proc_of b l)) (loops_for ns c))"
  by (induction ns arbitrary: c) (auto simp: proc_of_id dest: loops_for_services)

lemma started_loop_ids:
  assumes "rs_loops t = []" "jm_wf (rs_dispatchers t)"
  shows "distinct (map loop_id (ru_procs (run_of (snd (rs_start xgroup t)))))"
proof (cases "rs_state t")
  case Idle
  then show ?thesis
    using assms start_services_loops [of xgroup "jm_keys (rs_dispatchers t)" "t\<lparr>rs_state := Started, rs_abort := False\<rparr>"]
    by (auto simp: run_of_def rs_start_def comp_def jm_wf_keys intro!: loops_for_ids distinct_takeWhile)
qed (use assms in \<open>auto simp: run_of_def rs_start_def\<close>)

lemma distinct_map_filter_le: "distinct (map f xs) \<Longrightarrow> length (filter (\<lambda>x. f x = k \<and> P x) xs) \<le> 1"
  by (induction xs) (auto simp: filter_empty_conv image_iff)


text \<open>The two loops of one service can have a handler each: the bound is reached.\<close>

definition two_at_once :: "string run_event list" where
  "two_at_once = [LoopEvent 1 Woken, LoopEvent 1 (Fetched (Inr [(''1-0'', sample_fields)])),
     LoopEvent 0 (Fetched (Inr [(''2-0'', sample_fields)]))]"

lemma two_at_once_run:
  "map (\<lambda>p. (loop_id p, in_dispatch (pr_phase p)))
     (ru_procs (run_events two_at_once (run_of (snd (rs_start (\<lambda>stream grp. Inr ()) rs_sample)))))
   = [((''calc'', False), True), ((''calc'', True), True)]"
proof -
  obtain r where r: "entry_envelope sample_fields = Some (Request r)" using sample_fields_env by blast
  let ?t = "snd (rs_start (\<lambda>stream grp. Inr ()) rs_sample)"
  have t: "jm_get (rs_dispatchers ?t) ''calc'' = Some ''calc''" "\<not> rs_abort ?t"
    by (simp_all add: rs_start_def rs_sample_facts attach_loops_def Let_def)
  have "begin_entry ?t ''calc'' (eid, sample_fields)
      = ([EDispatch (Request r)], InDispatch (Request r) (field_after ''reply-to'' sample_fields))" for eid
    using begin_entry_cases [of ?t "''calc''" "(eid, sample_fields)"] t(1) r by auto
  with t(2) show ?thesis
    by (simp add: run_of_sample Let_def two_at_once_def run_events_def loop_id_def)
qed


text \<open>The entries that a loop was given, those it has dispatched, and those it has still to handle.\<close>

fun delivered_to :: "nat \<Rightarrow> 'd run_event list \<Rightarrow> entry list" where
  "delivered_to i [] = []"
| "delivered_to i (LoopEvent j (Fetched (Inr b)) # es) = (if j = i then b else []) @ delivered_to i es"
| "delivered_to i (ev # es) = delivered_to i es"

definition dispatched :: "(entry \<times> effect) list \<Rightarrow> entry list" where
  "dispatched tr = map fst (filter (is_dispatch \<circ> snd) tr)"

fun to_handle :: "phase \<Rightarrow> entry list" where
  "to_handle (Running e st es) = es"
| "to_handle ph = []"

lemma dispatched_simps [simp]:
  "dispatched [] = []" "dispatched (xs @ ys) = dispatched xs @ dispatched ys"
  "dispatched ((e, ELog r) # tr) = dispatched tr" "dispatched ((e, ECmd c) # tr) = dispatched tr"
  "dispatched ((e, EDispatch env) # tr) = e # dispatched tr"
  by (simp_all add: dispatched_def)

lemma next_entry_order:
  "next_entry t n rc es = (effs, ph) \<Longrightarrow> subseq (dispatched effs @ to_handle ph) es"
  by (cases es)
    (auto simp: begin_entry_def entry_ack_def poison_log_def Let_def loop_top_def
      split: if_splits sum.splits option.splits)

lemma end_dispatch_order: "end_dispatch t n e to reply = (eff, st) \<Longrightarrow> dispatched [(e, eff)] = []"
  by (auto simp: end_dispatch_def entry_ack_def split: option.splits list.splits)

text \<open>What a step takes is what the loop had still to handle, or the batch it was given.\<close>

fun taken :: "phase \<Rightarrow> answer \<Rightarrow> entry list" where
  "taken Fetching (Fetched (Inr b)) = b"
| "taken ph a = to_handle ph"

lemma proc_step_order:
  assumes "proc_step t n rc ph a = Some (effs, ph')"
  shows "subseq (dispatched effs @ to_handle ph') (taken ph a)"
proof -
  have fail: "dispatched effs = [] \<and> to_handle ph' = []" if "loop_failed t n rc e x = (effs, ph')" for e x
    using that by (auto simp: loop_failed_def loop_error_log_def split: if_split_asm)
  show ?thesis
  proof (cases "(t, n, rc, ph, a)" rule: proc_step.cases)
    case (5 t n rc e env to es reply)
    then show ?thesis
      using assms end_dispatch_order [of t n e to reply] by (cases "end_dispatch t n e to reply") auto
  next
    case (7 t n rc e es u)
    then show ?thesis using assms by (auto simp: entry_ack_def)
  qed (use assms in \<open>auto simp del: next_entry.simps dest: fail next_entry_order\<close>)
qed

definition order_ok :: "'d running_server \<Rightarrow> nat \<Rightarrow> entry list \<Rightarrow> bool" where
  "order_ok s i es \<longleftrightarrow>
     subseq (dispatched (trace_of i s) @ (if i < length (ru_procs s) then to_handle (pr_phase (ru_procs s ! i)) else [])) es"

lemma taken_delivered:
  assumes "subseq (d @ to_handle ph) es"
  shows "subseq (d @ taken ph a) (es @ delivered_to i [LoopEvent i a])"
  using assms
  by (cases "(ph, a)" rule: taken.cases) (auto intro: list_emb_append_mono subseq_order.trans [OF _ subseq_rev_drop_many])

lemma run_exec_order:
  assumes "order_ok s i es"
  shows "order_ok (run_exec ev s) i (es @ delivered_to i [ev])"
proof -
  have more: "order_ok s i (es @ xs)" for xs
    using assms unfolding order_ok_def by (auto intro: subseq_order.trans [OF _ subseq_rev_drop_many])
  show ?thesis
  proof (cases "\<exists>a. ev = LoopEvent i a \<and> i < length (ru_procs s) \<and>
      proc_step (ru_server s) (pr_service (ru_procs s ! i)) (pr_reclaim (ru_procs s ! i)) (pr_phase (ru_procs s ! i)) a \<noteq> None")
    case True
    then obtain a effs ph where ev: "ev = LoopEvent i a" and i: "i < length (ru_procs s)"
      and step: "proc_step (ru_server s) (pr_service (ru_procs s ! i)) (pr_reclaim (ru_procs s ! i))
        (pr_phase (ru_procs s ! i)) a = Some (effs, ph)" by auto
    have "subseq (dispatched (trace_of i s) @ taken (pr_phase (ru_procs s ! i)) a) (es @ delivered_to i [ev])"
      using assms i unfolding ev by (intro taken_delivered) (simp add: order_ok_def)
    moreover have "subseq (dispatched (trace_of i s) @ dispatched effs @ to_handle ph)
        (dispatched (trace_of i s) @ taken (pr_phase (ru_procs s ! i)) a)"
      using proc_step_order [OF step] by (simp add: subseq_append')
    ultimately show ?thesis
      using i step by (auto simp: order_ok_def ev Let_def trace_of_append elim: subseq_order.trans)
  next
    case False
    have "trace_of i (run_exec ev s) = trace_of i s
        \<and> (i < length (ru_procs (run_exec ev s)) \<longleftrightarrow> i < length (ru_procs s))
        \<and> (i < length (ru_procs s) \<longrightarrow> pr_phase (ru_procs (run_exec ev s) ! i) = pr_phase (ru_procs s ! i))"
      using False by (cases ev) (auto simp: Let_def trace_of_append split: option.split)
    then show ?thesis
      using more [of "delivered_to i [ev]"]
      by (cases "i < length (ru_procs s)") (simp_all add: order_ok_def)
  qed
qed

lemma delivered_to_Cons: "delivered_to i (ev # es) = delivered_to i [ev] @ delivered_to i es"
  by (cases "(i, ev # es)" rule: delivered_to.cases) auto

lemma run_events_order:
  "order_ok s i ds \<Longrightarrow> order_ok (run_events es s) i (ds @ delivered_to i es)"
  unfolding run_events_def
proof (induction es arbitrary: s ds)
  case (Cons ev es)
  from Cons.IH [OF run_exec_order [OF Cons.prems, of ev]] show ?case
    by (simp add: delivered_to_Cons [of i ev es] del: run_exec.simps)
qed simp

lemma idle_loop: "to_handle (pr_phase (proc_of b l)) = []"
  by (cases l) (simp_all add: loop_top_def)

text \<open>C26: Every loop dispatches the entries it is given in the order it is given them, and
  each delivery at most once: in every interleaving the entries a loop has dispatched are a
  subsequence of the batches that Redis has delivered to it.\<close>

theorem dispatched_in_delivery_order:
  "subseq (dispatched (trace_of i (run_events es (run_of t)))) (delivered_to i es)"
proof -
  have "order_ok (run_of t) i []"
    by (simp add: order_ok_def run_of_def trace_of_def idle_loop)
  then have "order_ok (run_events es (run_of t)) i ([] @ delivered_to i es)" by (rule run_events_order)
  then show ?thesis
    unfolding order_ok_def by (auto elim: subseq_order.trans [OF subseq_rev_drop_many [OF subseq_order.refl]])
qed

end
