(* ===== verification/ServingLoops.thy ===== *)
theory ServingLoops
  imports RedisLoops
begin

text \<open>
  The server core behind the loops of the Redis server transport: the two components of a
  running \<open>RedisRpcServer\<close> together. A loop that begins an entry calls the dispatcher of its
  service (\<open>dispatch_begin\<close>) and waits; the handler's promise settles at any later time
  (\<open>dispatch_resume\<close>), and the loop goes on with what the dispatcher returned. All loops
  interleave, with each other and with \<open>stop\<close> of the transport.
\<close>

section \<open>State and steps\<close>

text \<open>The promise of a dispatcher that a loop awaits: settled already, or waiting for its handler.\<close>

datatype waiting = Ready "thrown + jsval option" | Awaiting await_ctx promise

fun started_dispatch :: "dispatch_step \<Rightarrow> waiting" where
  "started_dispatch (DReply r) = Ready (Inr r)"
| "started_dispatch (DThrow e) = Ready (Inl e)"
| "started_dispatch (DAwait w p) = Awaiting w p"

record serving =
  sg_loops :: "string running_server"
  sg_core :: server
  sg_waits :: "nat \<Rightarrow> waiting option"

text \<open>A step of loop \<open>i\<close>; when it begins an entry the dispatcher runs up to its \<open>await\<close>.\<close>

definition loop_goes_on :: "nat \<Rightarrow> answer \<Rightarrow> serving \<Rightarrow> serving" where
  "loop_goes_on i a s =
     (let r = sg_loops s; p = ru_procs r ! i in
      if length (ru_procs r) \<le> i then s
      else case proc_step (ru_server r) (pr_service p) (pr_reclaim p) (pr_phase p) a of
        None \<Rightarrow> s
      | Some (effs, Running e (InDispatch env to) es) \<Rightarrow>
          (case jm_get (rs_dispatchers (ru_server r)) (pr_service p) of
             None \<Rightarrow> s
           | Some name \<Rightarrow>
             (let (d, core) = dispatch_begin (sg_core s) name env in
              s\<lparr>sg_loops := run_exec (LoopEvent i a) r, sg_core := core,
                sg_waits := (sg_waits s)(i \<mapsto> started_dispatch d)\<rparr>))
      | Some _ \<Rightarrow> s\<lparr>sg_loops := run_exec (LoopEvent i a) r, sg_waits := (sg_waits s)(i := None)\<rparr>)"

datatype serve_event = RedisAnswers nat answer | HandlerSettles nat | DispatcherReturns nat | TransportStops

fun is_returned :: "answer \<Rightarrow> bool" where
  "is_returned (Returned x) = True"
| "is_returned a = False"

fun serve_exec :: "serve_event \<Rightarrow> serving \<Rightarrow> serving" where
  "serve_exec (RedisAnswers i a) s = (if is_returned a then s else loop_goes_on i a s)"
| "serve_exec (HandlerSettles i) s =
     (case sg_waits s i of
        Some (Awaiting w (Settles x)) \<Rightarrow>
          (let (r, core) = dispatch_resume (sg_core s) w x in
           s\<lparr>sg_core := core, sg_waits := (sg_waits s)(i \<mapsto> Ready (Inr r))\<rparr>)
      | _ \<Rightarrow> s)"
| "serve_exec (DispatcherReturns i) s =
     (case sg_waits s i of
        Some (Ready x) \<Rightarrow> loop_goes_on i (Returned x) s
      | _ \<Rightarrow> s)"
| "serve_exec TransportStops s = s\<lparr>sg_loops := run_exec StopEvent (sg_loops s)\<rparr>"

definition serve_events :: "serve_event list \<Rightarrow> serving \<Rightarrow> serving" where
  "serve_events es s = fold serve_exec es s"

definition serving_of :: "string redis_server \<Rightarrow> server \<Rightarrow> serving" where
  "serving_of t core = \<lparr>sg_loops = run_of t, sg_core = core, sg_waits = Map.empty\<rparr>"

section \<open>A dispatch does not notice the others\<close>

text \<open>What a dispatch in progress will return.\<close>

fun answers :: "waiting \<Rightarrow> (thrown + jsval option) option" where
  "answers (Ready x) = Some x"
| "answers (Awaiting w NeverSettles) = None"
| "answers (Awaiting w (Settles x)) = Some (Inr (fst (dispatch_resume new_server w x)))"

lemma dispatch_resume_fst: "fst (dispatch_resume sv w x) = fst (dispatch_resume new_server w x)"
  by (auto simp: dispatch_resume_def resume_rejected_def resume_resolved_def Let_def
      split: settlement.split option.split sum.split)

lemma started_dispatch_answers:
  "answers (started_dispatch (fst (dispatch_begin sv n env))) = fst (dispatch sv n env)"
proof -
  obtain d sv' where d: "dispatch_begin sv n env = (d, sv')" by fastforce
  show ?thesis
  proof (cases d)
    case (DAwait w p)
    then show ?thesis
      using dispatch_resume_fst [of sv' w] by (cases p) (auto simp: dispatch_def d split_beta)
  qed (simp_all add: dispatch_def d)
qed

text \<open>Up to the number of its promise the beginning depends on the registered services only.\<close>

fun same_step :: "dispatch_step \<Rightarrow> dispatch_step \<Rightarrow> bool" where
  "same_step (DAwait w p) (DAwait w' p') \<longleftrightarrow> w\<lparr>aw_work := 0\<rparr> = w'\<lparr>aw_work := 0\<rparr> \<and> p = p'"
| "same_step d d' \<longleftrightarrow> d = d'"

lemma dispatch_begin_same:
  assumes "sv_services sv = sv_services sv'"
  shows "same_step (fst (dispatch_begin sv n env)) (fst (dispatch_begin sv' n env))"
  using assms by (auto simp: dispatch_begin_def dispatch_call_def split: option.split sum.split envelope.split)

lemma dispatch_resume_work:
  assumes "w\<lparr>aw_work := 0\<rparr> = w'\<lparr>aw_work := 0\<rparr>"
  shows "fst (dispatch_resume sv w x) = fst (dispatch_resume sv w' x)"
proof -
  have "aw_service w = aw_service w'" "aw_method w = aw_method w'" "aw_notification w = aw_notification w'"
    "aw_id w = aw_id w'" "aw_def w = aw_def w'"
    using assms by (cases w; cases w'; simp)+
  then show ?thesis
    by (auto simp: dispatch_resume_def resume_rejected_def resume_resolved_def Let_def
        split: settlement.split option.split sum.split)
qed

lemma same_step_answers:
  assumes "same_step d d'"
  shows "answers (started_dispatch d) = answers (started_dispatch d')"
proof (cases d)
  case (DAwait w p)
  with assms obtain w' where d': "d' = DAwait w' p" "w\<lparr>aw_work := 0\<rparr> = w'\<lparr>aw_work := 0\<rparr>"
    by (cases d') auto
  then show ?thesis
    using dispatch_resume_work [OF d'(2), of new_server] by (cases p) (auto simp: DAwait)
qed (use assms in auto)

lemma dispatch_services:
  assumes "sv_services sv = sv_services sv'"
  shows "fst (dispatch sv n env) = fst (dispatch sv' n env)"
proof -
  obtain d1 s1 where d1: "dispatch_begin sv n env = (d1, s1)" by fastforce
  obtain d2 s2 where d2: "dispatch_begin sv' n env = (d2, s2)" by fastforce
  have "answers (started_dispatch d1) = answers (started_dispatch d2)"
    using same_step_answers [OF dispatch_begin_same [OF assms, of n env]] by (simp add: d1 d2)
  then show ?thesis
    using started_dispatch_answers [of sv n env] started_dispatch_answers [of sv' n env] by (simp add: d1 d2)
qed

section \<open>Every reply is the right one\<close>

text \<open>A reply that a loop adds for an entry is what a dispatcher on its own returns for this entry.\<close>

definition right_reply :: "string redis_server \<Rightarrow> server \<Rightarrow> string \<Rightarrow> entry \<Rightarrow> redis_cmd \<Rightarrow> bool" where
  "right_reply t core service e cmd \<longleftrightarrow>
     (\<exists>env name r. entry_envelope (snd e) = Some env
        \<and> jm_get (rs_dispatchers t) service = Some name
        \<and> fst (dispatch core name env) = Some (Inr (Some r))
        \<and> reply_due t (snd e) (Some r) = Some cmd)"

fun is_add :: "effect \<Rightarrow> bool" where
  "is_add (ECmd (XAdd to args)) = True"
| "is_add eff = False"

lemma reply_due_cong:
  "rs_replyStreamMaxLen t = rs_replyStreamMaxLen t' \<Longrightarrow> reply_due t flds r = reply_due t' flds r"
  by (auto simp: reply_due_def reply_cmd_def split: option.split list.split)

text \<open>What a step tells about the entry in hand.\<close>

lemma begin_entry_no_add: "begin_entry t n e = (effs, st) \<Longrightarrow> \<not> list_ex is_add effs"
  by (auto simp: begin_entry_def entry_ack_def poison_log_def Let_def split: if_splits sum.splits option.splits)

lemma next_entry_no_add: "next_entry t n rc es = (effs, ph) \<Longrightarrow> \<not> list_ex (is_add \<circ> snd) effs"
  by (cases es) (auto simp: list_ex_iff dest!: begin_entry_no_add split: prod.splits)

lemma loop_failed_no_add: "loop_failed t n rc e x = (effs, ph) \<Longrightarrow> \<not> list_ex (is_add \<circ> snd) effs"
  by (auto simp: loop_failed_def loop_error_log_def split: if_splits)

lemma step_add:
  assumes "proc_step t n rc ph a = Some (effs, ph')" "(e, eff) \<in> set effs" "is_add eff"
  shows "\<exists>env to es r cmd. ph = Running e (InDispatch env to) es \<and> a = Returned (Inr (Some r))
    \<and> eff = ECmd cmd \<and> (\<exists>c cs. to = Some (c # cs) \<and> cmd = reply_cmd t (c # cs) r)"
proof -
  have ex: "list_ex (is_add \<circ> snd) effs" using assms(2,3) by (force simp: list_ex_iff)
  show ?thesis
  proof (cases "(t, n, rc, ph, a)" rule: proc_step.cases)
    case (5 t' n' rc' e' env to es reply)
    then show ?thesis
      using assms by (auto simp: end_dispatch_def entry_ack_def split: option.splits list.splits)
  next
    case (7 t' n' rc' e' es u)
    then show ?thesis using assms by (auto simp: entry_ack_def)
  qed (use assms(1) ex in \<open>auto simp del: next_entry.simps dest: next_entry_no_add loop_failed_no_add\<close>)
qed

lemma begin_entry_dispatch:
  assumes "begin_entry t n e = (effs, InDispatch env to)"
  shows "entry_envelope (snd e) = Some env \<and> to = field_after ''reply-to'' (snd e) \<and> jm_get (rs_dispatchers t) n \<noteq> None"
  using assms by (auto simp: begin_entry_def entry_envelope_def Let_def split: if_splits sum.splits option.splits)

lemma next_entry_dispatch:
  "next_entry t n rc es = (effs, Running e (InDispatch env to) es') \<Longrightarrow>
     entry_envelope (snd e) = Some env \<and> to = field_after ''reply-to'' (snd e) \<and> jm_get (rs_dispatchers t) n \<noteq> None"
  by (cases es) (auto simp: loop_top_def split: if_splits prod.splits dest!: begin_entry_dispatch)

lemma step_dispatch:
  assumes "proc_step t n rc ph a = Some (effs, Running e (InDispatch env to) es)"
  shows "entry_envelope (snd e) = Some env \<and> to = field_after ''reply-to'' (snd e) \<and> jm_get (rs_dispatchers t) n \<noteq> None"
proof -
  have no_fail: "\<nexists>x e'. loop_failed t n rc e' x = (effs, Running e (InDispatch env to) es)"
    by (simp add: loop_failed_def)
  have no_end: "end_dispatch t n e' to' reply \<noteq> (eff, InDispatch env to)" for e' to' reply eff
    by (auto simp: end_dispatch_def split: option.splits list.splits)
  show ?thesis
  proof (cases "(t, n, rc, ph, a)" rule: proc_step.cases)
    case (5 t' n' rc' e' env' to' es' reply)
    then show ?thesis using assms no_end by (cases "end_dispatch t n e' to' reply") auto
  qed (use assms no_fail in \<open>auto simp del: next_entry.simps dest: next_entry_dispatch split: if_splits\<close>)
qed

text \<open>What holds at any moment of the served transport \<open>t\<close> and the core it started with.\<close>

fun right_wait :: "string redis_server \<Rightarrow> server \<Rightarrow> string \<Rightarrow> phase \<Rightarrow> waiting option \<Rightarrow> bool" where
  "right_wait t core n (Running e (InDispatch env to) es) W \<longleftrightarrow>
     (\<exists>name w. W = Some w \<and> jm_get (rs_dispatchers t) n = Some name
        \<and> entry_envelope (snd e) = Some env \<and> to = field_after ''reply-to'' (snd e)
        \<and> answers w = fst (dispatch core name env))"
| "right_wait t core n ph W \<longleftrightarrow> True"

definition same_server :: "string redis_server \<Rightarrow> server \<Rightarrow> serving \<Rightarrow> bool" where
  "same_server t core s \<longleftrightarrow> sv_services (sg_core s) = sv_services core
     \<and> rs_dispatchers (ru_server (sg_loops s)) = rs_dispatchers t
     \<and> rs_replyStreamMaxLen (ru_server (sg_loops s)) = rs_replyStreamMaxLen t"

definition serving_ok :: "string redis_server \<Rightarrow> server \<Rightarrow> serving \<Rightarrow> bool" where
  "serving_ok t core s \<longleftrightarrow> same_server t core s
     \<and> (\<forall>i < length (ru_procs (sg_loops s)).
          right_wait t core (pr_service (ru_procs (sg_loops s) ! i)) (pr_phase (ru_procs (sg_loops s) ! i)) (sg_waits s i))
     \<and> (\<forall>(i, e, eff) \<in> set (ru_trace (sg_loops s)). i < length (ru_procs (sg_loops s))
          \<and> (is_add eff \<longrightarrow> (\<exists>cmd. eff = ECmd cmd
               \<and> right_reply t core (pr_service (ru_procs (sg_loops s) ! i)) e cmd)))"

lemma step_right_reply:
  assumes w: "right_wait t core n ph W" "\<And>x. a = Returned x \<Longrightarrow> W = Some (Ready x)"
    and due: "\<And>flds r. reply_due t' flds r = reply_due t flds r"
    and step: "proc_step t' n rc ph a = Some (effs, ph')" "(e, eff) \<in> set effs" "is_add eff"
  shows "\<exists>cmd. eff = ECmd cmd \<and> right_reply t core n e cmd"
proof -
  from step_add [OF step] obtain env to es r cmd c cs where ph: "ph = Running e (InDispatch env to) es"
    and a: "a = Returned (Inr (Some r))" and cmd: "eff = ECmd cmd" "to = Some (c # cs)" "cmd = reply_cmd t' (c # cs) r"
    by blast
  from w(1) obtain name where name: "jm_get (rs_dispatchers t) n = Some name" "entry_envelope (snd e) = Some env"
    "to = field_after ''reply-to'' (snd e)" "Some (Inr (Some r)) = fst (dispatch core name env)"
    unfolding ph using w(2) [OF a] by auto
  have "reply_due t' (snd e) (Some r) = Some cmd" using cmd name(3) by (simp add: reply_due_def)
  then show ?thesis unfolding right_reply_def using cmd(1) name due by metis
qed

lemma serving_okD:
  assumes "serving_ok t core s"
  shows "same_server t core s"
    and "i < length (ru_procs (sg_loops s)) \<Longrightarrow>
      right_wait t core (pr_service (ru_procs (sg_loops s) ! i)) (pr_phase (ru_procs (sg_loops s) ! i)) (sg_waits s i)"
    and "(i, e, eff) \<in> set (ru_trace (sg_loops s)) \<Longrightarrow> i < length (ru_procs (sg_loops s))"
    and "(i, e, eff) \<in> set (ru_trace (sg_loops s)) \<Longrightarrow> is_add eff \<Longrightarrow>
      \<exists>cmd. eff = ECmd cmd \<and> right_reply t core (pr_service (ru_procs (sg_loops s) ! i)) e cmd"
  using assms unfolding serving_ok_def by auto

text \<open>The loops after a step of loop \<open>i\<close>, and what the loop awaits then.\<close>

lemma loop_step_ok:
  assumes ok: "serving_ok t core s" and i: "i < length (ru_procs (sg_loops s))"
    and ret: "\<And>x. a = Returned x \<Longrightarrow> sg_waits s i = Some (Ready x)"
    and step: "proc_step (ru_server (sg_loops s)) (pr_service (ru_procs (sg_loops s) ! i))
      (pr_reclaim (ru_procs (sg_loops s) ! i)) (pr_phase (ru_procs (sg_loops s) ! i)) a = Some (effs, ph)"
    and W: "right_wait t core (pr_service (ru_procs (sg_loops s) ! i)) ph W"
    and core': "sv_services core' = sv_services core"
  shows "serving_ok t core (s\<lparr>sg_loops := run_exec (LoopEvent i a) (sg_loops s), sg_core := core',
      sg_waits := (sg_waits s)(i := W)\<rparr>)"
proof -
  let ?r = "sg_loops s" and ?p = "ru_procs (sg_loops s) ! i"
  have r': "run_exec (LoopEvent i a) ?r = ?r\<lparr>ru_procs := (ru_procs ?r)[i := ?p\<lparr>pr_phase := ph\<rparr>],
      ru_trace := ru_trace ?r @ map (Pair i) effs\<rparr>"
    using i step by (simp add: Let_def)
  have due: "reply_due (ru_server ?r) flds r = reply_due t flds r" for flds r
    using serving_okD(1) [OF ok] by (intro reply_due_cong) (simp add: same_server_def)
  have new: "\<exists>cmd. eff = ECmd cmd \<and> right_reply t core (pr_service ?p) e cmd"
    if "(e, eff) \<in> set effs" "is_add eff" for e eff
    using step_right_reply [OF serving_okD(2) [OF ok i] ret due step that] .
  have svc: "pr_service ((ru_procs ?r)[i := ?p\<lparr>pr_phase := ph\<rparr>] ! j) = pr_service (ru_procs ?r ! j)" for j
    using i by (cases "j = i") simp_all
  show ?thesis
    unfolding serving_ok_def r'
  proof (intro conjI)
    show "same_server t core (s\<lparr>sg_loops := ?r\<lparr>ru_procs := (ru_procs ?r)[i := ?p\<lparr>pr_phase := ph\<rparr>],
        ru_trace := ru_trace ?r @ map (Pair i) effs\<rparr>, sg_core := core', sg_waits := (sg_waits s)(i := W)\<rparr>)"
      using serving_okD(1) [OF ok] core' by (simp add: same_server_def)
  qed (use serving_okD [OF ok] i new W svc in \<open>auto simp: nth_list_update\<close>)
qed

text \<open>The two kinds of a step of a loop: it begins a dispatch, or it does not.\<close>

lemma loop_goes_on_cases:
  obtains "loop_goes_on i a s = s"
  | effs ph where "i < length (ru_procs (sg_loops s))"
      "proc_step (ru_server (sg_loops s)) (pr_service (ru_procs (sg_loops s) ! i))
        (pr_reclaim (ru_procs (sg_loops s) ! i)) (pr_phase (ru_procs (sg_loops s) ! i)) a = Some (effs, ph)"
      "\<And>e env to es. ph \<noteq> Running e (InDispatch env to) es"
      "loop_goes_on i a s = s\<lparr>sg_loops := run_exec (LoopEvent i a) (sg_loops s), sg_waits := (sg_waits s)(i := None)\<rparr>"
  | effs e env to es name d core where "i < length (ru_procs (sg_loops s))"
      "proc_step (ru_server (sg_loops s)) (pr_service (ru_procs (sg_loops s) ! i))
        (pr_reclaim (ru_procs (sg_loops s) ! i)) (pr_phase (ru_procs (sg_loops s) ! i)) a
       = Some (effs, Running e (InDispatch env to) es)"
      "jm_get (rs_dispatchers (ru_server (sg_loops s))) (pr_service (ru_procs (sg_loops s) ! i)) = Some name"
      "dispatch_begin (sg_core s) name env = (d, core)"
      "loop_goes_on i a s = s\<lparr>sg_loops := run_exec (LoopEvent i a) (sg_loops s), sg_core := core,
         sg_waits := (sg_waits s)(i \<mapsto> started_dispatch d)\<rparr>"
proof (cases "i < length (ru_procs (sg_loops s))")
  case False
  then show ?thesis using that(1) by (simp add: loop_goes_on_def Let_def)
next
  case True
  let ?p = "ru_procs (sg_loops s) ! i"
  show ?thesis
  proof (cases "proc_step (ru_server (sg_loops s)) (pr_service ?p) (pr_reclaim ?p) (pr_phase ?p) a")
    case None
    then show ?thesis using that(1) True by (simp add: loop_goes_on_def Let_def)
  next
    case (Some r)
    obtain effs ph where r: "r = (effs, ph)" by fastforce
    show ?thesis
    proof (cases "\<exists>e env to es. ph = Running e (InDispatch env to) es")
      case False
      then have "loop_goes_on i a s = s\<lparr>sg_loops := run_exec (LoopEvent i a) (sg_loops s), sg_waits := (sg_waits s)(i := None)\<rparr>"
        using True Some by (auto simp: loop_goes_on_def Let_def r simp del: run_exec.simps split: phase.split stage.split)
      then show ?thesis using that(2) [OF True Some [unfolded r]] False by blast
    next
      case True': True
      then obtain e env to es where ph: "ph = Running e (InDispatch env to) es" by blast
      obtain name where name: "jm_get (rs_dispatchers (ru_server (sg_loops s))) (pr_service ?p) = Some name"
        using step_dispatch [OF Some [unfolded r ph]] by auto
      obtain d core where d: "dispatch_begin (sg_core s) name env = (d, core)" by fastforce
      have "loop_goes_on i a s = s\<lparr>sg_loops := run_exec (LoopEvent i a) (sg_loops s), sg_core := core,
         sg_waits := (sg_waits s)(i \<mapsto> started_dispatch d)\<rparr>"
        using True Some by (simp add: loop_goes_on_def Let_def r ph name d del: run_exec.simps)
      then show ?thesis using that(3) [OF True Some [unfolded r ph] name d] by blast
    qed
  qed
qed

lemma right_wait_other: "(\<And>e env to es. ph \<noteq> Running e (InDispatch env to) es) \<Longrightarrow> right_wait t core n ph W"
  by (cases "(t, core, n, ph, W)" rule: right_wait.cases) auto

lemma loop_goes_on_ok:
  assumes ok: "serving_ok t core s" and ret: "\<And>x. a = Returned x \<Longrightarrow> sg_waits s i = Some (Ready x)"
  shows "serving_ok t core (loop_goes_on i a s)"
proof (cases rule: loop_goes_on_cases [of i a s])
  case 1
  then show ?thesis using ok by simp
next
  case (2 effs ph)
  have "sv_services (sg_core s) = sv_services core" using serving_okD(1) [OF ok] by (simp add: same_server_def)
  from loop_step_ok [OF ok 2(1) ret 2(2) right_wait_other [OF 2(3)] this, of None] show ?thesis
    by (simp add: 2(4))
next
  case (3 effs e env to es name d core')
  have same: "sv_services (sg_core s) = sv_services core" "rs_dispatchers (ru_server (sg_loops s)) = rs_dispatchers t"
    using serving_okD(1) [OF ok] by (simp_all add: same_server_def)
  have "sv_services core' = sv_services core"
    using dispatch_begin_frame(1) [of "sg_core s" name env] same(1) by (simp add: 3(4))
  moreover have "answers (started_dispatch d) = fst (dispatch core name env)"
    using started_dispatch_answers [of "sg_core s" name env] dispatch_services [OF same(1), of name env] by (simp add: 3(4))
  then have "right_wait t core (pr_service (ru_procs (sg_loops s) ! i)) (Running e (InDispatch env to) es) (Some (started_dispatch d))"
    using step_dispatch [OF 3(2)] 3(3) same(2) by simp
  ultimately show ?thesis
    using loop_step_ok [OF ok 3(1) ret 3(2)] by (simp add: 3(5) del: run_exec.simps)
qed

lemma right_wait_answers:
  "answers w = answers w' \<Longrightarrow> right_wait t core n ph (Some w) \<longleftrightarrow> right_wait t core n ph (Some w')"
  by (cases "(t, core, n, ph, Some w)" rule: right_wait.cases) auto

lemma handler_settles_ok:
  assumes ok: "serving_ok t core s" and w: "sg_waits s i = Some (Awaiting w (Settles x))"
  shows "serving_ok t core (serve_exec (HandlerSettles i) s)"
proof -
  obtain r core' where r: "dispatch_resume (sg_core s) w x = (r, core')" by fastforce
  have eq: "answers (Awaiting w (Settles x)) = answers (Ready (Inr r))"
    using dispatch_resume_fst [of "sg_core s" w x] by (simp add: r)
  have "right_wait t core (pr_service (ru_procs (sg_loops s) ! j)) (pr_phase (ru_procs (sg_loops s) ! j))
      (((sg_waits s)(i \<mapsto> Ready (Inr r))) j)" if "j < length (ru_procs (sg_loops s))" for j
    using serving_okD(2) [OF ok that] right_wait_answers [OF eq] w by (cases "j = i") auto
  moreover have "sv_services core' = sv_services (sg_core s)"
    using dispatch_resume_frame(1) [of "sg_core s" w x] by (simp add: r)
  ultimately show ?thesis
    using ok by (simp add: serving_ok_def same_server_def w r)
qed

lemma serve_exec_ok: "serving_ok t core s \<Longrightarrow> serving_ok t core (serve_exec ev s)"
proof (cases ev)
  case (RedisAnswers i a)
  assume "serving_ok t core s"
  then show ?thesis
    using loop_goes_on_ok [of t core s a i] by (cases a) (auto simp: RedisAnswers)
next
  case (HandlerSettles i)
  assume ok: "serving_ok t core s"
  show ?thesis
  proof (cases "\<exists>w x. sg_waits s i = Some (Awaiting w (Settles x))")
    case True
    then show ?thesis using handler_settles_ok [OF ok] by (auto simp: HandlerSettles)
  next
    case False
    then have "serve_exec (HandlerSettles i) s = s"
      by (auto split: option.split waiting.split promise.split)
    then show ?thesis using ok by (simp add: HandlerSettles del: serve_exec.simps)
  qed
next
  case (DispatcherReturns i)
  assume "serving_ok t core s"
  then show ?thesis
    using loop_goes_on_ok [of t core s _ i] by (auto simp: DispatcherReturns split: option.split waiting.split)
next
  case TransportStops
  assume "serving_ok t core s"
  then show ?thesis by (simp add: TransportStops serving_ok_def same_server_def rs_stop_def)
qed

lemma serve_events_ok: "serving_ok t core s \<Longrightarrow> serving_ok t core (serve_events es s)"
  unfolding serve_events_def by (induction es arbitrary: s) (simp_all add: serve_exec_ok del: serve_exec.simps)

lemma serving_of_ok: "serving_ok t core (serving_of t core)"
proof -
  have "right_wait t core n (pr_phase (proc_of b l)) W" for n b l W
    by (rule right_wait_other) (cases l; simp add: loop_top_def)
  then show ?thesis by (simp add: serving_ok_def serving_of_def same_server_def run_of_def)
qed

text \<open>The loops stay the ones that were started.\<close>

lemma loop_goes_on_ids: "map loop_id (ru_procs (sg_loops (loop_goes_on i a s))) = map loop_id (ru_procs (sg_loops s))"
  by (cases rule: loop_goes_on_cases [of i a s]) (simp_all add: run_exec_ids del: run_exec.simps)

lemma serve_exec_ids: "map loop_id (ru_procs (sg_loops (serve_exec ev s))) = map loop_id (ru_procs (sg_loops s))"
  by (cases ev)
    (auto simp: loop_goes_on_ids split_beta split: option.split waiting.split promise.split)

lemma serve_events_ids:
  "map loop_id (ru_procs (sg_loops (serve_events es s))) = map loop_id (ru_procs (sg_loops s))"
  unfolding serve_events_def
  by (induction es arbitrary: s) (simp_all add: serve_exec_ids del: serve_exec.simps)

lemma served_loops:
  fixes es t core
  defines "ps \<equiv> ru_procs (sg_loops (serve_events es (serving_of t core)))"
  shows "length ps = length (rs_loops t)"
    and "i < length ps \<Longrightarrow> pr_service (ps ! i) = loop_service (rs_loops t ! i)"
proof -
  have ids: "map loop_id ps = map (\<lambda>l. loop_id (proc_of (rs_abort t) l)) (rs_loops t)"
    unfolding ps_def serve_events_ids by (simp add: serving_of_def run_of_def comp_def)
  from arg_cong [OF ids, of length] show len: "length ps = length (rs_loops t)" by simp
  assume "i < length ps"
  moreover from arg_cong [OF ids, of "\<lambda>xs. xs ! i"] this len
  have "loop_id (ps ! i) = loop_id (proc_of (rs_abort t) (rs_loops t ! i))" by simp
  ultimately show "pr_service (ps ! i) = loop_service (rs_loops t ! i)" by (simp add: loop_id_def)
qed

lemma reply_alone:
  assumes "(i, e, ECmd (XAdd to args)) \<in> set (ru_trace (sg_loops (serve_events es (serving_of t core))))"
  shows "i < length (rs_loops t) \<and> (\<exists>env name r. entry_envelope (snd e) = Some env
    \<and> jm_get (rs_dispatchers t) (loop_service (rs_loops t ! i)) = Some name
    \<and> fst (dispatch core name env) = Some (Inr (Some r))
    \<and> reply_due t (snd e) (Some r) = Some (XAdd to args))"
proof -
  note ok = serve_events_ok [OF serving_of_ok [of t core], of es]
  note i = serving_okD(3) [OF ok assms]
  from serving_okD(4) [OF ok assms] have "right_reply t core (loop_service (rs_loops t ! i)) e (XAdd to args)"
    using served_loops(2) [OF i] by simp
  then show ?thesis using i by (simp add: served_loops(1) right_reply_def)
qed

text \<open>C7: However the loops, the handlers and stop of the transport interleave, every reply that the
  transport adds to a stream for an entry is the one that the dispatcher of its service, on its
  own and on the core as it was at the start, returns for this entry, and goes to the stream that
  the entry names.\<close>

theorem replies_as_if_alone:
  assumes "(i, e, ECmd (XAdd to args)) \<in> set (ru_trace (sg_loops (serve_events es (serving_of t core))))"
  shows "i < length (rs_loops t) \<and> (\<exists>env name r. entry_envelope (snd e) = Some env
    \<and> jm_get (rs_dispatchers t) (loop_service (rs_loops t ! i)) = Some name
    \<and> fst (dispatch core name env) = Some (Inr (Some r))
    \<and> reply_due t (snd e) (Some r) = Some (XAdd to args))"
  using assms by (rule reply_alone)

text \<open>A run in which the handler of one entry rejects and its caller is told so.\<close>

definition sample_serve :: "serve_event list" where
  "sample_serve = [RedisAnswers 0 (Fetched (Inr [(''1-0'', sample_fields)])), HandlerSettles 0, DispatcherReturns 0]"

definition sample_entry_req :: request_env where
  "sample_entry_req = \<lparr>rq_service = ''calc'', rq_method = ''add'', rq_fullMethod = ''calc.add'',
      rq_params = JObj [], rq_id = JNum 1, rq_raw = [(''jsonrpc'', JStr ''2.0''),
        (''method'', JStr ''calc.add''), (''params'', JObj []), (''id'', JNum 1)]\<rparr>"

lemma sample_entry_env: "entry_envelope sample_fields = Some (Request sample_entry_req)"
  by code_simp

lemma sample_begin:
  "\<exists>w core. dispatch_begin calc_server ''calc'' (Request sample_entry_req)
     = (DAwait w (Settles (Rejected (new_rpc_error 7 ''no a'' JNull))), core) \<and> \<not> aw_notification w"
  by (simp add: dispatch_begin_def dispatch_call_def calc_server_entry lookup_method_def calc_methods
      calc_method_def object_schema_def calc_handlers_def calc_add_def sample_entry_req_def Let_def)

lemma sample_serve_adds:
  "\<exists>e to args. (0, e, ECmd (XAdd to args)) \<in> set (ru_trace (sg_loops (serve_events sample_serve
     (serving_of (snd (rs_start (\<lambda>stream grp. Inr ()) rs_sample)) calc_server))))"
proof -
  let ?t = "snd (rs_start (\<lambda>stream grp. Inr ()) rs_sample)"
  have t: "jm_get (rs_dispatchers ?t) ''calc'' = Some ''calc''" "\<not> rs_abort ?t"
    by (simp_all add: rs_start_def rs_sample_facts attach_loops_def Let_def)
  have to: "field_after ''reply-to'' sample_fields = Some ''app:replies:i1''" by (simp add: sample_fields_def)
  have b: "begin_entry ?t ''calc'' (eid, sample_fields)
      = ([EDispatch (Request sample_entry_req)], InDispatch (Request sample_entry_req) (Some ''app:replies:i1''))" for eid
    using begin_entry_cases [of ?t "''calc''" "(eid, sample_fields)"] t(1) sample_entry_env to by auto
  obtain w core where d: "dispatch_begin calc_server ''calc'' (Request sample_entry_req)
     = (DAwait w (Settles (Rejected (new_rpc_error 7 ''no a'' JNull))), core)" "\<not> aw_notification w"
    using sample_begin by blast
  obtain v core2 where r: "dispatch_resume core w (Rejected (new_rpc_error 7 ''no a'' JNull)) = (Some v, core2)"
    using d(2) by (auto simp: dispatch_resume_def resume_rejected_def new_rpc_error_def)
  show ?thesis
    by (simp add: serving_of_def run_of_sample Let_def sample_serve_def serve_events_def loop_goes_on_def
        b t d r end_dispatch_def reply_cmd_def)
qed

theorem replies_as_if_alone_witness:
  "\<exists>e to args env name r.
     (0, e, ECmd (XAdd to args)) \<in> set (ru_trace (sg_loops (serve_events sample_serve
       (serving_of (snd (rs_start (\<lambda>stream grp. Inr ()) rs_sample)) calc_server))))
     \<and> entry_envelope (snd e) = Some env \<and> fst (dispatch calc_server name env) = Some (Inr (Some r))"
proof -
  obtain e to args where add: "(0, e, ECmd (XAdd to args)) \<in> set (ru_trace (sg_loops (serve_events sample_serve
     (serving_of (snd (rs_start (\<lambda>stream grp. Inr ()) rs_sample)) calc_server))))"
    using sample_serve_adds by blast
  from replies_as_if_alone [OF add] add show ?thesis by blast
qed

section \<open>The entries a reply is for\<close>

fun in_hand :: "phase \<Rightarrow> entry list" where
  "in_hand (Running e st es) = e # es"
| "in_hand ph = []"

definition given :: "phase \<Rightarrow> answer \<Rightarrow> entry set" where
  "given ph a = set (in_hand ph) \<union> (case a of Fetched (Inr b) \<Rightarrow> set b | _ \<Rightarrow> {})"

lemma step_in_hand:
  assumes "proc_step t n rc ph a = Some (effs, ph')"
  shows "set (in_hand ph') \<subseteq> given ph a"
proof -
  have next_one: "set (in_hand ph') \<subseteq> set es" if "next_entry t n rc es = (effs, ph')" for es
    using that by (cases es) (auto simp: loop_top_def split: prod.splits)
  have fail: "in_hand ph' = []" if "loop_failed t n rc e x = (effs, ph')" for e x
    using that by (auto simp: loop_failed_def split: if_splits)
  show ?thesis
  proof (cases "(t, n, rc, ph, a)" rule: proc_step.cases)
    case (2 t n rc es)
    then show ?thesis using assms next_one by (auto simp: given_def simp del: next_entry.simps)
  next
    case (9 t n rc e es u)
    then show ?thesis using assms next_one by (auto simp: given_def simp del: next_entry.simps)
  next
    case (5 t n rc e env to es reply)
    then show ?thesis using assms by (cases "end_dispatch t n e to reply") (auto simp: given_def)
  qed (use assms fail in \<open>auto simp: given_def\<close>)
qed

fun served_to :: "nat \<Rightarrow> serve_event list \<Rightarrow> entry list" where
  "served_to i [] = []"
| "served_to i (RedisAnswers j (Fetched (Inr b)) # es) = (if j = i then b else []) @ served_to i es"
| "served_to i (ev # es) = served_to i es"

lemma served_to_Cons: "served_to i (ev # es) = served_to i [ev] @ served_to i es"
  by (cases "(i, ev # es)" rule: served_to.cases) auto

definition hand_ok :: "serving \<Rightarrow> (nat \<Rightarrow> entry set) \<Rightarrow> bool" where
  "hand_ok s D \<longleftrightarrow>
     (\<forall>i < length (ru_procs (sg_loops s)). set (in_hand (pr_phase (ru_procs (sg_loops s) ! i))) \<subseteq> D i)
     \<and> (\<forall>(i, e, eff) \<in> set (ru_trace (sg_loops s)). is_add eff \<longrightarrow> e \<in> D i)"

lemma hand_ok_mono: "hand_ok s D \<Longrightarrow> (\<And>i. D i \<subseteq> D' i) \<Longrightarrow> hand_ok s D'"
  unfolding hand_ok_def by fast

lemma run_exec_hand:
  assumes "hand_ok s D" "sg_loops s' = run_exec (LoopEvent i a) (sg_loops s)"
    and "\<And>b. a = Fetched (Inr b) \<Longrightarrow> set b \<subseteq> D i"
  shows "hand_ok s' D"
proof (cases "i < length (ru_procs (sg_loops s))")
  case True
  let ?p = "ru_procs (sg_loops s) ! i"
  show ?thesis
  proof (cases "proc_step (ru_server (sg_loops s)) (pr_service ?p) (pr_reclaim ?p) (pr_phase ?p) a")
    case None
    then have "sg_loops s' = sg_loops s" using assms(2) True by (simp add: Let_def)
    then show ?thesis using assms(1) by (simp add: hand_ok_def)
  next
    case (Some r)
    obtain effs ph where r: "r = (effs, ph)" by fastforce
    have loops: "sg_loops s' = (sg_loops s)\<lparr>ru_procs := (ru_procs (sg_loops s))[i := ?p\<lparr>pr_phase := ph\<rparr>],
        ru_trace := ru_trace (sg_loops s) @ map (Pair i) effs\<rparr>"
      using assms(2) True Some by (simp add: Let_def r)
    have hand: "set (in_hand (pr_phase ?p)) \<subseteq> D i" using assms(1) True by (simp add: hand_ok_def)
    have "given (pr_phase ?p) a \<subseteq> D i"
      using hand assms(3) by (auto simp: given_def split: answer.splits sum.splits)
    then have new: "set (in_hand ph) \<subseteq> D i" using step_in_hand [OF Some [unfolded r]] by blast
    have "e \<in> D i" if "(e, eff) \<in> set effs" "is_add eff" for e eff
      using step_add [OF Some [unfolded r] that] hand by auto
    then show ?thesis
      using assms(1) new True unfolding hand_ok_def loops by (auto simp: nth_list_update)
  qed
next
  case False
  then have "sg_loops s' = sg_loops s" using assms(2) by simp
  then show ?thesis using assms(1) by (simp add: hand_ok_def)
qed

lemma loop_goes_on_hand:
  assumes "hand_ok s D" "\<And>b. a = Fetched (Inr b) \<Longrightarrow> set b \<subseteq> D i"
  shows "hand_ok (loop_goes_on i a s) D"
proof (cases rule: loop_goes_on_cases [of i a s])
  case 1
  then show ?thesis using assms(1) by simp
next
  case (2 effs ph)
  have "sg_loops (loop_goes_on i a s) = run_exec (LoopEvent i a) (sg_loops s)"
    unfolding 2(4) by (simp del: run_exec.simps)
  from run_exec_hand [OF assms(1) this assms(2)] show ?thesis .
next
  case (3 effs e env to es name d core)
  have "sg_loops (loop_goes_on i a s) = run_exec (LoopEvent i a) (sg_loops s)"
    unfolding 3(5) by (simp del: run_exec.simps)
  from run_exec_hand [OF assms(1) this assms(2)] show ?thesis .
qed

lemma serve_exec_hand:
  assumes "hand_ok s D"
  shows "hand_ok (serve_exec ev s) (\<lambda>i. D i \<union> set (served_to i [ev]))"
proof -
  have more: "hand_ok s (\<lambda>i. D i \<union> set (served_to i [ev]))" by (rule hand_ok_mono [OF assms]) blast
  have same: "hand_ok s' D'" if "sg_loops s' = sg_loops s" "hand_ok s D'" for s' D'
    using that by (simp add: hand_ok_def)
  show ?thesis
  proof (cases ev)
    case (RedisAnswers i a)
    have "set b \<subseteq> D i \<union> set (served_to i [ev])" if "a = Fetched (Inr b)" for b
      using that by (simp add: RedisAnswers)
    from loop_goes_on_hand [OF more this] show ?thesis using more by (simp add: RedisAnswers)
  next
    case (HandlerSettles i)
    then show ?thesis
      using more by (auto simp: split_beta intro!: same split: option.split waiting.split promise.split)
  next
    case (DispatcherReturns i)
    then show ?thesis
      using more loop_goes_on_hand [OF more, of _ i] by (auto split: option.split waiting.split)
  next
    case TransportStops
    then show ?thesis using more by (simp add: hand_ok_def)
  qed
qed

lemma serve_events_hand:
  "hand_ok s D \<Longrightarrow> hand_ok (serve_events es s) (\<lambda>i. D i \<union> set (served_to i es))"
  unfolding serve_events_def
proof (induction es arbitrary: s D)
  case (Cons ev es)
  from Cons.IH [OF serve_exec_hand [OF Cons.prems, of ev]] show ?case
    unfolding served_to_Cons [of _ ev es] by (simp add: Un_assoc del: serve_exec.simps)
qed simp

text \<open>A reply is only added for an entry that Redis has given to this loop.\<close>

lemma reply_for_served:
  assumes "(i, e, ECmd (XAdd to args)) \<in> set (ru_trace (sg_loops (serve_events es (serving_of t core))))"
  shows "e \<in> set (served_to i es)"
proof -
  have "in_hand (pr_phase (proc_of b l)) = []" for b l by (cases l) (simp_all add: loop_top_def)
  then have "hand_ok (serving_of t core) (\<lambda>i. {})"
    by (simp add: hand_ok_def serving_of_def run_of_def)
  from serve_events_hand [OF this, of es] assms show ?thesis unfolding hand_ok_def by fastforce
qed

section \<open>The handlers in flight\<close>

text \<open>
  The set that \<open>stop\<close> of the core drains: it holds one promise for each loop that awaits a handler.
\<close>

definition awaits :: "serving \<Rightarrow> nat \<Rightarrow> nat \<Rightarrow> bool" where
  "awaits s i k \<longleftrightarrow> (\<exists>w p. sg_waits s i = Some (Awaiting w p) \<and> aw_work w = k)"

definition flight_ok :: "serving \<Rightarrow> bool" where
  "flight_ok s \<longleftrightarrow>
     distinct (sv_inflight (sg_core s)) \<and> (\<forall>k \<in> set (sv_inflight (sg_core s)). k < sv_next (sg_core s))
     \<and> (\<forall>k. k \<in> set (sv_inflight (sg_core s)) \<longleftrightarrow> (\<exists>i. awaits s i k))
     \<and> (\<forall>i j k. awaits s i k \<longrightarrow> awaits s j k \<longrightarrow> i = j)
     \<and> (\<forall>i. sg_waits s i \<noteq> None \<longrightarrow> i < length (ru_procs (sg_loops s)) \<and> in_dispatch (pr_phase (ru_procs (sg_loops s) ! i)))"

lemma step_from_dispatch:
  "proc_step t n rc ph a = Some r \<Longrightarrow> in_dispatch ph \<Longrightarrow> is_returned a"
  by (cases "(t, n, rc, ph, a)" rule: proc_step.cases) auto

lemma flight_okD:
  assumes "flight_ok s"
  shows "distinct (sv_inflight (sg_core s))" "k \<in> set (sv_inflight (sg_core s)) \<Longrightarrow> k < sv_next (sg_core s)"
    "k \<in> set (sv_inflight (sg_core s)) \<longleftrightarrow> (\<exists>i. awaits s i k)" "awaits s i k \<Longrightarrow> awaits s j k \<Longrightarrow> i = j"
    "sg_waits s i \<noteq> None \<Longrightarrow> i < length (ru_procs (sg_loops s))"
    "sg_waits s i \<noteq> None \<Longrightarrow> in_dispatch (pr_phase (ru_procs (sg_loops s) ! i))"
  using assms unfolding flight_ok_def by blast+

lemma ex_if:
  assumes "\<not> Q i"
  shows "(\<exists>j. if j = i then P else Q j) \<longleftrightarrow> P \<or> (\<exists>j. Q j)"
proof
  assume "P \<or> (\<exists>j. Q j)"
  then consider "P" | j where "Q j" by blast
  then show "\<exists>j. if j = i then P else Q j"
  proof cases
    case 1
    then show ?thesis by (intro exI [of _ i]) simp
  next
    case (2 j)
    with assms show ?thesis by (intro exI [of _ j]) auto
  qed
qed (auto split: if_split_asm)

text \<open>A loop that steps does not await a handler; afterwards it may.\<close>

lemma loop_flight_ok:
  assumes ok: "flight_ok s" and ret: "is_returned a \<Longrightarrow> \<exists>x. sg_waits s i = Some (Ready x)"
  shows "flight_ok (loop_goes_on i a s)"
proof (cases rule: loop_goes_on_cases [of i a s])
  case 1
  then show ?thesis using ok by simp
next
  case (2 effs ph)
  let ?s = "s\<lparr>sg_loops := run_exec (LoopEvent i a) (sg_loops s), sg_waits := (sg_waits s)(i := None)\<rparr>"
  have "\<not> awaits s i k" for k
    using ret step_from_dispatch [OF 2(2)] flight_okD(6) [OF ok, of i] by (force simp: awaits_def)
  then have "awaits ?s j k \<longleftrightarrow> awaits s j k" for j k by (auto simp: awaits_def)
  moreover have "sg_waits ?s j \<noteq> None \<Longrightarrow> j < length (ru_procs (sg_loops ?s)) \<and> in_dispatch (pr_phase (ru_procs (sg_loops ?s) ! j))" for j
    using flight_okD(5,6) [OF ok, of j] 2(1,2) by (cases "j = i") (auto simp: Let_def)
  ultimately show ?thesis using ok unfolding 2(4) flight_ok_def by simp
next
  case (3 effs e env to es name d core)
  let ?s = "s\<lparr>sg_loops := run_exec (LoopEvent i a) (sg_loops s), sg_core := core, sg_waits := (sg_waits s)(i \<mapsto> started_dispatch d)\<rparr>"
  have none: "\<not> awaits s i k" for k
    using ret step_from_dispatch [OF 3(2)] flight_okD(6) [OF ok, of i] by (force simp: awaits_def)
  have phase: "sg_waits ?s j \<noteq> None \<Longrightarrow> j < length (ru_procs (sg_loops ?s)) \<and> in_dispatch (pr_phase (ru_procs (sg_loops ?s) ! j))" for j
    using flight_okD(5,6) [OF ok, of j] 3(1,2) by (cases "j = i") (auto simp: Let_def)
  show ?thesis
  proof (cases "\<exists>w p. d = DAwait w p")
    case False
    then have "awaits ?s j k \<longleftrightarrow> awaits s j k" for j k using none by (cases d) (auto simp: awaits_def)
    moreover have "sv_inflight core = sv_inflight (sg_core s)" "sv_next core = sv_next (sg_core s)"
      using dispatch_begin_done [OF 3(4)] False by auto
    ultimately show ?thesis using ok phase unfolding 3(5) flight_ok_def by simp
  next
    case True
    then obtain w p where d: "d = DAwait w p" by blast
    note new = dispatch_begin_await [OF 3(4) [unfolded d]]
    have aw: "awaits ?s j k \<longleftrightarrow> (if j = i then k = sv_next (sg_core s) else awaits s j k)" for j k
      using new(1) by (auto simp: awaits_def d)
    have fresh: "\<not> awaits s j (sv_next (sg_core s))" for j
      using flight_okD(2,3) [OF ok] by blast
    have "distinct (sv_inflight core)" "\<forall>k \<in> set (sv_inflight core). k < sv_next core"
      using flight_okD(1,2) [OF ok] new(2,3) by (auto simp: less_Suc_eq)
    moreover have "k \<in> set (sv_inflight core) \<longleftrightarrow> (\<exists>j. awaits ?s j k)" for k
    proof -
      have "(\<exists>j. awaits ?s j k) \<longleftrightarrow> k = sv_next (sg_core s) \<or> (\<exists>j. awaits s j k)"
        unfolding aw by (rule ex_if) (rule none)
      then show ?thesis using flight_okD(3) [OF ok, of k] new(2) by auto
    qed
    moreover have "awaits ?s j k \<Longrightarrow> awaits ?s l k \<Longrightarrow> j = l" for j k l
      using flight_okD(4) [OF ok, of j k l] fresh unfolding aw by (auto split: if_split_asm)
    ultimately show ?thesis using phase unfolding 3(5) flight_ok_def by simp
  qed
qed

lemma settle_flight_ok:
  assumes ok: "flight_ok s" and w: "sg_waits s i = Some (Awaiting w (Settles x))"
  shows "flight_ok (serve_exec (HandlerSettles i) s)"
proof -
  obtain r core where r: "dispatch_resume (sg_core s) w x = (r, core)" by fastforce
  have fl: "sv_inflight core = filter (\<lambda>k. k \<noteq> aw_work w) (sv_inflight (sg_core s))" "sv_next core = sv_next (sg_core s)"
    using dispatch_resume_frame(3,4) [of "sg_core s" w x] by (simp_all add: r)
  let ?s = "s\<lparr>sg_core := core, sg_waits := (sg_waits s)(i \<mapsto> Ready (Inr r))\<rparr>"
  have i: "awaits s i (aw_work w)" using w by (simp add: awaits_def)
  have aw: "awaits ?s j k \<longleftrightarrow> awaits s j k \<and> k \<noteq> aw_work w" for j k
    using flight_okD(4) [OF ok i, of j] w by (cases "j = i") (auto simp: awaits_def)
  have "flight_ok ?s"
    using flight_okD [OF ok] w unfolding flight_ok_def aw by (auto simp: fl) 
  then show ?thesis by (simp add: w r)
qed

lemma serve_exec_flight: "flight_ok s \<Longrightarrow> flight_ok (serve_exec ev s)"
proof (cases ev)
  case (RedisAnswers i a)
  assume "flight_ok s"
  then show ?thesis using loop_flight_ok [of s a i] by (cases "is_returned a") (simp_all add: RedisAnswers)
next
  case (HandlerSettles i)
  assume ok: "flight_ok s"
  show ?thesis
  proof (cases "\<exists>w x. sg_waits s i = Some (Awaiting w (Settles x))")
    case True
    then show ?thesis using settle_flight_ok [OF ok] by (auto simp: HandlerSettles)
  next
    case False
    then have "serve_exec (HandlerSettles i) s = s"
      by (auto split: option.split waiting.split promise.split)
    then show ?thesis using ok by (simp add: HandlerSettles del: serve_exec.simps)
  qed
next
  case (DispatcherReturns i)
  assume "flight_ok s"
  then show ?thesis
    using loop_flight_ok [of s _ i] by (auto simp: DispatcherReturns split: option.split waiting.split)
next
  case TransportStops
  assume "flight_ok s"
  then show ?thesis by (simp add: TransportStops flight_ok_def awaits_def)
qed

lemma serve_events_flight: "flight_ok s \<Longrightarrow> flight_ok (serve_events es s)"
  unfolding serve_events_def by (induction es arbitrary: s) (simp_all add: serve_exec_flight del: serve_exec.simps)

text \<open>C14: At every moment the set that stop of the core drains holds exactly one promise for each loop
  that awaits a handler, so never more than there are loops, and it is empty exactly when no
  handler of an entry is running.\<close>

theorem handlers_in_flight:
  assumes "sv_inflight core = []"
  shows "let s = serve_events es (serving_of t core) in
    length (sv_inflight (sg_core s)) = card {i. \<exists>w p. sg_waits s i = Some (Awaiting w p)}
    \<and> length (sv_inflight (sg_core s)) \<le> length (rs_loops t)"
proof -
  let ?s = "serve_events es (serving_of t core)"
  let ?A = "{i. \<exists>w p. sg_waits ?s i = Some (Awaiting w p)}"
  have ok: "flight_ok ?s"
    by (rule serve_events_flight) (simp add: flight_ok_def serving_of_def awaits_def assms)
  have sub: "?A \<subseteq> {..<length (rs_loops t)}"
    using flight_okD(5) [OF ok] served_loops(1) [of es t core] by auto
  define f where "f i = (case sg_waits ?s i of Some (Awaiting w p) \<Rightarrow> aw_work w | _ \<Rightarrow> 0)" for i
  have f: "awaits ?s i k \<longleftrightarrow> i \<in> ?A \<and> f i = k" for i k
    by (auto simp: awaits_def f_def)
  have "inj_on f ?A"
  proof (rule inj_onI)
    fix i j
    assume "i \<in> ?A" "j \<in> ?A" "f i = f j"
    then have "awaits ?s i (f i)" "awaits ?s j (f i)" by (simp_all add: f)
    then show "i = j" by (rule flight_okD(4) [OF ok])
  qed
  moreover have "f ` ?A = set (sv_inflight (sg_core ?s))"
  proof (rule set_eqI)
    fix k
    show "k \<in> f ` ?A \<longleftrightarrow> k \<in> set (sv_inflight (sg_core ?s))"
      unfolding flight_okD(3) [OF ok] f image_iff by blast
  qed
  ultimately have "length (sv_inflight (sg_core ?s)) = card ?A"
    using distinct_card [OF flight_okD(1) [OF ok]] card_image [of f ?A] by simp
  moreover have "card ?A \<le> length (rs_loops t)" using card_mono [OF _ sub] by simp
  ultimately show ?thesis by (simp add: Let_def)
qed

theorem handlers_in_flight_witness:
  "length (sv_inflight (sg_core (serve_events (take 1 sample_serve)
     (serving_of (snd (rs_start (\<lambda>stream grp. Inr ()) rs_sample)) calc_server)))) \<le> 2"
proof -
  have "sv_inflight calc_server = []"
    by (simp add: calc_server_def register_contract_def registerService_def new_server_def jm_has_def jm_get_def)
  moreover have "length (rs_loops (snd (rs_start (\<lambda>stream grp. Inr ()) rs_sample))) = 2"
    by (simp add: rs_start_def rs_sample_facts attach_loops_def Let_def)
  ultimately show ?thesis
    using handlers_in_flight [of calc_server "take 1 sample_serve" "snd (rs_start (\<lambda>stream grp. Inr ()) rs_sample)"]
    by (simp add: Let_def)
qed

end
