(* ===== verification/InterleavedCall.thy ===== *)
theory InterleavedCall
  imports ServingLoops EndToEnd
begin

text \<open>
  A Redis client transport and a running \<open>RedisRpcServer\<close>, each with any interleaving of its own
  events, joined by what Redis delivers: entries of a command stream that were added to it, and
  entries of a reply stream that were added to it, in any order, late, more than once or not at
  all. Whatever happens a call is only resolved with what the abstract service says about it.
\<close>

section \<open>The calls of a client and what Redis delivers\<close>

text \<open>A call as the client core sends it.\<close>

record rpc_call =
  q_service :: string
  q_method :: string
  q_params :: jsval
  q_id :: string

definition call_env :: "rpc_call \<Rightarrow> jsval" where
  "call_env q = build_request (full_method (q_service q) (q_method q)) (q_params q) (JStr (q_id q))"

text \<open>What the service behind the core says about a call, whose parameters have passed through JSON.\<close>

definition call_outcome :: "server \<Rightarrow> rpc_call \<Rightarrow> outcome option" where
  "call_outcome core q =
     (case jm_get (sv_services core) (q_service q) of
        None \<Rightarrow> None
      | Some s \<Rightarrow> call_spec (se_contract s) (se_handlers s) (q_method q) (js_nullish (json_norm (q_params q)) (JObj [])))"

definition good_call :: "server \<Rightarrow> rpc_call \<Rightarrow> bool" where
  "good_call core q \<longleftrightarrow>
     SERVICE_RE (q_service q) \<and> METHOD_RE (q_method q) \<and> json_ok (q_params q)
     \<and> (\<exists>c hs. jm_get (sv_services core) (q_service q) = Some \<lparr>se_contract = c, se_handlers = hs\<rparr> \<and> good_service c hs
          \<and> (q_method q \<notin> set object_prototype_names \<or> jm_get (ct_methods c) (q_method q) \<noteq> None))
     \<and> (\<forall>out. call_outcome core q = Some out \<longrightarrow> outcome_ok out)"

text \<open>
  What the code relies on in Redis: a reader of a stream is given entries that were added to the
  stream. For the entries that name another reply stream, those of other clients, nothing is
  assumed.
\<close>

definition replies_from :: "serving \<Rightarrow> string \<Rightarrow> rc_event list \<Rightarrow> bool" where
  "replies_from s stream ces \<longleftrightarrow>
     (\<forall>x \<in> set (read_entries ces). \<exists>i e args.
        (i, e, ECmd (XAdd stream args)) \<in> set (ru_trace (sg_loops s)) \<and> snd x = drop 4 args)"

definition requests_from :: "redis_client \<Rightarrow> string redis_server \<Rightarrow> serve_event list \<Rightarrow> bool" where
  "requests_from c t ses \<longleftrightarrow>
     (\<forall>i < length (rs_loops t). \<forall>e \<in> set (served_to i ses).
        field_after ''reply-to'' (snd e) = Some (rc_replyStream c) \<longrightarrow>
        XAdd (commandStream (rs_keyPrefix t) (loop_service (rs_loops t ! i))) (''*'' # snd e) \<in> set (rc_cmds c))"

lemma call_env_key: "SERVICE_RE (q_service q) \<Longrightarrow> METHOD_RE (q_method q) \<Longrightarrow>
    \<exists>r. parse_envelope (call_env q) = Inr (Request r) \<and> rq_service r = q_service q \<and> env_key (call_env q) = JStr (q_id q)"
  using parse_build_request [of "q_service q" "q_method q" "JStr (q_id q)" "q_params q"]
  by (auto simp: call_env_def env_key_def pending_key_def)

lemma reply_due_some:
  "reply_due t flds (Some r) = Some (XAdd to args) \<longleftrightarrow>
     to \<noteq> [] \<and> field_after ''reply-to'' flds = Some to \<and> XAdd to args = reply_cmd t to r"
  by (auto simp: reply_due_def reply_cmd_def split: option.split list.split)

text \<open>A reply on the stream of the client answers one of its calls, as the abstract service does.\<close>

lemma reply_answers_call:
  assumes c0: "rc_cmds c0 = []" "accepted ces c0 = map call_env qs" "\<forall>q \<in> set qs. good_call core q"
    and t: "\<And>n d. jm_get (rs_dispatchers t) n = Some d \<Longrightarrow> d = n \<and> no_colon n"
    and req: "requests_from (rc_run ces c0) t ses"
    and add: "(i, e, ECmd (XAdd (rc_replyStream c0) args)) \<in> set (ru_trace (sg_loops (serve_events ses (serving_of t core))))"
  shows "\<exists>q \<in> set qs. \<exists>out r. call_outcome core q = Some out \<and> encode_outcome (JStr (q_id q)) out = Some r
    \<and> drop 4 args = [''type'', ''rpc'', ''envelope'', json_text r]"
proof -
  have stream: "rc_replyStream (rc_run ces c0) = rc_replyStream c0"
    unfolding rc_run_def by (induction ces rule: rev_induct) (simp_all add: rc_exec_names rc_replyStream_def del: rc_exec.simps)
  obtain env name r where i: "i < length (rs_loops t)" and env: "entry_envelope (snd e) = Some env"
    and name: "jm_get (rs_dispatchers t) (loop_service (rs_loops t ! i)) = Some name"
    and disp: "fst (dispatch core name env) = Some (Inr (Some r))"
    and due: "reply_due t (snd e) (Some r) = Some (XAdd (rc_replyStream c0) args)"
    using reply_alone [OF add] by blast
  note due' = due [unfolded reply_due_some]
  have args: "drop 4 args = [''type'', ''rpc'', ''envelope'', json_text r]" using due' by (simp add: reply_cmd_def)
  let ?s = "loop_service (rs_loops t ! i)"
  have "XAdd (commandStream (rs_keyPrefix t) ?s) (''*'' # snd e) \<in> set (rc_cmds (rc_run ces c0))"
    using req i reply_for_served [OF add] due' stream unfolding requests_from_def by auto
  from added_with_reply [OF c0(1) this] obtain env' where env': "env' \<in> set (accepted ces c0)"
    "request_added c0 env' (commandStream (rs_keyPrefix t) ?s) (''*'' # snd e)" using due' by blast
  obtain q where q: "q \<in> set qs" "env' = call_env q" using env'(1) by (auto simp: c0(2))
  have good: "good_call core q" using c0(3) q(1) by blast
  then have names: "SERVICE_RE (q_service q)" "METHOD_RE (q_method q)" "json_ok (q_params q)" by (simp_all add: good_call_def)
  obtain rq where rq: "parse_envelope (call_env q) = Inr (Request rq)" "rq_service rq = q_service q"
    using call_env_key [OF names(1,2)] by blast
  have svc: "?s = q_service q"
    using env'(2) q(2) rq t [OF name] command_stream_inject [OF _ SERVICE_RE_no_colon [OF names(1)]]
    by (auto simp: request_added_def)
  have flds: "snd e = [''type'', ''rpc'', ''envelope'', json_text (call_env q), ''reply-to'', rc_replyStream c0]"
    using env'(2) q(2) by (auto simp: request_added_def request_fields_def)
  obtain rr where rr: "env = Request rr" "rq_method rr = q_method q" "rq_id rr = JStr (q_id q)"
    "rq_params rr = js_nullish (json_norm (q_params q)) (JObj [])"
    using request_over_json [OF names, of "q_id q" "rc_replyStream c0"] env unfolding flds call_env_def by auto
  obtain c hs where entry: "jm_get (sv_services core) (q_service q) = Some \<lparr>se_contract = c, se_handlers = hs\<rparr>"
    and gs: "good_service c hs" "q_method q \<notin> set object_prototype_names \<or> jm_get (ct_methods c) (q_method q) \<noteq> None"
    using good by (auto simp: good_call_def)
  have "fst (dispatch core (q_service q) (Request rr)) =
      map_option (\<lambda>out. Inr (encode_outcome (JStr (q_id q)) out)) (call_outcome core q)"
    using dispatch_refines_lemma [OF entry gs(1), of rr] gs(2) rr by (simp add: call_outcome_def entry)
  then have "map_option (\<lambda>out. Inr (encode_outcome (JStr (q_id q)) out)) (call_outcome core q) = Some (Inr (Some r))"
    using disp t [OF name] svc rr(1) by simp
  then show ?thesis using q(1) args by auto
qed

text \<open>C3: However the events of the client transport, of the loops, of the handlers and of both stops
  interleave, and whatever Redis delivers late, again or not at all: when a call of the client is
  resolved, it is resolved with what the abstract service says for the parameters of this very
  call. The ids of the calls are distinct, as the client core makes them.\<close>

theorem interleaved_call_correct:
  assumes "rc_calls c0 = no_calls" "rc_cmds c0 = []"
    and "accepted ces c0 = map call_env qs" "distinct (map q_id qs)" "\<forall>q \<in> set qs. good_call core q"
    and "\<forall>n d. jm_get (rs_dispatchers t) n = Some d \<longrightarrow> d = n \<and> no_colon n"
    and "requests_from (rc_run ces c0) t ses"
    and "replies_from (serve_events ses (serving_of t core)) (rc_replyStream c0) ces"
    and "settled (rc_calls (rc_run ces c0)) h = Some (Inr v)"
  shows "h < length qs \<and> call_decode v = wire_result (call_outcome core (qs ! h))"
proof -
  obtain x where h: "h < length qs" and x: "x \<in> set (read_entries ces)" "entry_result x = Some (Inr v)"
    and key: "env_key (call_env (qs ! h)) = JStr (js_string (js_get v ''id''))"
    using resolved_by_reply [OF assms(1,9)] by (auto simp: assms(3))
  from assms(8) x(1) obtain i e args where
    add: "(i, e, ECmd (XAdd (rc_replyStream c0) args)) \<in> set (ru_trace (sg_loops (serve_events ses (serving_of t core))))"
    and flds: "snd x = drop 4 args" unfolding replies_from_def by blast
  from reply_answers_call [OF assms(2,3,5) _ assms(7) add] assms(6) obtain q out r where q: "q \<in> set qs"
    and out: "call_outcome core q = Some out" "encode_outcome (JStr (q_id q)) out = Some r"
    and payload: "drop 4 args = [''type'', ''rpc'', ''envelope'', json_text r]" by blast
  have "outcome_ok out" using assms(5) q out(1) by (auto simp: good_call_def)
  note dec = decode_over_json [OF out(2) this]
  have v: "v = json_norm r"
    using x(2) flds payload json_parse_text [OF dec(1)] by (cases x) simp
  have "SERVICE_RE (q_service (qs ! h)) \<and> METHOD_RE (q_method (qs ! h))"
    using assms(5) nth_mem [OF h] by (auto simp: good_call_def)
  then have "env_key (call_env (qs ! h)) = JStr (q_id (qs ! h))" using call_env_key by blast
  then have "q_id q = q_id (qs ! h)" using key dec(2) by (simp add: v)
  then have "q = qs ! h" using q h assms(4) by (metis distinct_map inj_on_eq_iff nth_mem)
  then show ?thesis using h dec(4) out(1) v by simp
qed

section \<open>An interleaving in which a call is resolved\<close>

definition q_sample :: rpc_call where
  "q_sample = \<lparr>q_service = ''calc'', q_method = ''add'', q_params = JObj [(''a'', JNum 2), (''b'', JNum 3)], q_id = ''u1''\<rparr>"

definition c_sample :: redis_client where
  "c_sample = new_redis_client ''app'' ''i1'' GivenRedis"

definition t_sample :: "string redis_server" where
  "t_sample = snd (rs_start (\<lambda>stream grp. Inr ()) rs_sample)"

definition five :: jsval where
  "five = build_success_response (JStr ''u1'') (JNum 5)"

definition served_fields :: "string list" where
  "served_fields = [''type'', ''rpc'', ''envelope'', json_text (call_env q_sample), ''reply-to'', ''app:replies:i1'']"

definition ses_sample :: "serve_event list" where
  "ses_sample = [RedisAnswers 0 (Fetched (Inr [(''1-0'', served_fields)])), HandlerSettles 0, DispatcherReturns 0]"

definition ces_sample :: "rc_event list" where
  "ces_sample = [RcStart, RcSend (call_env q_sample),
     RcRead (ReadEntries [(''app:replies:i1'', [(''5-0'', [''type'', ''rpc'', ''envelope'', json_text five])])])]"

lemma q_sample_names: "SERVICE_RE (q_service q_sample)" "METHOD_RE (q_method q_sample)" "json_ok (q_params q_sample)"
  by (simp_all add: q_sample_def char_simps)

lemma q_sample_good: "good_call calc_server q_sample" "call_outcome calc_server q_sample = Some (Answer (JNum 5))"
proof -
  show out: "call_outcome calc_server q_sample = Some (Answer (JNum 5))"
    by (simp add: call_outcome_def calc_server_entry q_sample_def calc_add_spec)
  show "good_call calc_server q_sample"
    using q_sample_names calc_good
    by (auto simp: good_call_def out calc_server_entry) (simp_all add: q_sample_def calc_server_entry calc_methods)
qed

lemma five_text: "json_parse (json_text five) = Inr five" "js_get five ''id'' = JStr ''u1''" "five \<noteq> JNull"
proof -
  show "json_parse (json_text five) = Inr five"
    by (rule json_norm_id) (simp_all add: five_def build_success_response_def)
qed (simp_all add: five_def build_success_response_def)

lemma c_sample_stream: "rc_replyStream c_sample = ''app:replies:i1''"
  by (simp add: c_sample_def new_redis_client_def rc_replyStream_def replyStream_def)

lemma ces_sample_run:
  "accepted ces_sample c_sample = [call_env q_sample]"
  "XAdd ''app:cmds:calc'' (''*'' # served_fields) \<in> set (rc_cmds (rc_run ces_sample c_sample))"
  "settled (rc_calls (rc_run ces_sample c_sample)) 0 = Some (Inr five)"
proof -
  obtain r where r: "parse_envelope (call_env q_sample) = Inr (Request r)" "rq_service r = ''calc''"
    "pending_key r = JStr ''u1''"
    using call_env_key [OF q_sample_names(1,2)] by (auto simp: env_key_def q_sample_def)
  note run = ces_sample_def c_sample_def new_redis_client_def rc_run_def rc_start_def rc_send_def r
    open_call_def no_calls_def Let_def
  show "accepted ces_sample c_sample = [call_env q_sample]" by (simp add: run)
  show "XAdd ''app:cmds:calc'' (''*'' # served_fields) \<in> set (rc_cmds (rc_run ces_sample c_sample))"
    by (simp add: run rc_read_def rc_iterate_def five_text request_fields_def served_fields_def
        commandStream_def rc_replyStream_def replyStream_def)
  show "settled (rc_calls (rc_run ces_sample c_sample)) 0 = Some (Inr five)"
    by (simp add: run rc_read_def rc_iterate_def five_text take_call_def settle_def settled_def jm_get_def jm_delete_def)
qed

lemma ses_sample_run:
  "\<exists>n. (0, (''1-0'', served_fields), ECmd (XAdd ''app:replies:i1'' [''MAXLEN'', ''~'', n, ''*'', ''type'', ''rpc'', ''envelope'', json_text five]))
     \<in> set (ru_trace (sg_loops (serve_events ses_sample (serving_of t_sample calc_server))))"
proof -
  have t: "jm_get (rs_dispatchers t_sample) ''calc'' = Some ''calc''" "\<not> rs_abort t_sample"
    by (simp_all add: t_sample_def rs_start_def rs_sample_facts attach_loops_def Let_def)
  have to: "field_after ''reply-to'' served_fields = Some ''app:replies:i1''"
    unfolding served_fields_def call_env_def by (unfold build_request_def) (rule field_reply_to)
  obtain rr where rr: "entry_envelope served_fields = Some (Request rr)" "rq_method rr = ''add''" "rq_id rr = JStr ''u1''"
    "rq_params rr = JObj [(''a'', JNum 2), (''b'', JNum 3)]"
    using request_over_json [OF q_sample_names, of "''u1''" "''app:replies:i1''"]
    unfolding served_fields_def call_env_def by (auto simp: q_sample_def)
  have b: "begin_entry t_sample ''calc'' (eid, served_fields)
      = ([EDispatch (Request rr)], InDispatch (Request rr) (Some ''app:replies:i1''))" for eid
    using begin_entry_cases [of t_sample "''calc''" "(eid, served_fields)"] t(1) rr(1) to by auto
  have "\<exists>w core. dispatch_begin calc_server ''calc'' (Request rr) = (DAwait w (Settles (Resolved (JNum 5))), core)
    \<and> \<not> aw_notification w \<and> aw_def w = OwnDef calc_method \<and> aw_id w = JStr ''u1''"
    by (simp add: dispatch_begin_def dispatch_call_def calc_server_entry lookup_method_def calc_methods
      calc_method_def object_schema_def calc_handlers_def calc_add_def rr)
  then obtain w core where d: "dispatch_begin calc_server ''calc'' (Request rr) = (DAwait w (Settles (Resolved (JNum 5))), core)"
    "\<not> aw_notification w" "aw_def w = OwnDef calc_method" "aw_id w = JStr ''u1''" by blast
  obtain core2 where r: "dispatch_resume core w (Resolved (JNum 5)) = (Some five, core2)"
    using d(2-) by (auto simp: dispatch_resume_def resume_resolved_def calc_method_def number_schema_def
        is_notification_def_def five_def)
  show ?thesis
    by (simp add: serving_of_def run_of_sample [folded t_sample_def] Let_def ses_sample_def serve_events_def loop_goes_on_def
        b t d r end_dispatch_def reply_cmd_def)
qed

theorem interleaved_call_correct_witness:
  "settled (rc_calls (rc_run ces_sample c_sample)) 0 = Some (Inr five) \<and> call_decode five = Inr (JNum 5)"
proof -
  have fresh: "rc_calls c_sample = no_calls" "rc_cmds c_sample = []" by (simp_all add: c_sample_def new_redis_client_def)
  have sent: "accepted ces_sample c_sample = map call_env [q_sample]" "distinct (map q_id [q_sample])"
    "\<forall>q \<in> set [q_sample]. good_call calc_server q"
    using ces_sample_run(1) q_sample_good(1) by simp_all
  have t: "rs_loops t_sample = [ConsumerLoop ''calc'' (rs_nextConn rs_sample), ReclaimLoop ''calc'']"
    "rs_keyPrefix t_sample = ''app''" "rs_dispatchers t_sample = [(''calc'', ''calc'')]"
    by (simp_all add: t_sample_def rs_start_def rs_sample_def rs_register_def make_redis_server_def choose_redis_def
        opt_or_def attach_loops_def Let_def jm_keys_def)
  have disp: "\<forall>n d. jm_get (rs_dispatchers t_sample) n = Some d \<longrightarrow> d = n \<and> no_colon n"
    by (simp add: t jm_get_def no_colon_def)
  have req: "requests_from (rc_run ces_sample c_sample) t_sample ses_sample"
    using ces_sample_run(2)
    by (auto simp: requests_from_def ses_sample_def t commandStream_def nth_Cons split: nat.split)
  have rep: "replies_from (serve_events ses_sample (serving_of t_sample calc_server)) (rc_replyStream c_sample) ces_sample"
    using ses_sample_run by (auto simp: replies_from_def ces_sample_def c_sample_stream) fastforce
  show ?thesis
    using interleaved_call_correct [OF fresh sent disp req rep ces_sample_run(3)] ces_sample_run(3)
    by (simp add: q_sample_good(2))
qed

end
