(* ===== verification/PyProtocol.thy ===== *)
theory PyProtocol
  imports ClientCore Json
begin

text \<open>
  The Python implementation of the same protocol (\<open>src/py/packages/protocol/src/clamator_protocol\<close>):
  \<open>envelope.py\<close>, \<open>error.py\<close>, \<open>contract.py\<close>, the dispatcher of \<open>server_core.py\<close> and the decoding of
  replies in \<open>client_core.py\<close>. A Python value that JSON carries is written as the JavaScript value with the
  same JSON text: \<open>None\<close> is null, a dict is an object. \<open>undefined\<close> has no counterpart; it stands
  for an object that is no JSON value. The lemmas compare the two implementations.
\<close>

section \<open>Values\<close>

fun py_value :: "jsval \<Rightarrow> bool" where
  "py_value JUndef = False"
| "py_value (JArr vs) = list_all py_value vs"
| "py_value (JObj ps) = list_all (\<lambda>(k, v). py_value v) ps"
| "py_value _ = True"

text \<open>\<open>dict.get\<close> without and with a default.\<close>

definition py_get_or :: "js_object \<Rightarrow> string \<Rightarrow> jsval \<Rightarrow> jsval" where
  "py_get_or d k x = (case map_of d k of None \<Rightarrow> x | Some v \<Rightarrow> v)"

definition py_get :: "js_object \<Rightarrow> string \<Rightarrow> jsval" where
  "py_get d k = py_get_or d k JNull"

text \<open>
  \<open>re.match\<close> with a pattern that ends in \<open>$\<close>: the dollar also matches before a line feed that
  ends the text.
\<close>

definition py_match :: "(string \<Rightarrow> bool) \<Rightarrow> string \<Rightarrow> bool" where
  "py_match re s \<longleftrightarrow> re s \<or> (s \<noteq> [] \<and> last s = CHR 0x0A \<and> re (butlast s))"

definition py_SERVICE_RE :: "string \<Rightarrow> bool" where
  "py_SERVICE_RE = py_match SERVICE_RE"

definition py_METHOD_RE :: "string \<Rightarrow> bool" where
  "py_METHOD_RE = py_match METHOD_RE"

section \<open>Exceptions\<close>

text \<open>
  What the code asks of an exception: whether it is an \<open>RpcError\<close> (with its fields), a \<open>ValueError\<close>,
  another \<open>Exception\<close>, or outside that class, as a cancellation is; the name of its class, its
  text and its attributes.
\<close>

datatype py_kind = PyRpcError jsval string jsval | PyValueError | PyException | PyBaseException

record py_error =
  px_kind :: py_kind
  px_class :: string
  px_str :: string
  px_vars :: js_object

definition py_rpc_error :: "jsval \<Rightarrow> string \<Rightarrow> jsval \<Rightarrow> py_error" where
  "py_rpc_error c m d =
     \<lparr>px_kind = PyRpcError c m d, px_class = ''RpcError'', px_str = m,
      px_vars = [(''code'', c), (''message'', JStr m), (''data'', d)]\<rparr>"

definition py_protocol_error :: "string \<Rightarrow> py_error" where
  "py_protocol_error m =
     \<lparr>px_kind = PyException, px_class = ''ClamatorProtocolError'', px_str = m, px_vars = []\<rparr>"

definition py_invalid :: "string \<Rightarrow> py_error" where
  "py_invalid msg =
     \<lparr>px_kind = PyValueError, px_class = ''ValueError'',
      px_str = ''-32600 Invalid Request: '' @ msg, px_vars = []\<rparr>"

fun py_scalar :: "jsval \<Rightarrow> bool" where
  "py_scalar (JStr _) = True"
| "py_scalar (JNum _) = True"
| "py_scalar (JBool _) = True"
| "py_scalar JNull = True"
| "py_scalar _ = False"

definition py_kept_attr :: "jsval \<Rightarrow> bool" where
  "py_kept_attr v \<longleftrightarrow> py_scalar v \<or> (case v of JArr vs \<Rightarrow> list_all py_scalar vs | _ \<Rightarrow> False)"

fun py_copy_vars :: "js_object \<Rightarrow> js_object \<Rightarrow> js_object" where
  "py_copy_vars out [] = out"
| "py_copy_vars out ((k, v) # ps) =
     (if k \<in> {''args'', ''__cause__'', ''__context__'', ''__traceback__''} then py_copy_vars out ps
      else if py_kept_attr v then py_copy_vars (jm_set out k v) ps
      else py_copy_vars out ps)"

definition py_exception_to_error_data :: "py_error \<Rightarrow> jsval" where
  "py_exception_to_error_data e =
     JObj (py_copy_vars [(''name'', JStr (px_class e)), (''message'', JStr (px_str e))] (px_vars e))"

section \<open>Envelopes\<close>

text \<open>
  The data classes have the fields of the TypeScript interfaces, but the \<open>error\<close> of an error
  response is a dict.
\<close>

datatype py_envelope =
    PyRequest request_env
  | PyNotification notification_env
  | PySuccess success_env
  | PyErrorResponse jsval js_object

definition py_has_id :: "js_object \<Rightarrow> bool" where
  "py_has_id obj \<longleftrightarrow> obj_has obj ''id'' \<and> obj_get obj ''id'' \<noteq> JNull"

definition py_parse_call :: "js_object \<Rightarrow> string \<Rightarrow> py_error + py_envelope" where
  "py_parse_call obj fullMethod =
     (if CHR ''.'' \<notin> set fullMethod
      then Inl (py_invalid ''method must be \"<service>.<method>\"'')
      else
        let service = takeWhile (\<lambda>c. c \<noteq> CHR ''.'') fullMethod;
            method = tl (dropWhile (\<lambda>c. c \<noteq> CHR ''.'') fullMethod);
            params = py_get_or obj ''params'' (JObj []) in
        if service = [] \<or> method = []
        then Inl (py_invalid ''method must be \"<service>.<method>\"'')
        else if \<not> py_SERVICE_RE service then Inl (py_invalid ''invalid service segment'')
        else if \<not> py_METHOD_RE method then Inl (py_invalid ''invalid method segment'')
        else if py_has_id obj then
          (case obj_get obj ''id'' of
             JBool _ \<Rightarrow> Inl (py_invalid ''id must be string or number'')
           | JStr _ \<Rightarrow> Inr (PyRequest \<lparr>rq_service = service, rq_method = method,
               rq_fullMethod = fullMethod, rq_params = params, rq_id = obj_get obj ''id'', rq_raw = obj\<rparr>)
           | JNum _ \<Rightarrow> Inr (PyRequest \<lparr>rq_service = service, rq_method = method,
               rq_fullMethod = fullMethod, rq_params = params, rq_id = obj_get obj ''id'', rq_raw = obj\<rparr>)
           | _ \<Rightarrow> Inl (py_invalid ''id must be string or number''))
        else Inr (PyNotification \<lparr>nt_service = service, nt_method = method,
            nt_fullMethod = fullMethod, nt_params = params, nt_raw = obj\<rparr>))"

text \<open>\<open>isinstance(x, int)\<close> holds for a bool too.\<close>

fun py_is_int :: "jsval \<Rightarrow> bool" where
  "py_is_int (JNum _) = True"
| "py_is_int (JBool _) = True"
| "py_is_int _ = False"

fun py_is_str :: "jsval \<Rightarrow> bool" where
  "py_is_str (JStr _) = True"
| "py_is_str _ = False"

definition py_parse_response :: "js_object \<Rightarrow> py_error + py_envelope" where
  "py_parse_response value =
     (let has_result = obj_has value ''result''; has_error = obj_has value ''error'' in
      if has_result \<and> \<not> has_error then
        (if \<not> py_has_id value then Inl (py_invalid ''response must have id'')
         else Inr (PySuccess \<lparr>sr_id = obj_get value ''id'', sr_result = obj_get value ''result''\<rparr>))
      else if has_error \<and> \<not> has_result then
        (case py_get value ''error'' of
           JObj err \<Rightarrow>
             (if \<not> py_is_int (py_get err ''code'') \<or> \<not> py_is_str (py_get err ''message'')
              then Inl (py_invalid ''error must have numeric code + string message'')
              else Inr (PyErrorResponse (if py_has_id value then obj_get value ''id'' else JNull)
                [(''code'', py_get err ''code''), (''message'', py_get err ''message''),
                 (''data'', py_get err ''data'')]))
         | _ \<Rightarrow> Inl (py_invalid ''error must have numeric code + string message''))
      else Inl (py_invalid ''envelope must be request, notification, or response''))"

definition py_parse_object :: "js_object \<Rightarrow> py_error + py_envelope" where
  "py_parse_object value =
     (if py_get value ''jsonrpc'' \<noteq> JStr ''2.0''
      then Inl (py_invalid ''jsonrpc must equal \"2.0\"'')
      else case py_get value ''method'' of
        JStr fullMethod \<Rightarrow> py_parse_call value fullMethod
      | _ \<Rightarrow> py_parse_response value)"

fun py_parse_envelope :: "jsval \<Rightarrow> py_error + py_envelope" where
  "py_parse_envelope (JArr _) = Inl (py_invalid ''batch requests not supported'')"
| "py_parse_envelope (JObj value) = py_parse_object value"
| "py_parse_envelope _ = Inl (py_invalid ''not an object'')"

definition py_build_success_response :: "jsval \<Rightarrow> jsval \<Rightarrow> jsval" where
  "py_build_success_response rpc_id result =
     JObj [(''jsonrpc'', JStr ''2.0''), (''id'', rpc_id), (''result'', result)]"

definition py_build_error_response :: "jsval \<Rightarrow> jsval \<Rightarrow> string \<Rightarrow> jsval \<Rightarrow> jsval" where
  "py_build_error_response rpc_id c message data =
     JObj [(''jsonrpc'', JStr ''2.0''), (''id'', rpc_id),
           (''error'', JObj [(''code'', c), (''message'', JStr message), (''data'', data)])]"

definition py_build_request :: "string \<Rightarrow> jsval \<Rightarrow> jsval \<Rightarrow> jsval" where
  "py_build_request fullMethod params rpc_id =
     JObj [(''jsonrpc'', JStr ''2.0''), (''method'', JStr fullMethod),
           (''params'', params), (''id'', rpc_id)]"

definition py_build_notification :: "string \<Rightarrow> jsval \<Rightarrow> jsval" where
  "py_build_notification fullMethod params =
     JObj [(''jsonrpc'', JStr ''2.0''), (''method'', JStr fullMethod), (''params'', params)]"

section \<open>The two parsers\<close>

text \<open>When two envelopes say the same.\<close>

fun same_envelope :: "envelope \<Rightarrow> py_envelope \<Rightarrow> bool" where
  "same_envelope (Request r) (PyRequest r') = (r = r')"
| "same_envelope (Notification n) (PyNotification n') = (n = n')"
| "same_envelope (SuccessResponse s) (PySuccess s') = (s = s')"
| "same_envelope (ErrorResponse e) (PyErrorResponse i err) =
     (er_id e = i \<and> err = [(''code'', JNum (er_code e)), (''message'', JStr (er_message e)),
                           (''data'', er_data e)])"
| "same_envelope _ _ = False"

text \<open>The same envelope, or an error with the same text.\<close>

fun same_parse :: "thrown + envelope \<Rightarrow> py_error + py_envelope \<Rightarrow> bool" where
  "same_parse (Inl e) (Inl e') = (thrown_message e = px_str e')"
| "same_parse (Inr env) (Inr env') = same_envelope env env'"
| "same_parse _ _ = False"

text \<open>
  Where the two differ: a service or method name with a line feed behind it, which only Python
  takes; parameters that are null, which TypeScript replaces by an empty object; an error code
  that is a Boolean, which Python takes for a number.
\<close>

definition newline_name :: "(string \<Rightarrow> bool) \<Rightarrow> string \<Rightarrow> bool" where
  "newline_name re s \<longleftrightarrow> py_match re s \<and> \<not> re s"

definition call_gap :: "js_object \<Rightarrow> string \<Rightarrow> bool" where
  "call_gap obj fm =
     (let service = takeWhile (\<lambda>c. c \<noteq> CHR ''.'') fm;
          method = tl (dropWhile (\<lambda>c. c \<noteq> CHR ''.'') fm) in
      CHR ''.'' \<in> set fm \<and> method \<noteq> []
      \<and> (newline_name SERVICE_RE service
         \<or> SERVICE_RE service
           \<and> (newline_name METHOD_RE method
              \<or> METHOD_RE method \<and> (py_has_id obj \<longrightarrow> is_rpc_id (obj_get obj ''id''))
                \<and> obj_get obj ''params'' = JNull)))"

definition error_gap :: "js_object \<Rightarrow> bool" where
  "error_gap obj =
     (obj_has obj ''error'' \<and> \<not> obj_has obj ''result''
      \<and> (case obj_get obj ''error'' of
           JObj err \<Rightarrow> py_is_str (obj_get err ''message'')
             \<and> (case obj_get err ''code'' of JBool _ \<Rightarrow> True | _ \<Rightarrow> False)
         | _ \<Rightarrow> False))"

fun parse_gap :: "jsval \<Rightarrow> bool" where
  "parse_gap (JObj obj) =
     (obj_get obj ''jsonrpc'' = JStr ''2.0''
      \<and> (case obj_get obj ''method'' of JStr fm \<Rightarrow> call_gap obj fm | _ \<Rightarrow> error_gap obj))"
| "parse_gap _ = False"


text \<open>Splitting the method name at its first dot, in both ways.\<close>

lemma js_index_of_takeWhile:
  assumes "x \<in> set ys"
  shows "js_index_of x ys = int (length (takeWhile (\<lambda>y. y \<noteq> x) ys))"
  using assms by (induction ys) (auto simp: Let_def)

lemma split_at_dot:
  assumes "x \<in> set ys"
  shows "take (nat (js_index_of x ys)) ys = takeWhile (\<lambda>y. y \<noteq> x) ys"
    and "drop (nat (js_index_of x ys + 1)) ys = tl (dropWhile (\<lambda>y. y \<noteq> x) ys)"
proof -
  let ?n = "length (takeWhile (\<lambda>y. y \<noteq> x) ys)"
  have n: "nat (js_index_of x ys) = ?n" "nat (js_index_of x ys + 1) = Suc ?n"
    by (simp_all add: js_index_of_takeWhile [OF assms] nat_add_distrib)
  show "take (nat (js_index_of x ys)) ys = takeWhile (\<lambda>y. y \<noteq> x) ys"
    by (simp add: n(1) takeWhile_eq_take [symmetric])
  have "drop (Suc ?n) ys = tl (drop ?n ys)" by (simp add: drop_Suc tl_drop)
  then show "drop (nat (js_index_of x ys + 1)) ys = tl (dropWhile (\<lambda>y. y \<noteq> x) ys)"
    by (simp add: n(2) dropWhile_eq_drop)
qed

lemma parts_nonempty:
  assumes "x \<in> set ys"
  shows "js_index_of x ys \<le> 0 \<longleftrightarrow> takeWhile (\<lambda>y. y \<noteq> x) ys = []"
    and "js_index_of x ys = int (length ys) - 1 \<longleftrightarrow> tl (dropWhile (\<lambda>y. y \<noteq> x) ys) = []"
proof -
  obtain rest where "dropWhile (\<lambda>y. y \<noteq> x) ys = x # rest"
    using assms by (metis (mono_tags, lifting) dropWhile_eq_Nil_conv hd_dropWhile list.exhaust_sel)
  moreover from this have "length ys = length (takeWhile (\<lambda>y. y \<noteq> x) ys) + Suc (length rest)"
    by (metis length_Cons length_append takeWhile_dropWhile_id)
  ultimately show "js_index_of x ys \<le> 0 \<longleftrightarrow> takeWhile (\<lambda>y. y \<noteq> x) ys = []"
    "js_index_of x ys = int (length ys) - 1 \<longleftrightarrow> tl (dropWhile (\<lambda>y. y \<noteq> x) ys) = []"
    by (auto simp: js_index_of_takeWhile [OF assms])
qed

lemma parse_call_parts:
  "parse_call obj fm hasId =
     (let service = takeWhile (\<lambda>c. c \<noteq> CHR ''.'') fm; method = tl (dropWhile (\<lambda>c. c \<noteq> CHR ''.'') fm);
          params = js_nullish (obj_get obj ''params'') (JObj []); i = obj_get obj ''id'' in
      if CHR ''.'' \<notin> set fm \<or> service = [] \<or> method = []
      then Inl (invalid_request ''method must be \"<service>.<method>\"'')
      else if \<not> SERVICE_RE service then Inl (invalid_request ''invalid service segment'')
      else if \<not> METHOD_RE method then Inl (invalid_request ''invalid method segment'')
      else if hasId then
        (if is_rpc_id i then Inr (Request \<lparr>rq_service = service, rq_method = method,
            rq_fullMethod = fm, rq_params = params, rq_id = i, rq_raw = obj\<rparr>)
         else Inl (invalid_request ''id must be string or number''))
      else Inr (Notification \<lparr>nt_service = service, nt_method = method,
            nt_fullMethod = fm, nt_params = params, nt_raw = obj\<rparr>))"
proof (cases "CHR ''.'' \<in> set fm")
  case True
  show ?thesis
    unfolding parse_call_def Let_def split_at_dot [OF True] parts_nonempty [OF True] is_rpc_id_typeof
    using True by simp
next
  case False
  then have "js_index_of (CHR ''.'') fm < 0" by (simp add: js_index_of_neg)
  with False show ?thesis by (simp add: parse_call_def)
qed

text \<open>On a value that JSON carries, \<open>get\<close> and the property read agree.\<close>

lemma py_value_get: "py_value (JObj obj) \<Longrightarrow> obj_has obj k \<Longrightarrow> obj_get obj k \<noteq> JUndef \<and> py_value (obj_get obj k)"
proof (induction obj)
  case (Cons p obj)
  then show ?case by (cases p) (auto split: if_splits)
qed simp

lemma py_get_obj:
  "py_get obj k = (if obj_has obj k then obj_get obj k else JNull)"
  by (auto simp: py_get_def py_get_or_def obj_get_def obj_has_def)

lemma py_get_or_obj:
  "py_get_or obj k x = (if obj_has obj k then obj_get obj k else x)"
  by (auto simp: py_get_or_def obj_get_def obj_has_def)

lemma py_has_id_iff: "py_value (JObj obj) \<Longrightarrow> has_id obj \<longleftrightarrow> py_has_id obj"
  using py_value_get [of obj "''id''"] by (auto simp: has_id_def py_has_id_def)

lemma thrown_message_invalid [simp]: "thrown_message (invalid_request m) = px_str (py_invalid m)"
  by (simp add: invalid_request_def py_invalid_def)

lemma px_str_inject [simp]: "px_str (py_invalid m) = px_str (py_invalid m') \<longleftrightarrow> m = m'"
  by (simp add: py_invalid_def)

lemma py_match_keeps: "re s \<Longrightarrow> py_match re s"
  by (simp add: py_match_def)

lemma same_call:
  assumes v: "py_value (JObj obj)"
  shows "same_parse (parse_call obj fm (has_id obj)) (py_parse_call obj fm) \<longleftrightarrow> \<not> call_gap obj fm"
proof -
  let ?s = "takeWhile (\<lambda>c. c \<noteq> CHR ''.'') fm" and ?m = "tl (dropWhile (\<lambda>c. c \<noteq> CHR ''.'') fm)"
  let ?i = "obj_get obj ''id''"
  have s: "py_SERVICE_RE ?s \<longleftrightarrow> SERVICE_RE ?s \<or> newline_name SERVICE_RE ?s"
    and m: "py_METHOD_RE ?m \<longleftrightarrow> METHOD_RE ?m \<or> newline_name METHOD_RE ?m"
    by (auto simp: py_SERVICE_RE_def py_METHOD_RE_def newline_name_def py_match_def)
  have no: "newline_name re x \<Longrightarrow> \<not> re x" for re x by (simp add: newline_name_def)
  have ne: "newline_name SERVICE_RE ?s \<Longrightarrow> ?s \<noteq> []" "newline_name METHOD_RE ?m \<Longrightarrow> ?m \<noteq> []"
    by (auto simp: newline_name_def py_match_def)
  have par: "js_nullish (obj_get obj ''params'') (JObj []) = py_get_or obj ''params'' (JObj [])
      \<longleftrightarrow> obj_get obj ''params'' \<noteq> JNull"
    using py_value_get [OF v, of "''params''"] obj_get_absent [of obj "''params''"]
    by (cases "obj_get obj ''params''") (auto simp: py_get_or_obj)
  have id: "py_has_id obj \<Longrightarrow> ?i \<noteq> JNull \<and> ?i \<noteq> JUndef"
    using py_value_get [OF v, of "''id''"] by (auto simp: py_has_id_def)
  note facts = no [of SERVICE_RE ?s] no [of METHOD_RE ?m] ne id par
  note defs = parse_call_parts py_parse_call_def call_gap_def Let_def s m py_has_id_iff [OF v]
  show ?thesis
  proof (cases "CHR ''.'' \<in> set fm \<and> ?s \<noteq> [] \<and> ?m \<noteq> []")
    case True
    with facts show ?thesis
      unfolding defs
      by (cases "SERVICE_RE ?s"; cases "METHOD_RE ?m"; cases "py_has_id obj"; cases ?i) auto
  next
    case False
    with facts show ?thesis unfolding defs by auto
  qed
qed

lemma same_error_member:
  assumes v: "py_value (JObj obj)" and err: "obj_has obj ''error''" "\<not> obj_has obj ''result''"
  shows "same_parse (parse_error_member obj (has_id obj)) (py_parse_response obj) \<longleftrightarrow> \<not> error_gap obj"
proof (cases "obj_get obj ''error''")
  case (JObj e)
  have e: "py_value (JObj e)" using py_value_get [OF v err(1)] JObj by simp
  have c: "obj_get e ''code'' = JUndef \<longleftrightarrow> \<not> obj_has e ''code''"
    and m: "obj_get e ''message'' = JUndef \<longleftrightarrow> \<not> obj_has e ''message''"
    using py_value_get [OF e] obj_get_absent by blast+
  have d: "js_nullish (obj_get e ''data'') JNull = py_get e ''data''"
    using py_value_get [OF e, of "''data''"] obj_get_absent [of e "''data''"]
    by (cases "obj_get e ''data''") (auto simp: py_get_obj)
  show ?thesis
    using c m
    by (cases "obj_get e ''code''"; cases "obj_get e ''message''")
      (auto simp: parse_error_member_def py_parse_response_def error_gap_def err py_get_obj [of obj]
        JObj d py_get_obj [of e "''code''"] py_get_obj [of e "''message''"] py_has_id_iff [OF v])
qed (auto simp: parse_error_member_def py_parse_response_def error_gap_def err py_get_obj Let_def
    split: bool.split)

lemma same_response:
  assumes v: "py_value (JObj obj)"
  shows "same_parse (parse_response obj) (py_parse_response obj) \<longleftrightarrow> \<not> error_gap obj"
proof (cases "obj_has obj ''error'' \<and> \<not> obj_has obj ''result''")
  case True
  then show ?thesis using same_error_member [OF v] by (simp add: parse_response_def)
next
  case False
  then show ?thesis
    by (auto simp: parse_response_def py_parse_response_def error_gap_def py_has_id_iff [OF v])
qed

lemma same_object:
  assumes v: "py_value (JObj obj)"
  shows "same_parse (parse_object obj) (py_parse_object obj) \<longleftrightarrow> \<not> parse_gap (JObj obj)"
proof (cases "obj_get obj ''jsonrpc'' = JStr ''2.0''")
  case True
  then have j: "py_get obj ''jsonrpc'' = JStr ''2.0''"
    using obj_get_absent [of obj "''jsonrpc''"] by (auto simp: py_get_obj)
  show ?thesis
  proof (cases "obj_has obj ''method''")
    case has: True
    show ?thesis
      using True j same_call [OF v] same_response [OF v] has
      by (cases "obj_get obj ''method''") (simp_all add: parse_object_eq py_parse_object_def py_get_obj)
  next
    case False
    then have "obj_get obj ''method'' = JUndef" "py_get obj ''method'' = JNull"
      by (simp_all add: obj_get_absent py_get_obj)
    then show ?thesis
      using True j same_response [OF v] by (simp add: parse_object_eq py_parse_object_def)
  qed
next
  case False
  then have "py_get obj ''jsonrpc'' \<noteq> JStr ''2.0''" by (auto simp: py_get_obj)
  with False show ?thesis by (simp add: parse_object_eq py_parse_object_def)
qed

lemma same_parse_iff:
  assumes "py_value v"
  shows "same_parse (parse_envelope v) (py_parse_envelope v) \<longleftrightarrow> \<not> parse_gap v"
  using assms same_object by (cases v) auto


section \<open>Decoding a reply\<close>

text \<open>What \<open>call\<close> makes of the reply, in \<open>client_core.py\<close>; \<open>parsed.kind\<close> prints as a member of its enumeration.\<close>

fun py_kind_text :: "py_envelope \<Rightarrow> string" where
  "py_kind_text (PyRequest _) = ''EnvelopeKind.REQUEST''"
| "py_kind_text (PyNotification _) = ''EnvelopeKind.NOTIFICATION''"
| "py_kind_text (PySuccess _) = ''EnvelopeKind.SUCCESS_RESPONSE''"
| "py_kind_text (PyErrorResponse _ _) = ''EnvelopeKind.ERROR_RESPONSE''"

definition py_call_decode :: "jsval \<Rightarrow> py_error + jsval" where
  "py_call_decode reply =
     (case py_parse_envelope reply of
        Inl e \<Rightarrow> Inl (py_protocol_error (''invalid response envelope: '' @ px_str e))
      | Inr (PySuccess r) \<Rightarrow> Inr (sr_result r)
      | Inr (PyErrorResponse i err) \<Rightarrow>
          Inl (py_rpc_error (py_get err ''code'')
                 (case py_get err ''message'' of JStr m \<Rightarrow> m | _ \<Rightarrow> []) (py_get err ''data''))
      | Inr env \<Rightarrow> Inl (py_protocol_error (''unexpected response kind: '' @ py_kind_text env)))"

text \<open>
  The same value, the same \<open>RpcError\<close>, or a protocol error on both sides.
\<close>

fun is_protocol_error :: "thrown \<Rightarrow> bool" where
  "is_protocol_error (Err e) = (err_kind e = KProtocolError)"
| "is_protocol_error (Val v) = False"

fun same_outcome :: "thrown + jsval \<Rightarrow> py_error + jsval \<Rightarrow> bool" where
  "same_outcome (Inr x) (Inr y) = (x = y)"
| "same_outcome (Inl e) (Inl e') =
     (case as_rpc_error e of
        Some (c, m, d) \<Rightarrow> e' = py_rpc_error (JNum c) m d
      | None \<Rightarrow> is_protocol_error e \<and> px_class e' = ''ClamatorProtocolError'')"
| "same_outcome _ _ = False"

lemma as_rpc_protocol [simp]: "as_rpc_error (new_protocol_error m) = None"
  by (simp add: new_protocol_error_def)

lemma is_protocol_new [simp]: "is_protocol_error (new_protocol_error m)"
  by (simp add: new_protocol_error_def)

lemma px_class_protocol [simp]: "px_class (py_protocol_error m) = ''ClamatorProtocolError''"
  by (simp add: py_protocol_error_def)

lemma error_data_defined: "parse_envelope v = Inr (ErrorResponse e) \<Longrightarrow> js_default JNull (er_data e) = er_data e"
  using parse_envelope_wf [of v] by simp

lemma clients_decode_alike:
  assumes "py_value v" "\<not> parse_gap v"
  shows "same_outcome (call_decode v) (py_call_decode v)"
proof -
  have same: "same_parse (parse_envelope v) (py_parse_envelope v)" using assms same_parse_iff by simp
  show ?thesis
  proof (cases "parse_envelope v")
    case (Inl e)
    with same obtain e' where "py_parse_envelope v = Inl e'" by (cases "py_parse_envelope v") auto
    with Inl show ?thesis by (simp add: call_decode_def py_call_decode_def)
  next
    case (Inr env)
    with same obtain env' where e: "py_parse_envelope v = Inr env'" "same_envelope env env'"
      by (cases "py_parse_envelope v") auto
    with Inr show ?thesis
      by (cases "(env, env')" rule: same_envelope.cases)
        (auto simp: call_decode_def py_call_decode_def py_get_obj error_data_defined)
  qed
qed

section \<open>Properties\<close>


definition sample_call :: "jsval \<Rightarrow> jsval" where
  "sample_call params = build_request ''calc.add'' params (JStr ''1'')"


end
