(* ===== verification/PyServer.thy ===== *)
theory PyServer
  imports PyProtocol
begin

text \<open>
  The server of the Python implementation: \<open>contract.py\<close> and \<open>server_core.py\<close> of
  \<open>src/py/packages/protocol/src/clamator_protocol\<close>. The dispatcher is split at its \<open>await\<close> like the
  TypeScript one, and the lemmas compare the two: for contracts and handlers that agree, they give
  the same reply to the same message, up to the data of validation and internal errors.
\<close>

section \<open>Contracts\<close>

text \<open>
  A model belongs to a validation library: what \<open>model_validate\<close> makes of a value (the errors of a
  \<open>ValidationError\<close> are a value), and what \<open>model_dump\<close> makes of the instance.
\<close>

datatype py_check = Valid jsval | Invalid jsval | Raises py_error

record py_model =
  pm_validate :: "jsval \<Rightarrow> py_check"
  pm_dump :: "jsval \<Rightarrow> jsval"

record py_method =
  me_params :: py_model
  me_result :: "py_model option"
  me_handler_attr :: string

record py_contract =
  pc_service :: string
  pc_methods :: "(string, py_method) jsmap"

section \<open>The server\<close>

datatype py_settled = Returned jsval | Raised py_error

datatype py_task = Finishes py_settled | NeverFinishes

type_synonym py_handler = "jsval \<Rightarrow> py_error + py_task"

text \<open>\<open>ps_instance\<close> is \<open>getattr(instance, attr, None)\<close>.\<close>

record py_service =
  ps_contract :: py_contract
  ps_instance :: "string \<Rightarrow> py_handler option"

record py_log =
  pl_level :: string
  pl_format :: string
  pl_args :: "jsval list"

record py_server =
  pv_services :: "(string, py_service) jsmap"
  pv_state :: run_state
  pv_inflight :: "nat list"
  pv_next :: nat
  pv_log :: "py_log list"

definition py_new_server :: py_server where
  "py_new_server = \<lparr>pv_services = [], pv_state = Idle, pv_inflight = [], pv_next = 0, pv_log = []\<rparr>"

definition py_value_error :: "string \<Rightarrow> py_error" where
  "py_value_error m = \<lparr>px_kind = PyValueError, px_class = ''ValueError'', px_str = m, px_vars = []\<rparr>"

definition py_register_service ::
    "py_contract \<Rightarrow> (string \<Rightarrow> py_handler option) \<Rightarrow> py_server \<Rightarrow> (py_error + unit) \<times> py_server" where
  "py_register_service contract instance_attr sv =
     (if jm_has (pv_services sv) (pc_service contract)
      then (Inl (py_value_error (''service \"'' @ pc_service contract @ ''\" already registered on this server'')), sv)
      else (Inr (), sv\<lparr>pv_services := jm_set (pv_services sv) (pc_service contract)
             \<lparr>ps_contract = contract, ps_instance = instance_attr\<rparr>\<rparr>))"

record py_ctx =
  px_task :: nat
  px_service :: string
  px_method :: string
  px_notification :: bool
  px_id :: jsval
  px_entry :: py_method

datatype py_step = PReply "jsval option" | PRaise py_error | PAwait py_ctx py_task

definition py_not_found :: "bool \<Rightarrow> jsval \<Rightarrow> jsval option" where
  "py_not_found is_notification rpc_id =
     (if is_notification then None
      else Some (py_build_error_response rpc_id (JNum (-32601)) ''Method not found'' JNull))"

definition py_errors :: "jsval \<Rightarrow> jsval" where
  "py_errors errs = JObj [(''errors'', errs)]"

definition py_log_record :: "string \<Rightarrow> string \<Rightarrow> string \<Rightarrow> string \<Rightarrow> jsval \<Rightarrow> jsval list \<Rightarrow> py_log" where
  "py_log_record level fmt service method rpc_id rest =
     \<lparr>pl_level = level, pl_format = fmt, pl_args = [JStr service, JStr method, rpc_id] @ rest\<rparr>"

definition py_dispatch_call ::
    "py_server \<Rightarrow> string \<Rightarrow> py_service option \<Rightarrow> bool \<Rightarrow> jsval \<Rightarrow> string \<Rightarrow> jsval \<Rightarrow> py_step \<times> py_server" where
  "py_dispatch_call sv name entry is_notification rpc_id method params =
     (case entry of
        None \<Rightarrow> (PReply (py_not_found is_notification rpc_id), sv)
      | Some e \<Rightarrow>
        (case jm_get (pc_methods (ps_contract e)) method of
           None \<Rightarrow> (PReply (py_not_found is_notification rpc_id), sv)
         | Some method_entry \<Rightarrow>
           (case pm_validate (me_params method_entry) params of
              Raises x \<Rightarrow> (PRaise x, sv)
            | Invalid errs \<Rightarrow>
              (PReply (if is_notification then None
                 else Some (py_build_error_response rpc_id (JNum (-32602)) ''Invalid params'' (py_errors errs))),
               sv\<lparr>pv_log := pv_log sv @
                 [py_log_record ''warning'' ''RPC params validation failed: %s.%s id=%s'' name method rpc_id []]\<rparr>)
            | Valid p \<Rightarrow>
              (case ps_instance e (me_handler_attr method_entry) of
                 None \<Rightarrow> (PReply (py_not_found is_notification rpc_id), sv)
               | Some handler \<Rightarrow>
                 (case handler p of
                    Inl x \<Rightarrow> (PRaise x, sv)
                  | Inr task \<Rightarrow>
                    (PAwait \<lparr>px_task = pv_next sv, px_service = name, px_method = method,
                       px_notification = is_notification, px_id = rpc_id, px_entry = method_entry\<rparr> task,
                     sv\<lparr>pv_inflight := pv_inflight sv @ [pv_next sv], pv_next := Suc (pv_next sv)\<rparr>))))))"

definition py_dispatch_begin :: "py_server \<Rightarrow> string \<Rightarrow> py_envelope \<Rightarrow> py_step \<times> py_server" where
  "py_dispatch_begin sv name env =
     (let entry = jm_get (pv_services sv) name in
      case env of
        PyRequest r \<Rightarrow> py_dispatch_call sv name entry False (rq_id r) (rq_method r) (rq_params r)
      | PyNotification n \<Rightarrow> py_dispatch_call sv name entry True JNull (nt_method n) (nt_params n)
      | _ \<Rightarrow> (PReply None, sv))"

text \<open>The task has raised.\<close>

definition py_resume_raised :: "py_server \<Rightarrow> py_ctx \<Rightarrow> py_error \<Rightarrow> (py_error + jsval option) \<times> py_server" where
  "py_resume_raised sv w e =
     (case px_kind e of
        PyRpcError c m d \<Rightarrow>
          (Inr (if px_notification w then None else Some (py_build_error_response (px_id w) c m d)), sv)
      | PyBaseException \<Rightarrow> (Inl e, sv)
      | _ \<Rightarrow>
        (Inr (if px_notification w then None
           else Some (py_build_error_response (px_id w) (JNum (-32603)) ''Internal error''
                  (py_exception_to_error_data e))),
         sv\<lparr>pv_log := pv_log sv @
           [py_log_record ''exception'' ''RPC handler raised: %s.%s id=%s'' (px_service w) (px_method w) (px_id w) []]\<rparr>))"

text \<open>It has returned.\<close>

definition py_resume_returned :: "py_server \<Rightarrow> py_ctx \<Rightarrow> jsval \<Rightarrow> (py_error + jsval option) \<times> py_server" where
  "py_resume_returned sv w result =
     (if px_notification w then (Inr None, sv)
      else case me_result (px_entry w) of
        None \<Rightarrow> (Inr None, sv)
      | Some model \<Rightarrow>
        (case pm_validate model result of
           Raises x \<Rightarrow> (Inl x, sv)
         | Invalid errs \<Rightarrow>
           (Inr (Some (py_build_error_response (px_id w) (JNum (-32603)) ''Result validation failed'' (py_errors errs))),
            sv\<lparr>pv_log := pv_log sv @
              [py_log_record ''error'' ''RPC result validation failed: %s.%s id=%s errors=%s''
                 (px_service w) (px_method w) (px_id w) [errs]]\<rparr>)
         | Valid validated \<Rightarrow>
           (Inr (Some (py_build_success_response (px_id w) (pm_dump model validated))), sv)))"

definition py_discard :: "nat \<Rightarrow> py_server \<Rightarrow> py_server" where
  "py_discard t sv = sv\<lparr>pv_inflight := filter (\<lambda>x. x \<noteq> t) (pv_inflight sv)\<rparr>"

definition py_dispatch_resume ::
    "py_server \<Rightarrow> py_ctx \<Rightarrow> py_settled \<Rightarrow> (py_error + jsval option) \<times> py_server" where
  "py_dispatch_resume sv w s =
     (let (r, sv') = (case s of Raised e \<Rightarrow> py_resume_raised sv w e | Returned v \<Rightarrow> py_resume_returned sv w v) in
      (r, py_discard (px_task w) sv'))"

text \<open>The whole dispatcher on one message; \<open>None\<close>: the task of the handler never ends.\<close>

definition py_dispatch ::
    "py_server \<Rightarrow> string \<Rightarrow> py_envelope \<Rightarrow> (py_error + jsval option) option \<times> py_server" where
  "py_dispatch sv name env =
     (case py_dispatch_begin sv name env of
        (PReply r, sv') \<Rightarrow> (Some (Inr r), sv')
      | (PRaise e, sv') \<Rightarrow> (Some (Inl e), sv')
      | (PAwait w NeverFinishes, sv') \<Rightarrow> (None, sv')
      | (PAwait w (Finishes s), sv') \<Rightarrow>
        (let (r, sv'') = py_dispatch_resume sv' w s in (Some r, sv'')))"

section \<open>Agreement of the two servers\<close>

text \<open>
  A schema and a model agree when they take the same values and give the same result; a handler and
  a coroutine agree when they end in the same way.
\<close>

fun checks_agree :: "thrown + jsval \<Rightarrow> py_check \<Rightarrow> bool" where
  "checks_agree (Inr x) (Valid y) = (x = y)"
| "checks_agree (Inl e) (Invalid errs) = True"
| "checks_agree _ _ = False"

fun errors_agree :: "thrown \<Rightarrow> py_error \<Rightarrow> bool" where
  "errors_agree e e' =
     (case as_rpc_error e of
        Some (c, m, d) \<Rightarrow> px_kind e' = PyRpcError (JNum c) m (js_default JNull d)
      | None \<Rightarrow> px_kind e' = PyValueError \<or> px_kind e' = PyException)"

text \<open>What the handler of a notification returns does not matter.\<close>

fun handlers_agree :: "bool \<Rightarrow> thrown + promise \<Rightarrow> py_error + py_task \<Rightarrow> bool" where
  "handlers_agree note (Inl e) (Inl e') = True"
| "handlers_agree note (Inr NeverSettles) (Inr NeverFinishes) = True"
| "handlers_agree note (Inr (Settles (Resolved v))) (Inr (Finishes (Returned w))) = (note \<or> v = w)"
| "handlers_agree note (Inr (Settles (Rejected e))) (Inr (Finishes (Raised e'))) = errors_agree e e'"
| "handlers_agree note _ _ = False"

definition results_agree :: "schema option option \<Rightarrow> py_model option \<Rightarrow> bool" where
  "results_agree r model =
     (case (r, model) of
        (Some (Some p), Some pm) \<Rightarrow>
          (\<forall>v. (case pm_validate pm v of
             Valid y \<Rightarrow> p v = Inr (pm_dump pm y) | Invalid errs \<Rightarrow> is_Inl (p v) | Raises e \<Rightarrow> False))
      | (None, None) \<Rightarrow> True
      | _ \<Rightarrow> False)"

definition methods_agree ::
    "method_def \<Rightarrow> handler option \<Rightarrow> py_method \<Rightarrow> py_handler option \<Rightarrow> bool" where
  "methods_agree d h me ph \<longleftrightarrow>
     (\<forall>v. checks_agree (md_params d v) (pm_validate (me_params me) v))
     \<and> (is_notification_def d \<longleftrightarrow> md_result d = None) \<and> results_agree (md_result d) (me_result me)
     \<and> (case (h, ph) of
          (Some f, Some g) \<Rightarrow> (\<forall>p. handlers_agree (is_notification_def d) (f p) (g p)) | (None, None) \<Rightarrow> True | _ \<Rightarrow> False)"

definition services_agree :: "service_entry \<Rightarrow> py_service \<Rightarrow> bool" where
  "services_agree e pe \<longleftrightarrow>
     (\<forall>m. case (lookup_method (se_contract e) m, jm_get (pc_methods (ps_contract pe)) m) of
        (Some (OwnDef d), Some me) \<Rightarrow>
          methods_agree d (se_handlers e m) me (ps_instance pe (me_handler_attr me))
      | (Some Inherited, me) \<Rightarrow> me = None
      | (None, None) \<Rightarrow> True
      | _ \<Rightarrow> False)"

text \<open>
  Replies agree when they are equal, or are the same error but for the data of a validation or an
  internal error.
\<close>

definition replies_agree :: "jsval option \<Rightarrow> jsval option \<Rightarrow> bool" where
  "replies_agree r r' \<longleftrightarrow> r = r'
     \<or> (\<exists>i c m d d'. c \<in> {-32602, -32603} \<and> r = Some (build_error_response i c m d)
          \<and> r' = Some (py_build_error_response i (JNum c) m d'))"

fun dispatches_agree :: "(thrown + jsval option) option \<Rightarrow> (py_error + jsval option) option \<Rightarrow> bool" where
  "dispatches_agree None None = True"
| "dispatches_agree (Some (Inl e)) (Some (Inl e')) = True"
| "dispatches_agree (Some (Inr r)) (Some (Inr r')) = replies_agree r r'"
| "dispatches_agree _ _ = False"

text \<open>A message the two parsers do not read alike is none; nor is a method that only \<open>Object.prototype\<close> has.\<close>

fun env_method :: "envelope \<Rightarrow> string" where
  "env_method (Request r) = rq_method r"
| "env_method (Notification n) = nt_method n"
| "env_method _ = []"

lemma py_builders:
  "py_build_success_response i x = build_success_response i x"
  "py_build_error_response i (JNum c) m (js_default JNull d) = build_error_response i c m d"
  "py_build_request fm p i = build_request fm p i"
  "py_build_notification fm p = build_notification fm p"
  by (simp_all add: py_build_success_response_def build_success_response_def
      py_build_error_response_def build_error_response_def py_build_request_def build_request_def
      py_build_notification_def build_notification_def)

lemma replies_agree_error [intro, simp]:
  "replies_agree (Some (build_error_response i (-32602) m d)) (Some (py_build_error_response i (JNum (-32602)) m d'))"
  "replies_agree (Some (build_error_response i (-32603) m d)) (Some (py_build_error_response i (JNum (-32603)) m d'))"
  by (auto simp: replies_agree_def)

lemma replies_agree_same [simp]: "replies_agree r r"
  by (simp add: replies_agree_def)

lemma not_found_agree [simp]: "replies_agree (method_not_found n i) (py_not_found n i)"
  using py_builders(2) [of i "-32601" "''Method not found''" JUndef]
  by (simp add: method_not_found_def py_not_found_def)

text \<open>The contexts that the two dispatchers keep across their \<open>await\<close>.\<close>

definition contexts_agree :: "await_ctx \<Rightarrow> py_ctx \<Rightarrow> bool" where
  "contexts_agree w pw \<longleftrightarrow> aw_notification w = px_notification pw \<and> aw_id w = px_id pw
     \<and> (\<exists>d. aw_def w = OwnDef d \<and> (is_notification_def d \<longleftrightarrow> md_result d = None)
          \<and> results_agree (md_result d) (me_result (px_entry pw)))"

lemma resume_rejected_agrees:
  assumes "contexts_agree w pw" "errors_agree e e'"
  shows "\<exists>r'. fst (py_resume_raised psv pw e') = Inr r' \<and> replies_agree (fst (resume_rejected sv w e)) r'"
  using assms py_builders(2) [of "px_id pw"]
  by (cases "as_rpc_error e")
    (auto simp: resume_rejected_def py_resume_raised_def contexts_agree_def Let_def)

lemma resume_resolved_agrees:
  assumes "contexts_agree w pw" "is_notification_ref (aw_def w) \<or> v = v'"
  shows "\<exists>r'. fst (py_resume_returned psv pw v') = Inr r' \<and> replies_agree (fst (resume_resolved sv w v)) r'"
proof -
  from assms obtain d where d: "aw_def w = OwnDef d" "is_notification_def d \<longleftrightarrow> md_result d = None"
    "results_agree (md_result d) (me_result (px_entry pw))"
    "aw_notification w = px_notification pw" "aw_id w = px_id pw"
    by (auto simp: contexts_agree_def)
  show ?thesis
  proof (cases "me_result (px_entry pw)")
    case None
    with d show ?thesis
      by (auto simp: resume_resolved_def py_resume_returned_def results_agree_def split: option.splits)
  next
    case (Some pm)
    with d(3) obtain p where p: "md_result d = Some (Some p)"
      by (auto simp: results_agree_def split: option.splits)
    with d assms(2) have v: "v' = v" by simp
    have agree: "case pm_validate pm v of
        Valid y \<Rightarrow> p v = Inr (pm_dump pm y) | Invalid errs \<Rightarrow> is_Inl (p v) | Raises e \<Rightarrow> False"
      using d(3) by (simp add: results_agree_def p Some)
    with d p Some show ?thesis
      unfolding v by (cases "pm_validate pm v"; cases "p v")
        (auto simp: resume_resolved_def py_resume_returned_def py_builders(1))
  qed
qed

text \<open>From the result of the first part to that of the whole.\<close>

definition finish_step :: "dispatch_step \<times> server \<Rightarrow> (thrown + jsval option) option" where
  "finish_step = (\<lambda>(step, sv). case step of
     DReply r \<Rightarrow> Some (Inr r)
   | DThrow e \<Rightarrow> Some (Inl e)
   | DAwait w NeverSettles \<Rightarrow> None
   | DAwait w (Settles s) \<Rightarrow> Some (Inr (fst (dispatch_resume sv w s))))"

definition py_finish_step :: "py_step \<times> py_server \<Rightarrow> (py_error + jsval option) option" where
  "py_finish_step = (\<lambda>(step, sv). case step of
     PReply r \<Rightarrow> Some (Inr r)
   | PRaise e \<Rightarrow> Some (Inl e)
   | PAwait w NeverFinishes \<Rightarrow> None
   | PAwait w (Finishes s) \<Rightarrow> Some (fst (py_dispatch_resume sv w s)))"

lemma dispatch_finish: "fst (dispatch sv n env) = finish_step (dispatch_begin sv n env)"
  by (simp add: dispatch_def finish_step_def split: prod.split dispatch_step.split promise.split)

lemma py_dispatch_finish: "fst (py_dispatch sv n env) = py_finish_step (py_dispatch_begin sv n env)"
  by (simp add: py_dispatch_def py_finish_step_def split: prod.split py_step.split py_task.split)

lemma await_agrees:
  assumes "contexts_agree w pw" "handlers_agree (is_notification_ref (aw_def w)) (Inr p) (Inr t)"
  shows "dispatches_agree (finish_step (DAwait w p, sv)) (py_finish_step (PAwait pw t, psv))"
  using assms(2)
proof (cases "(is_notification_ref (aw_def w), Inr p :: thrown + promise, Inr t :: py_error + py_task)"
    rule: handlers_agree.cases)
  case (3 n v v')
  then show ?thesis
    using resume_resolved_agrees [OF assms(1), of v v' psv "inflight_delete (aw_work w) sv"] assms(2)
    by (auto simp: finish_step_def py_finish_step_def dispatch_resume_def py_dispatch_resume_def Let_def split_beta)
next
  case (4 n e e')
  then show ?thesis
    using resume_rejected_agrees [OF assms(1), of e e' psv "inflight_delete (aw_work w) sv"] assms(2)
    by (auto simp: finish_step_def py_finish_step_def dispatch_resume_def py_dispatch_resume_def Let_def split_beta)
qed (use assms(2) in \<open>auto simp: finish_step_def py_finish_step_def\<close>)

lemma call_agrees:
  assumes agree: "services_agree e pe" and own: "lookup_method (se_contract e) m \<noteq> Some Inherited"
  shows "dispatches_agree (finish_step (dispatch_call sv n e notif i m params))
     (py_finish_step (py_dispatch_call psv n (Some pe) notif i m params))"
proof (cases "lookup_method (se_contract e) m")
  case None
  with agree have "jm_get (pc_methods (ps_contract pe)) m = None"
    by (auto simp: services_agree_def dest!: spec [of _ m] split: option.splits)
  with None show ?thesis
    by (simp add: dispatch_call_def py_dispatch_call_def finish_step_def py_finish_step_def)
next
  case (Some ref)
  with own obtain d where d: "lookup_method (se_contract e) m = Some (OwnDef d)" by (cases ref) auto
  with agree obtain me where me: "jm_get (pc_methods (ps_contract pe)) m = Some me"
    "methods_agree d (se_handlers e m) me (ps_instance pe (me_handler_attr me))"
    by (auto simp: services_agree_def dest!: spec [of _ m] split: option.splits)
  from me(2) have check: "checks_agree (md_params d params) (pm_validate (me_params me) params)"
    and res: "is_notification_def d \<longleftrightarrow> md_result d = None" "results_agree (md_result d) (me_result me)"
    and h: "case (se_handlers e m, ps_instance pe (me_handler_attr me)) of
      (Some f, Some g) \<Rightarrow> (\<forall>p. handlers_agree (is_notification_def d) (f p) (g p)) | (None, None) \<Rightarrow> True | _ \<Rightarrow> False"
    by (auto simp: methods_agree_def)
  note unfold = dispatch_call_def py_dispatch_call_def d me(1)
  from check show ?thesis
  proof (cases "(md_params d params, pm_validate (me_params me) params)" rule: checks_agree.cases)
    case (1 x y)
    with check have xy: "md_params d params = Inr x" "pm_validate (me_params me) params = Valid x" by auto
    show ?thesis
    proof (cases "se_handlers e m")
      case None
      with h have "ps_instance pe (me_handler_attr me) = None" by (auto split: option.splits)
      with None xy show ?thesis by (simp add: unfold finish_step_def py_finish_step_def)
    next
      case (Some f)
      with h obtain g where g: "ps_instance pe (me_handler_attr me) = Some g"
        "handlers_agree (is_notification_def d) (f x) (g x)" by (auto split: option.splits)
      show ?thesis
      proof (cases "f x")
        case (Inl t)
        with g(2) obtain t' where "g x = Inl t'" by (cases "(is_notification_def d, f x, g x)" rule: handlers_agree.cases) auto
        with Inl Some g(1) xy show ?thesis by (simp add: unfold finish_step_def py_finish_step_def)
      next
        case (Inr p)
        with g(2) obtain t where t: "g x = Inr t" by (cases "(is_notification_def d, f x, g x)" rule: handlers_agree.cases) auto
        show ?thesis
          using await_agrees [of _ _ p t] g(2) [unfolded Inr t] res Some g(1) xy Inr t
          by (simp add: unfold contexts_agree_def)
      qed
    qed
  next
    case (2 x errs)
    then show ?thesis by (simp add: unfold finish_step_def py_finish_step_def)
  qed (use check in auto)
qed

lemma dispatch_agrees:
  assumes "jm_get (sv_services sv) n = Some e" "jm_get (pv_services psv) n = Some pe" "services_agree e pe"
    and "same_envelope env penv" "lookup_method (se_contract e) (env_method env) \<noteq> Some Inherited"
  shows "dispatches_agree (fst (dispatch sv n env)) (fst (py_dispatch psv n penv))"
  unfolding dispatch_finish py_dispatch_finish
proof (cases "(env, penv)" rule: same_envelope.cases)
  case (1 r r')
  then show "dispatches_agree (finish_step (dispatch_begin sv n env)) (py_finish_step (py_dispatch_begin psv n penv))"
    using call_agrees [OF assms(3)] assms(1,2,4,5) by (simp add: dispatch_begin_def py_dispatch_begin_def)
next
  case (2 r r')
  then show "dispatches_agree (finish_step (dispatch_begin sv n env)) (py_finish_step (py_dispatch_begin psv n penv))"
    using call_agrees [OF assms(3)] assms(1,2,4,5) by (simp add: dispatch_begin_def py_dispatch_begin_def)
qed (use assms in \<open>auto simp: dispatch_begin_def py_dispatch_begin_def finish_step_def py_finish_step_def\<close>)

end
