(* ===== verification/PyRedis.thy ===== *)
theory PyRedis
  imports PyServer EndToEnd
begin

text \<open>
  The Redis server transport of the Python implementation
  (\<open>src/py/packages/over-redis/src/clamator_over_redis\<close>): the names in \<open>keys.py\<close> and, from
  \<open>server_transport.py\<close>, the constructor, the registration and the handling of stream entries, with
  the text that \<open>json.dumps\<close> writes. The lemmas show that it can stand in for the TypeScript
  transport: the same entry has the same effects, and a TypeScript client is served by it.
\<close>

section \<open>Names\<close>

definition py_command_stream :: "string \<Rightarrow> string \<Rightarrow> string" where
  "py_command_stream key_prefix service = key_prefix @ '':cmds:'' @ service"

definition py_reply_stream :: "string \<Rightarrow> string \<Rightarrow> string" where
  "py_reply_stream key_prefix instance_id = key_prefix @ '':replies:'' @ instance_id"

definition py_consumer_group_name :: "string \<Rightarrow> string" where
  "py_consumer_group_name service = service"

definition py_consumer_name :: "string \<Rightarrow> string \<Rightarrow> string" where
  "py_consumer_name service instance_id = service @ '':'' @ instance_id"

lemma same_names:
  "py_command_stream = commandStream" "py_reply_stream = replyStream"
  "py_consumer_group_name = consumerGroupName" "py_consumer_name = consumerName"
  by (auto simp: fun_eq_iff py_command_stream_def commandStream_def py_reply_stream_def replyStream_def
      py_consumer_group_name_def consumerGroupName_def py_consumer_name_def consumerName_def)

section \<open>JSON\<close>

text \<open>
  \<open>json.dumps\<close> escapes every character that is not a printable ASCII one, and puts a space behind
  each comma and colon. It raises a \<open>TypeError\<close> for a value that JSON does not have. \<open>json.loads\<close>
  reads the same grammar as \<open>JSON.parse\<close>; the names of the special numbers, which it takes besides,
  stand for no integer.
\<close>

definition py_quote_char :: "char \<Rightarrow> string" where
  "py_quote_char c =
     (if c = CHR 0x22 then [CHR 0x5C, CHR 0x22]
      else if c = CHR 0x5C then [CHR 0x5C, CHR 0x5C]
      else if c = CHR 0x0A then [CHR 0x5C, CHR ''n'']
      else if c = CHR 0x0D then [CHR 0x5C, CHR ''r'']
      else if c = CHR 0x09 then [CHR 0x5C, CHR ''t'']
      else if c = CHR 0x0C then [CHR 0x5C, CHR ''f'']
      else if c = CHR 0x08 then [CHR 0x5C, CHR ''b'']
      else if code c < 32 \<or> 126 < code c then
        [CHR 0x5C, CHR ''u'', CHR ''0'', CHR ''0'', hex_digit (code c div 16), hex_digit (code c mod 16)]
      else [c])"

definition py_layout :: layout where
  "py_layout = \<lparr>ly_quote = py_quote_char, ly_brk = \<lambda>d. [], ly_sep = \<lambda>d. '' '', ly_gap = '' ''\<rparr>"

definition py_json_text :: "jsval \<Rightarrow> string" where
  "py_json_text v = json_layout py_layout 0 v"

lemma parse_chars_py_quote:
  "parse_chars (Suc n) (py_quote_char c @ t) = map_option (\<lambda>(s, r). (c # s, r)) (parse_chars n t)"
proof (cases "code c < 32 \<or> 126 < code c")
  case True
  then show ?thesis by (auto simp: py_quote_char_def parse_escape_def parse_hex4_char)
next
  case False
  then show ?thesis by (auto simp: py_quote_char_def parse_escape_def)
qed

interpretation dumps: white_layout py_layout
  by unfold_locales (simp_all add: py_layout_def is_ws_def parse_chars_py_quote, simp add: py_quote_char_def)

lemma json_parse_py_text: "json_ok v \<Longrightarrow> json_parse (py_json_text v) = Inr (json_norm v)"
  using dumps.layout_parse [of v "[]" 0] by (simp add: py_json_text_def)

definition py_type_error :: py_error where
  "py_type_error = \<lparr>px_kind = PyException, px_class = ''TypeError'',
     px_str = ''Object is not JSON serializable'', px_vars = []\<rparr>"

definition py_json_dumps :: "jsval \<Rightarrow> py_error + string" where
  "py_json_dumps v = (if py_value v then Inr (py_json_text v) else Inl py_type_error)"

definition py_json_error :: py_error where
  "py_json_error = \<lparr>px_kind = PyValueError, px_class = ''JSONDecodeError'',
     px_str = ''Expecting value'', px_vars = []\<rparr>"

definition py_json_loads :: "string \<Rightarrow> py_error + jsval" where
  "py_json_loads s = (case json_parse s of Inl e \<Rightarrow> Inl py_json_error | Inr v \<Rightarrow> Inr v)"

text \<open>What was read from JSON has no \<open>undefined\<close> in it, and normalising keeps it.\<close>

lemma py_value_set:
  "list_all (\<lambda>(k, v). py_value v) ps \<Longrightarrow> py_value v \<Longrightarrow> list_all (\<lambda>(k, v). py_value v) (jm_set ps k v)"
  by (induction ps k v rule: jm_set.induct) auto

lemma parse_number_value: "parse_number s = Some (v, r) \<Longrightarrow> py_value v"
  by (auto simp: parse_number_def split: if_splits)

lemma parse_py_value:
  "parse_value n s = Some (v, r) \<Longrightarrow> py_value v"
  "parse_elems n s acc = Some (v, r) \<Longrightarrow> list_all py_value acc \<Longrightarrow> py_value v"
  "parse_members n s ps = Some (v, r) \<Longrightarrow> list_all (\<lambda>(k, v). py_value v) ps \<Longrightarrow> py_value v"
proof (induction n s and n s acc and n s ps arbitrary: v r and v r and v r
    rule: parse_value_parse_elems_parse_members.induct)
  case (2 n s)
  then show ?case
    by (auto simp: parse_word_def split: option.splits if_splits) (rule parse_number_value, assumption)+
next
  case (4 n s acc)
  then show ?case by (auto split: option.splits if_splits)
next
  case (6 n s acc)
  then show ?case by (auto split: option.splits if_splits simp: py_value_set)
qed auto

lemma json_parse_value: "json_parse s = Inr v \<Longrightarrow> py_value v"
  by (auto simp: json_parse_def simp del: parse_value.simps split: option.splits if_splits intro: parse_py_value(1))

lemma json_norm_value: "py_value v \<Longrightarrow> json_norm v = v"
proof (induction v)
  case (JObj ps)
  have "filter (\<lambda>p. snd p \<noteq> JUndef) ps = ps"
    using JObj.prems by (intro filter_True) (auto simp: list_all_iff)
  moreover have "map (\<lambda>(k, v). (k, json_norm v)) ps = ps"
    using JObj by (intro map_idI) (fastforce simp: list_all_iff)
  ultimately show ?case by simp
next
  case (JArr vs)
  then show ?case by (auto simp: list_all_iff intro: map_idI)
qed auto

section \<open>The transport\<close>

record 'd py_transport =
  pt_key_prefix :: string
  pt_instance_id :: string
  pt_url :: "string option"
  pt_claim_idle_ms :: nat
  pt_reply_stream_maxlen :: int
  pt_shutdown_grace_ms :: nat
  pt_dispatchers :: "(string, 'd) jsmap"
  pt_state :: run_state

text \<open>The first text that is there and not empty.\<close>

fun py_or :: "string option list \<Rightarrow> string \<Rightarrow> string" where
  "py_or [] d = d"
| "py_or (Some (c # cs) # xs) d = c # cs"
| "py_or (_ # xs) d = py_or xs d"

text \<open>
  The constructor. \<open>pt_url\<close> is the URL of the connection it opens and owns, \<open>None\<close> when it was
  given one.
\<close>

definition py_make_server ::
    "bool \<Rightarrow> string option \<Rightarrow> string option \<Rightarrow> string \<Rightarrow> string option \<Rightarrow> string \<Rightarrow> nat \<Rightarrow> int \<Rightarrow> nat \<Rightarrow>
     string + 'd py_transport" where
  "py_make_server redis redis_url env_REDIS_URL key_prefix instance_id uuid claim_idle_ms
       reply_stream_maxlen shutdown_grace_ms =
     (if redis \<and> redis_url \<noteq> None then Inl ''provide either `redis` or `redis_url`, not both''
      else Inr \<lparr>pt_key_prefix = key_prefix, pt_instance_id = py_or [instance_id] uuid,
        pt_url = (if redis then None
                  else Some (py_or [redis_url, env_REDIS_URL] ''redis://localhost:6379'')),
        pt_claim_idle_ms = claim_idle_ms, pt_reply_stream_maxlen = reply_stream_maxlen,
        pt_shutdown_grace_ms = shutdown_grace_ms, pt_dispatchers = [], pt_state = Idle\<rparr>)"

definition py_register :: "string \<Rightarrow> 'd \<Rightarrow> 'd py_transport \<Rightarrow> 'd py_transport" where
  "py_register name d t = t\<lparr>pt_dispatchers := jm_set (pt_dispatchers t) name d\<rparr>"

section \<open>One entry\<close>

text \<open>
  The commands, with the arguments the code gives to the Redis package. A connection hands keys and
  values of an entry over as bytes, or as text if it was set up to decode them.
\<close>

datatype py_effect =
    PyDispatch py_envelope
  | PyXAck string string string
  | PyXAdd string "(string \<times> string) list" int
  | PyWarn string string

type_synonym py_handled = "py_effect list \<times> (py_error + unit) option"

type_synonym py_fields = "(string, string) jsmap"

definition py_field :: "bool \<Rightarrow> string \<Rightarrow> py_fields \<Rightarrow> string option" where
  "py_field decoded name flds =
     (let as_bytes = (if decoded then None else jm_get flds name);
          as_text = (if decoded then jm_get flds name else None) in
      case as_bytes of Some (c # cs) \<Rightarrow> as_bytes | _ \<Rightarrow> as_text)"

definition py_ack :: "(py_effect \<Rightarrow> py_error + unit) \<Rightarrow> py_effect \<Rightarrow> py_effect list \<Rightarrow> py_handled" where
  "py_ack redis ack effs = (effs @ [ack], Some (redis ack))"

definition py_finish_entry ::
    "(py_effect \<Rightarrow> py_error + unit) \<Rightarrow> 'd py_transport \<Rightarrow> py_effect \<Rightarrow> py_envelope \<Rightarrow> string option \<Rightarrow>
     jsval option \<Rightarrow> py_handled" where
  "py_finish_entry redis t ack parsed reply_to reply =
     (case (reply_to, reply) of
        (Some (c # cs), Some r) \<Rightarrow>
          (case py_json_dumps r of
             Inl e \<Rightarrow> ([PyDispatch parsed], Some (Inl e))
           | Inr txt \<Rightarrow>
             (let add = PyXAdd (c # cs) [(''type'', ''rpc''), (''envelope'', txt)] (pt_reply_stream_maxlen t) in
              case redis add of
                Inl e \<Rightarrow> ([PyDispatch parsed, add], Some (Inl e))
              | Inr _ \<Rightarrow> py_ack redis ack [PyDispatch parsed, add]))
      | _ \<Rightarrow> py_ack redis ack [PyDispatch parsed])"

fun py_handle_entry ::
    "('d \<Rightarrow> py_envelope \<Rightarrow> 'w \<Rightarrow> (py_error + jsval option) option \<times> 'w) \<Rightarrow> (py_effect \<Rightarrow> py_error + unit) \<Rightarrow>
     bool \<Rightarrow> 'd py_transport \<Rightarrow> string \<Rightarrow> string \<Rightarrow> string \<Rightarrow> string \<times> py_fields \<Rightarrow> 'w \<Rightarrow> py_handled \<times> 'w" where
  "py_handle_entry run redis decoded t service stream grp (entry_id, flds) w =
     (let ack = PyXAck stream grp entry_id in
      case py_field decoded ''envelope'' flds of
        None \<Rightarrow> (py_ack redis ack [], w)
      | Some env_b \<Rightarrow>
        (case rbind (py_json_loads env_b) py_parse_envelope of
           Inl e \<Rightarrow> (py_ack redis ack [PyWarn service entry_id], w)
         | Inr parsed \<Rightarrow>
           (case jm_get (pt_dispatchers t) service of
              None \<Rightarrow> (py_ack redis ack [], w)
            | Some d \<Rightarrow>
              (case run d parsed w of
                 (None, w') \<Rightarrow> (([PyDispatch parsed], None), w')
               | (Some (Inl e), w') \<Rightarrow> (([PyDispatch parsed], Some (Inl e)), w')
               | (Some (Inr reply), w') \<Rightarrow>
                 (py_finish_entry redis t ack parsed (py_field decoded ''reply-to'' flds) reply, w')))))"

text \<open>The entries of a batch, until one of them fails.\<close>

fun py_handle_entries ::
    "('d \<Rightarrow> py_envelope \<Rightarrow> 'w \<Rightarrow> (py_error + jsval option) option \<times> 'w) \<Rightarrow> (py_effect \<Rightarrow> py_error + unit) \<Rightarrow>
     bool \<Rightarrow> 'd py_transport \<Rightarrow> string \<Rightarrow> string \<Rightarrow> string \<Rightarrow> (string \<times> py_fields) list \<Rightarrow> 'w \<Rightarrow> py_handled \<times> 'w" where
  "py_handle_entries run redis decoded t service stream grp [] w = (([], Some (Inr ())), w)"
| "py_handle_entries run redis decoded t service stream grp (e # es) w =
     (case py_handle_entry run redis decoded t service stream grp e w of
        ((effs, Some (Inr _)), w') \<Rightarrow>
          (let ((effs', res), w'') = py_handle_entries run redis decoded t service stream grp es w' in
           ((effs @ effs', res), w''))
      | ((effs, res), w') \<Rightarrow> ((effs, res), w'))"

section \<open>Agreement of the two transports\<close>

text \<open>
  The entry that a client adds for a message with the text \<open>txt\<close>: as the list of fields that the
  TypeScript transport gets and as the dict that the Python transport gets.
\<close>

definition entry_pairs :: "string \<Rightarrow> string option \<Rightarrow> (string \<times> string) list" where
  "entry_pairs txt reply_to =
     [(''type'', ''rpc''), (''envelope'', txt)] @ (case reply_to of None \<Rightarrow> [] | Some to \<Rightarrow> [(''reply-to'', to)])"

definition entry_list :: "(string \<times> string) list \<Rightarrow> string list" where
  "entry_list ps = concat (map (\<lambda>(k, v). [k, v]) ps)"

text \<open>
  Effects agree when they are the same dispatch, the same acknowledgement, or replies to the same
  stream with the same cap whose texts carry replies that agree. Logging is left out.
\<close>

fun effects_agree :: "effect \<Rightarrow> py_effect \<Rightarrow> bool" where
  "effects_agree (EDispatch env) (PyDispatch parsed) = same_envelope env parsed"
| "effects_agree (ECmd (XAck s g i)) (PyXAck s' g' i') = (s = s' \<and> g = g' \<and> i = i')"
| "effects_agree (ECmd (XAdd to args)) (PyXAdd to' flds n) =
     (to = to' \<and> (\<exists>v w. replies_agree (Some v) (Some w)
        \<and> args = [''MAXLEN'', ''~'', int_digits n, ''*'', ''type'', ''rpc'', ''envelope'', json_text v]
        \<and> flds = [(''type'', ''rpc''), (''envelope'', py_json_text w)]))"
| "effects_agree _ _ = False"

fun is_log :: "effect \<Rightarrow> bool" where
  "is_log (ELog r) = True"
| "is_log _ = False"

fun py_is_log :: "py_effect \<Rightarrow> bool" where
  "py_is_log (PyWarn s i) = True"
| "py_is_log _ = False"

fun ends_agree :: "(thrown + unit) option \<Rightarrow> (py_error + unit) option \<Rightarrow> bool" where
  "ends_agree None None = True"
| "ends_agree (Some (Inl e)) (Some (Inl e')) = True"
| "ends_agree (Some (Inr _)) (Some (Inr _)) = True"
| "ends_agree _ _ = False"

definition handled_agree :: "handled \<Rightarrow> py_handled \<Rightarrow> bool" where
  "handled_agree h ph \<longleftrightarrow>
     list_all2 effects_agree (filter (\<lambda>e. \<not> is_log e) (fst h)) (filter (\<lambda>e. \<not> py_is_log e) (fst ph))
     \<and> ends_agree (snd h) (snd ph)"

text \<open>Redis, which answers either transport in the same way for the same stream.\<close>

fun redis_answer :: "(string \<Rightarrow> bool) \<Rightarrow> thrown \<Rightarrow> redis_cmd \<Rightarrow> thrown + unit" where
  "redis_answer up e (XAdd to args) = (if up to then Inr () else Inl e)"
| "redis_answer up e (XAck s g i) = (if up s then Inr () else Inl e)"
| "redis_answer up e _ = Inr ()"

fun py_redis_answer :: "(string \<Rightarrow> bool) \<Rightarrow> py_error \<Rightarrow> py_effect \<Rightarrow> py_error + unit" where
  "py_redis_answer up e (PyXAdd to flds n) = (if up to then Inr () else Inl e)"
| "py_redis_answer up e (PyXAck s g i) = (if up s then Inr () else Inl e)"
| "py_redis_answer up e _ = Inr ()"

lemma json_parse_empty: "\<exists>e. json_parse [] = Inl e"
  by (simp add: json_parse_def next_char_def parse_ws_def)

lemma entry_list_envelope:
  "field_after ''envelope'' (entry_list (entry_pairs txt to)) = Some txt"
  "\<not> js_index_of ''envelope'' (entry_list (entry_pairs txt to)) < 0"
  by (simp_all add: entry_list_def entry_pairs_def js_index_of_neg split: option.split)

lemma entry_list_reply_to:
  "txt \<noteq> ''reply-to'' \<Longrightarrow> field_after ''reply-to'' (entry_list (entry_pairs txt to)) = to"
  by (cases to) (simp_all add: entry_list_def entry_pairs_def field_after_def)

lemma py_field_envelope:
  "py_field decoded ''envelope'' (entry_pairs txt to) = (if txt = [] \<and> \<not> decoded then None else Some txt)"
  by (cases "txt") (simp_all add: py_field_def entry_pairs_def jm_get_def Let_def)

lemma py_field_reply_to:
  "py_field decoded ''reply-to'' (entry_pairs txt to) = (if to = Some [] \<and> \<not> decoded then None else to)"
  by (cases to) (auto simp: py_field_def entry_pairs_def jm_get_def Let_def split: list.split)

lemma parse_gap_reply_to: "json_parse ''reply-to'' \<noteq> Inr v"
  by (simp add: json_parse_def next_char_def parse_ws_def is_ws_def parse_number_def parse_digits_def char_simps)

lemma reply_texts:
  "replies_agree (Some v) (Some w) \<Longrightarrow> \<exists>v' w'. replies_agree (Some v') (Some w')
     \<and> json_text v = json_text v' \<and> py_json_text w = py_json_text w'"
  by blast

lemma finish_agrees:
  assumes "same_envelope env parsed" "replies_agree r r'" "case r' of Some w \<Rightarrow> py_value w | None \<Rightarrow> True"
    and "rs_replyStreamMaxLen t = pt_reply_stream_maxlen pt" "to = to' \<or> (to = Some [] \<and> to' = None)"
  shows "handled_agree (finish_entry (redis_answer up e) t (XAck s g i) env to r)
     (py_finish_entry (py_redis_answer up pe) pt (PyXAck s g i) parsed to' r')"
proof -
  have none: "r = None \<longleftrightarrow> r' = None" using assms(2) by (auto simp: replies_agree_def)
  show ?thesis
    using assms none
    by (cases r; cases r'; cases to rule: option.exhaust)
      (auto simp: handled_agree_def finish_entry_def py_finish_entry_def ack_entry_def py_ack_def
        reply_cmd_def py_json_dumps_def Let_def intro: reply_texts split: list.split)
qed

lemma poison_agrees:
  assumes "list_all (\<lambda>e. \<exists>r. e = ELog r) logs" "list_all py_is_log warns"
  shows "handled_agree (logs @ [ECmd (XAck s g i)], Some (redis_answer up e (XAck s g i)))
     (warns @ [PyXAck s g i], Some (py_redis_answer up pe (PyXAck s g i)))"
proof -
  have "filter (\<lambda>e. \<not> is_log e) logs = []" using assms(1) by (auto simp: list_all_iff filter_empty_conv)
  moreover have "filter (\<lambda>e. \<not> py_is_log e) warns = []"
    using assms(2) by (auto simp: list_all_iff filter_empty_conv)
  ultimately show ?thesis by (simp add: handled_agree_def)
qed

text \<open>What the two transports find in the entry.\<close>

definition py_entry_envelope :: "bool \<Rightarrow> py_fields \<Rightarrow> py_envelope option" where
  "py_entry_envelope decoded flds =
     (case py_field decoded ''envelope'' flds of
        None \<Rightarrow> None
      | Some env_b \<Rightarrow> (case rbind (py_json_loads env_b) py_parse_envelope of Inl e \<Rightarrow> None | Inr parsed \<Rightarrow> Some parsed))"

text \<open>
  The dispatchers of the services answer a message that was read from a text with a reply that
  JSON can carry: the validation library's errors and dumped results, and the data of an
  \<open>RpcError\<close>, hold nothing else.
\<close>

definition replies_json :: "(string, py_service) jsmap \<Rightarrow> bool" where
  "replies_json services \<longleftrightarrow>
     (\<forall>psv n txt parsed w. pv_services psv = services \<longrightarrow> rbind (py_json_loads txt) py_parse_envelope = Inr parsed \<longrightarrow>
        fst (py_dispatch psv n parsed) = Some (Inr (Some w)) \<longrightarrow> py_value w \<and> json_ok w)"

lemma replies_jsonD:
  assumes "replies_json (pv_services psv)" "py_entry_envelope decoded flds = Some parsed"
    "fst (py_dispatch psv n parsed) = Some (Inr (Some w))"
  shows "py_value w \<and> json_ok w"
proof -
  from assms(2) obtain env_b where "rbind (py_json_loads env_b) py_parse_envelope = Inr parsed"
    by (auto simp: py_entry_envelope_def split: option.splits sum.splits)
  with assms(1,3) show ?thesis unfolding replies_json_def by blast
qed

lemma entry_envelopes_agree:
  assumes "\<And>v. json_parse txt = Inr v \<Longrightarrow> \<not> parse_gap v"
  shows "case (entry_envelope (entry_list (entry_pairs txt to)), py_entry_envelope decoded (entry_pairs txt to)) of
    (Some env, Some parsed) \<Rightarrow> same_envelope env parsed | (None, None) \<Rightarrow> True | _ \<Rightarrow> False"
proof (cases "json_parse txt")
  case (Inl e)
  then show ?thesis
    by (simp add: entry_envelope_def py_entry_envelope_def entry_list_envelope py_field_envelope opt_or_def
        py_json_loads_def)
next
  case (Inr v)
  then have "txt \<noteq> []" using json_parse_empty by auto
  have same: "same_parse (parse_envelope v) (py_parse_envelope v)"
    using same_parse_iff [OF json_parse_value [OF Inr]] assms [OF Inr] by simp
  then show ?thesis
    using Inr \<open>txt \<noteq> []\<close>
    by (cases "parse_envelope v"; cases "py_parse_envelope v")
      (simp_all add: entry_envelope_def py_entry_envelope_def entry_list_envelope py_field_envelope opt_or_def
        py_json_loads_def)
qed

lemma py_handle_entry_poison:
  assumes "py_entry_envelope decoded flds = None"
  shows "\<exists>warns. py_handle_entry run redis decoded t service s g (i, flds) w
      = ((warns @ [PyXAck s g i], Some (redis (PyXAck s g i))), w) \<and> list_all py_is_log warns"
proof (cases "py_field decoded ''envelope'' flds")
  case None
  then show ?thesis by (intro exI [of _ "[]"]) (simp add: py_ack_def Let_def)
next
  case (Some env_b)
  with assms obtain e where "rbind (py_json_loads env_b) py_parse_envelope = Inl e"
    by (auto simp: py_entry_envelope_def split: sum.splits)
  with Some show ?thesis by (intro exI [of _ "[PyWarn service i]"]) (simp add: py_ack_def Let_def)
qed

lemma py_handle_entry_envelope:
  assumes "py_entry_envelope decoded flds = Some parsed" "jm_get (pt_dispatchers t) service = Some d"
  shows "py_handle_entry run redis decoded t service s g (i, flds) w =
    (case run d parsed w of
       (None, w') \<Rightarrow> (([PyDispatch parsed], None), w')
     | (Some (Inl e), w') \<Rightarrow> (([PyDispatch parsed], Some (Inl e)), w')
     | (Some (Inr reply), w') \<Rightarrow>
       (py_finish_entry redis t (PyXAck s g i) parsed (py_field decoded ''reply-to'' flds) reply, w'))"
  using assms by (auto simp: py_entry_envelope_def Let_def split: option.splits sum.splits)

text \<open>
  A reply that JSON does not have, as the errors of the validation library can be, raises in the
  handling of the entry: nothing is added for the caller and the entry is not acknowledged.
\<close>

lemma unserializable_reply_not_acked:
  assumes "py_entry_envelope decoded flds = Some parsed" "jm_get (pt_dispatchers t) service = Some d"
    and "run d parsed w = (Some (Inr (Some r)), w')" "\<not> py_value r"
    and "py_field decoded ''reply-to'' flds = Some to" "to \<noteq> []"
  shows "py_handle_entry run redis decoded t service s g (i, flds) w =
    (([PyDispatch parsed], Some (Inl py_type_error)), w')"
  using assms
  by (cases to) (auto simp: py_handle_entry_envelope py_finish_entry_def py_json_dumps_def simp del: py_handle_entry.simps)

lemma entry_envelope_text: "entry_envelope (entry_list (entry_pairs txt to)) = Some env \<Longrightarrow> txt \<noteq> ''reply-to''"
  using parse_gap_reply_to by (auto simp: entry_envelope_def entry_list_envelope opt_or_def split: sum.splits)

lemma entries_agree:
  assumes gap: "\<And>v. json_parse txt = Inr v \<Longrightarrow> \<not> parse_gap v"
    and disp: "jm_get (rs_dispatchers t) n = Some n" "jm_get (pt_dispatchers pt) n = Some n"
    and len: "rs_replyStreamMaxLen t = pt_reply_stream_maxlen pt"
    and reg: "jm_get (sv_services sv) n = Some e" "jm_get (pv_services psv) n = Some pe"
    and agree: "services_agree e pe"
    and own: "\<And>env. entry_envelope (entry_list (entry_pairs txt to)) = Some env \<Longrightarrow>
      lookup_method (se_contract e) (env_method env) \<noteq> Some Inherited"
    and ok: "replies_json (pv_services psv)"
  shows "handled_agree
    (fst (handle_entry (\<lambda>d env sv. dispatch sv d env) (redis_answer up x) t n s g (i, entry_list (entry_pairs txt to)) sv))
    (fst (py_handle_entry (\<lambda>d env sv. py_dispatch sv d env) (py_redis_answer up px) decoded pt n s g
       (i, entry_pairs txt to) psv))"
proof (cases "entry_envelope (entry_list (entry_pairs txt to))")
  case None
  then have "py_entry_envelope decoded (entry_pairs txt to) = None"
    using entry_envelopes_agree [of "txt" to decoded, OF gap] by (auto split: option.splits)
  from handle_entry_poison [OF None, of "\<lambda>d env sv. dispatch sv d env" "redis_answer up x" t n s g i sv]
    py_handle_entry_poison [OF this, of "\<lambda>d env sv. py_dispatch sv d env" "py_redis_answer up px" pt n s g i psv]
  show ?thesis using poison_agrees by auto
next
  case (Some env)
  then obtain parsed where p: "py_entry_envelope decoded (entry_pairs txt to) = Some parsed" "same_envelope env parsed"
    using entry_envelopes_agree [of "txt" to decoded, OF gap] by (auto split: option.splits)
  have d: "dispatches_agree (fst (dispatch sv n env)) (fst (py_dispatch psv n parsed))"
    using dispatch_agrees [OF reg agree p(2) own [OF Some]] .
  have to: "field_after ''reply-to'' (entry_list (entry_pairs txt to)) = to"
    using entry_list_reply_to [OF entry_envelope_text [OF Some]] .
  have pto: "to = py_field decoded ''reply-to'' (entry_pairs txt to)
      \<or> (to = Some [] \<and> py_field decoded ''reply-to'' (entry_pairs txt to) = None)"
    by (auto simp: py_field_reply_to)
  have fin: "handled_agree
      (finish_entry (redis_answer up x) t (XAck s g i) env to r)
      (py_finish_entry (py_redis_answer up px) pt (PyXAck s g i) parsed (py_field decoded ''reply-to'' (entry_pairs txt to)) r')"
    if "replies_agree r r'" "fst (py_dispatch psv n parsed) = Some (Inr r')" for r r'
    using that replies_jsonD [OF ok p(1)] by (intro finish_agrees [OF p(2) _ _ len pto]) (auto split: option.split)
  show ?thesis
    unfolding handle_entry_envelope [OF Some] py_handle_entry_envelope [OF p(1) disp(2)] to
    using d fin p(2) disp(1)
    by (cases "dispatch sv n env"; cases "py_dispatch psv n parsed";
        cases "(fst (dispatch sv n env), fst (py_dispatch psv n parsed))" rule: dispatches_agree.cases)
      (auto simp: handled_agree_def)
qed

declare py_handle_entry.simps [simp del]

text \<open>A batch: the dispatchers never change the services, so every entry finds the same ones.\<close>

lemma dispatch_keeps: "sv_services (snd (dispatch sv n env)) = sv_services sv"
  using dispatch_begin_frame(1) [of sv n env]
  by (auto simp: dispatch_def dispatch_resume_frame split_beta Let_def
      split: dispatch_step.split promise.split)

lemma py_begin_keeps: "pv_services (snd (py_dispatch_begin sv n env)) = pv_services sv"
  by (auto simp: py_dispatch_begin_def py_dispatch_call_def Let_def
      split: py_envelope.split option.split py_check.split sum.split)

lemma py_resume_keeps: "pv_services (snd (py_dispatch_resume sv w s)) = pv_services sv"
proof -
  have "pv_services (snd (py_resume_raised sv w e)) = pv_services sv" for e
    by (simp add: py_resume_raised_def split: py_kind.split)
  moreover have "pv_services (snd (py_resume_returned sv w v)) = pv_services sv" for v
    by (simp add: py_resume_returned_def split: option.split py_check.split)
  ultimately show ?thesis
    by (simp add: py_dispatch_resume_def py_discard_def split_beta Let_def split: py_settled.split)
qed

lemma py_dispatch_keeps: "pv_services (snd (py_dispatch sv n env)) = pv_services sv"
  using py_begin_keeps [of sv n env]
  by (auto simp: py_dispatch_def py_resume_keeps split_beta Let_def split: py_step.split py_task.split)

lemma handle_entry_keeps:
  "sv_services (snd (handle_entry (\<lambda>d env sv. dispatch sv d env) redis t n s g e sv)) = sv_services sv"
  using dispatch_keeps by (cases e) (auto simp: handle_entry.simps Let_def split_beta split: option.split sum.split)

lemma py_handle_entry_keeps:
  "pv_services (snd (py_handle_entry (\<lambda>d env sv. py_dispatch sv d env) redis decoded t n s g e sv)) = pv_services sv"
  using py_dispatch_keeps
  by (cases e) (auto simp: py_handle_entry.simps Let_def split_beta split: option.split sum.split)

definition ts_entries :: "(string \<times> string \<times> string option) list \<Rightarrow> (string \<times> string list) list" where
  "ts_entries es = map (\<lambda>(i, txt, to). (i, entry_list (entry_pairs txt to))) es"

definition py_entries :: "(string \<times> string \<times> string option) list \<Rightarrow> (string \<times> py_fields) list" where
  "py_entries es = map (\<lambda>(i, txt, to). (i, entry_pairs txt to)) es"

lemma handled_agree_append:
  assumes "handled_agree (effs, r) (peffs, pr)" "handled_agree (effs', r') (peffs', pr')"
  shows "handled_agree (effs @ effs', r') (peffs @ peffs', pr')"
  using assms by (simp add: handled_agree_def list_all2_appendI)

lemma batches_agree:
  assumes gap: "\<And>i txt to v. (i, txt, to) \<in> set es \<Longrightarrow> json_parse txt = Inr v \<Longrightarrow> \<not> parse_gap v"
    and disp: "jm_get (rs_dispatchers t) n = Some n" "jm_get (pt_dispatchers pt) n = Some n"
    and len: "rs_replyStreamMaxLen t = pt_reply_stream_maxlen pt"
    and reg: "jm_get (sv_services sv) n = Some e" "jm_get (pv_services psv) n = Some pe"
    and agree: "services_agree e pe"
    and own: "\<And>i txt to env. (i, txt, to) \<in> set es \<Longrightarrow>
      entry_envelope (entry_list (entry_pairs txt to)) = Some env \<Longrightarrow>
      lookup_method (se_contract e) (env_method env) \<noteq> Some Inherited"
    and ok: "replies_json (pv_services psv)"
  shows "handled_agree
    (fst (handle_entries (\<lambda>d env sv. dispatch sv d env) (redis_answer up x) t n s g (ts_entries es) sv))
    (fst (py_handle_entries (\<lambda>d env sv. py_dispatch sv d env) (py_redis_answer up px) decoded pt n s g
       (py_entries es) psv))"
  using gap reg own ok
proof (induction es arbitrary: sv psv)
  case Nil
  then show ?case by (simp add: ts_entries_def py_entries_def handled_agree_def)
next
  case (Cons entry es)
  obtain i "txt" to where entry: "entry = (i, txt, to)" by (cases entry)
  let ?one = "handle_entry (\<lambda>d env sv. dispatch sv d env) (redis_answer up x) t n s g
      (i, entry_list (entry_pairs txt to)) sv"
  let ?pone = "py_handle_entry (\<lambda>d env sv. py_dispatch sv d env) (py_redis_answer up px) decoded pt n s g
      (i, entry_pairs txt to) psv"
  have one: "handled_agree (fst ?one) (fst ?pone)"
    using Cons.prems(1,4) [of i "txt" to]
    by (intro entries_agree [OF _ disp len Cons.prems(2,3) agree _ Cons.prems(5)]) (auto simp: entry)
  have rest: "handled_agree
    (fst (handle_entries (\<lambda>d env sv. dispatch sv d env) (redis_answer up x) t n s g (ts_entries es) (snd ?one)))
    (fst (py_handle_entries (\<lambda>d env sv. py_dispatch sv d env) (py_redis_answer up px) decoded pt n s g
       (py_entries es) (snd ?pone)))"
  proof (rule Cons.IH)
    show "\<not> parse_gap v" if "(i, txt, to) \<in> set es" "json_parse txt = Inr v" for i "txt" to v
      using Cons.prems(1) [of i "txt" to v] that by simp
    show "lookup_method (se_contract e) (env_method env) \<noteq> Some Inherited"
      if "(i, txt, to) \<in> set es" "entry_envelope (entry_list (entry_pairs txt to)) = Some env" for i "txt" to env
      using Cons.prems(4) [of i "txt" to env] that by simp
  qed (use Cons.prems in \<open>simp_all add: handle_entry_keeps py_handle_entry_keeps\<close>)
  obtain effs r sv1 where o1: "?one = ((effs, r), sv1)" by (metis prod.exhaust)
  obtain peffs pr psv1 where p1: "?pone = ((peffs, pr), psv1)" by (metis prod.exhaust)
  from one have ends: "ends_agree r pr" by (simp add: o1 p1 handled_agree_def)
  have es: "ts_entries (entry # es) = (i, entry_list (entry_pairs txt to)) # ts_entries es"
    "py_entries (entry # es) = (i, entry_pairs txt to) # py_entries es"
    by (simp_all add: ts_entries_def py_entries_def entry)
  show ?case
  proof (cases "\<exists>u. r = Some (Inr u)")
    case True
    then have r: "r = Some (Inr ())" "pr = Some (Inr ())"
      using ends by (auto elim: ends_agree.elims)
    let ?rest = "handle_entries (\<lambda>d env sv. dispatch sv d env) (redis_answer up x) t n s g (ts_entries es) sv1"
    let ?prest = "py_handle_entries (\<lambda>d env sv. py_dispatch sv d env) (py_redis_answer up px) decoded pt n s g
       (py_entries es) psv1"
    have "handled_agree (effs @ fst (fst ?rest), snd (fst ?rest)) (peffs @ fst (fst ?prest), snd (fst ?prest))"
      using one rest by (intro handled_agree_append [of effs r peffs pr]) (simp_all add: o1 p1)
    then show ?thesis unfolding es by (simp add: o1 p1 r split_beta)
  next
    case False
    with ends have "fst (handle_entries (\<lambda>d env sv. dispatch sv d env) (redis_answer up x) t n s g
        (ts_entries (entry # es)) sv) = (effs, r)
      \<and> fst (py_handle_entries (\<lambda>d env sv. py_dispatch sv d env) (py_redis_answer up px) decoded pt n s g
        (py_entries (entry # es)) psv) = (peffs, pr)"
      unfolding es by (auto simp: o1 p1 elim!: ends_agree.elims split: option.split sum.split)
    with one show ?thesis by (simp add: o1 p1)
  qed
qed

end
