(* ===== verification/PyInterop.thy ===== *)
theory PyInterop
  imports PyRedis
begin

text \<open>
  A TypeScript client over Redis with a Python server: the call of \<open>EndToEnd\<close> with the Python transport
  and dispatcher in place of the TypeScript ones. Redis delivers to the reader of a stream the
  fields that were added to it.
\<close>

section \<open>One call\<close>

text \<open>The dict of a list of alternating keys and values.\<close>

fun pairs_of :: "string list \<Rightarrow> (string \<times> string) list" where
  "pairs_of (k # v # xs) = (k, v) # pairs_of xs"
| "pairs_of _ = []"

definition dict_of :: "string list \<Rightarrow> py_fields" where
  "dict_of xs = fold (\<lambda>(k, v) d. jm_set d k v) (pairs_of xs) []"

definition py_added_to :: "string \<Rightarrow> py_effect \<Rightarrow> string list list" where
  "py_added_to stream e =
     (case e of PyXAdd to flds n \<Rightarrow> if to = stream then [entry_list flds] else [] | _ \<Rightarrow> [])"

definition mixed_rpc_send ::
    "jsval \<Rightarrow> nat \<Rightarrow> redis_client \<times> string py_transport \<times> py_server \<Rightarrow>
     (thrown + jsval) \<times> redis_client \<times> string py_transport \<times> py_server" where
  "mixed_rpc_send env timeoutMs = (\<lambda>(rc, pt, psv).
     case rc_send env rc of
       (Inl e, rc1) \<Rightarrow> (Inl e, rc1, pt, psv)
     | (Inr h, rc1) \<Rightarrow>
       (let (effs, psv1) =
          (case last (rc_cmds rc1) of
             XAdd stream args \<Rightarrow>
               (case find (\<lambda>n. py_command_stream (pt_key_prefix pt) n = stream) (jm_keys (pt_dispatchers pt)) of
                  Some n \<Rightarrow>
                    (let ((effs, res), psv') = py_handle_entry (\<lambda>d env sv. py_dispatch sv d env) (\<lambda>cmd. Inr ())
                           False pt n stream (py_consumer_group_name n) (''1-0'', dict_of (tl args)) psv in
                     (effs, psv'))
                | None \<Rightarrow> ([], psv))
           | _ \<Rightarrow> ([], psv));
            entries = map (Pair ''1-1'') (concat (map (py_added_to (rc_replyStream rc1)) effs));
            rc2 = snd (reply_entries entries rc1);
            rc3 = rc_timeout h rc2 in
        (case settled (rc_calls rc3) h of Some r \<Rightarrow> r | None \<Rightarrow> Inl (transport_error []),
         rc3, pt, psv1)))"

text \<open>Results that agree but for the data of a validation or an internal error.\<close>

definition results_alike :: "thrown + jsval \<Rightarrow> thrown + jsval \<Rightarrow> bool" where
  "results_alike r r' \<longleftrightarrow> r = r'
     \<or> (\<exists>c m d d'. c \<in> {-32602, -32603} \<and> r = Inl (new_rpc_error c m d) \<and> r' = Inl (new_rpc_error c m d'))"

section \<open>The request\<close>

lemma full_method_parts:
  assumes "SERVICE_RE s"
  shows "takeWhile (\<lambda>c. c \<noteq> CHR ''.'') (full_method s m) = s"
    "tl (dropWhile (\<lambda>c. c \<noteq> CHR ''.'') (full_method s m)) = m"
proof -
  have "\<forall>c \<in> set s. c \<noteq> CHR ''.''" using SERVICE_RE_no_dot [OF assms] by metis
  then show "takeWhile (\<lambda>c. c \<noteq> CHR ''.'') (full_method s m) = s"
    "tl (dropWhile (\<lambda>c. c \<noteq> CHR ''.'') (full_method s m)) = m"
    by (simp_all add: full_method_def takeWhile_append dropWhile_append)
qed

lemma request_no_gap:
  assumes "SERVICE_RE s" "METHOD_RE m" "p \<noteq> JNull"
  shows "\<not> parse_gap (json_norm (build_request (full_method s m) p i))"
proof -
  have n: "\<not> newline_name SERVICE_RE s" "\<not> newline_name METHOD_RE m"
    using assms(1,2) by (simp_all add: newline_name_def)
  have "p \<noteq> JUndef \<Longrightarrow> json_norm p \<noteq> JNull" using assms(3) by (cases p) auto
  with n show ?thesis
    by (auto simp: build_request_def call_gap_def Let_def full_method_parts [OF assms(1)])
qed

lemma request_entry:
  assumes "SERVICE_RE s" "METHOD_RE m" "json_ok p" "p \<noteq> JNull"
    and eq: "txt = json_text (build_request (full_method s m) p (JStr uuid))"
  shows "\<exists>r. py_entry_envelope decoded (entry_pairs txt (Some to)) = Some (PyRequest r)
      \<and> rq_service r = s \<and> rq_method r = m \<and> rq_id r = JStr uuid
      \<and> rq_params r = js_nullish (json_norm p) (JObj [])"
proof -
  have ok: "json_ok (build_request (full_method s m) p (JStr uuid))" using assms(3) by (simp add: build_request_def)
  have gap: "\<not> parse_gap v" if "json_parse txt = Inr v" for v
    using that request_no_gap [OF assms(1,2,4)] json_parse_text [OF ok] by (auto simp: eq)
  have l: "entry_list (entry_pairs txt (Some to)) = [''type'', ''rpc'', ''envelope'', txt, ''reply-to'', to]"
    by (simp add: entry_list_def entry_pairs_def)
  obtain r where r: "entry_envelope (entry_list (entry_pairs txt (Some to))) = Some (Request r)"
    "rq_service r = s" "rq_method r = m" "rq_id r = JStr uuid" "rq_params r = js_nullish (json_norm p) (JObj [])"
    unfolding l using request_over_json [OF assms(1-3), of uuid to] unfolding eq by blast
  obtain parsed where "py_entry_envelope decoded (entry_pairs txt (Some to)) = Some parsed" "same_envelope (Request r) parsed"
    using entry_envelopes_agree [of "txt" "Some to" decoded, OF gap] r(1) by (auto split: option.splits)
  with r show ?thesis by (cases parsed) auto
qed

lemma dict_of_request:
  "dict_of [''type'', ''rpc'', ''envelope'', txt, ''reply-to'', to] = entry_pairs txt (Some to)"
  by (simp add: dict_of_def entry_pairs_def)

section \<open>The reply\<close>

text \<open>What the Python dispatcher gives for a request of an agreeing service.\<close>

lemma py_dispatch_spec:
  assumes "jm_get (pv_services psv) s = Some pe"
    and "services_agree \<lparr>se_contract = c, se_handlers = hs\<rparr> pe" "good_service c hs"
    and own: "rq_method r \<notin> set object_prototype_names \<or> jm_get (ct_methods c) (rq_method r) \<noteq> None"
  shows "dispatches_agree
    (map_option (\<lambda>out. Inr (encode_outcome (rq_id r) out)) (call_spec c hs (rq_method r) (rq_params r)))
    (fst (py_dispatch psv s (PyRequest r)))"
proof -
  let ?sv = "new_server\<lparr>sv_services := [(s, \<lparr>se_contract = c, se_handlers = hs\<rparr>)]\<rparr>"
  have entry: "jm_get (sv_services ?sv) s = Some \<lparr>se_contract = c, se_handlers = hs\<rparr>" by (simp add: jm_get_def)
  have "lookup_method c (rq_method r) \<noteq> Some Inherited"
    using own by (auto simp: lookup_method_def split: option.split)
  then show ?thesis
    using dispatch_agrees [OF entry assms(1,2), of "Request r" "PyRequest r"]
      dispatch_refines_lemma [OF entry assms(3) own] by simp
qed

text \<open>A Python reply that agrees with the encoded outcome decodes to a result that agrees.\<close>

lemma decode_py_reply:
  assumes "encode_outcome (JStr i) out = Some v" "replies_agree (Some v) (Some w)" "py_value w" "json_ok w"
  shows "results_alike (wire_result (Some out)) (call_decode w)" "js_get w ''id'' = JStr i" "w \<noteq> JNull"
proof -
  have "results_alike (wire_result (Some out)) (call_decode w) \<and> js_get w ''id'' = JStr i \<and> w \<noteq> JNull"
  proof (cases "w = v")
    case True
    have "json_ok v" using assms(4) True by simp
    then have ok: "outcome_ok out"
      using assms(1) by (cases out; cases "case out of Failure c m d \<Rightarrow> d")
        (auto simp: build_success_response_def build_error_response_def)
    note dec = decode_over_json [OF assms(1) ok]
    have "json_norm v = v" using json_norm_value [of v] assms(3) True by simp
    with dec(2-4) True show ?thesis by (simp add: results_alike_def)
  next
    case False
    with assms(2) obtain j c m d d' where v: "v = build_error_response j c m d" "c \<in> {-32602, -32603}"
      and w: "w = py_build_error_response j (JNum c) m d'" by (auto simp: replies_agree_def)
    from assms(1) v obtain d0 where out: "out = Failure c m d0" "j = JStr i"
      by (cases out) (auto simp: build_success_response_def build_error_response_def)
    have "d' \<noteq> JUndef" using assms(3) by (auto simp: w py_build_error_response_def)
    then have "w = build_error_response j c m d'" by (cases d') (auto simp: w py_build_error_response_def build_error_response_def)
    then have "call_decode w = Inl (new_rpc_error c m (js_default JNull d'))" "js_get w ''id'' = JStr i" "w \<noteq> JNull"
      by (simp_all add: call_decode_def parse_build_error out(2), simp_all add: build_error_response_def)
    then show ?thesis using v(2) by (auto simp: results_alike_def out(1))
  qed
  then show "results_alike (wire_result (Some out)) (call_decode w)" "js_get w ''id'' = JStr i" "w \<noteq> JNull" by auto
qed

lemma py_reply_settles:
  assumes "calls_inv c" "open_call (JStr uuid) (JStr uuid) c = (h, rc_calls rc1)"
    and "py_value w" "json_ok w" "js_get w ''id'' = JStr uuid" "w \<noteq> JNull"
  shows "settled (call_timeout h (rc_calls (snd (reply_entries
      [(eid, [''type'', ''rpc'', ''envelope'', py_json_text w])] rc1)))) h = Some (Inr w)"
proof -
  have "json_parse (py_json_text w) = Inr w"
    using json_parse_py_text [OF assms(4)] json_norm_value [OF assms(3)] by simp
  then have "rc_calls (snd (reply_entries [(eid, [''type'', ''rpc'', ''envelope'', py_json_text w])] rc1))
      = take_call (JStr uuid) (Inr w) (rc_calls rc1)"
    using assms(5,6) by simp
  then show ?thesis using timeout_after_open(2) [OF assms(1,2)] by simp
qed

section \<open>The call\<close>

lemma mixed_send_result:
  assumes st: "rc_state rc = Started" "calls_inv (rc_calls rc)" "rc_instanceId rc \<noteq> []"
    and names: "SERVICE_RE s" "METHOD_RE m" "json_ok p" and p: "p \<noteq> JNull"
    and disp: "jm_get (pt_dispatchers pt) s = Some s" "pt_key_prefix pt = rc_keyPrefix rc"
    and keys: "\<And>n. n \<in> set (jm_keys (pt_dispatchers pt)) \<Longrightarrow> no_colon n"
    and run: "\<And>r. rq_method r = m \<Longrightarrow> rq_params r = js_nullish (json_norm p) (JObj []) \<Longrightarrow>
      rq_id r = JStr uuid \<Longrightarrow> dispatches_agree
        (map_option (\<lambda>out. Inr (encode_outcome (JStr uuid) out)) res) (fst (py_dispatch psv s (PyRequest r)))"
    and ok: "replies_json (pv_services psv)"
  shows "\<exists>x. fst (mixed_rpc_send (build_request (full_method s m) p (JStr uuid)) ms (rc, pt, psv)) = x
    \<and> results_alike (wire_result res) (case x of Inl e \<Rightarrow> Inl e | Inr v \<Rightarrow> call_decode v)"
proof -
  let ?env = "build_request (full_method s m) p (JStr uuid)"
  let ?to = "rc_replyStream rc"
  let ?flds = "entry_pairs (json_text ?env) (Some ?to)"
  obtain r0 where r0: "parse_envelope ?env = Inr (Request r0)" "rq_service r0 = s" "rq_id r0 = JStr uuid"
    using parse_build_request [OF names(1,2), of "JStr uuid" p] by simp
  obtain h c1 where o: "open_call (JStr uuid) (JStr uuid) (rc_calls rc) = (h, c1)" by (metis prod.exhaust)
  define rc1 where "rc1 = rc\<lparr>rc_calls := c1, rc_adds := rc_adds rc @ [JStr uuid],
    rc_cmds := rc_cmds rc @ [XAdd (commandStream (rc_keyPrefix rc) s) (request_fields ?env ?to)]\<rparr>"
  have send: "rc_send ?env rc = (Inr h, rc1)"
    using st(1) r0 o by (simp add: rc_send_def pending_key_def rc1_def)
  have rc1: "rc_calls rc1 = c1" "rc_replyStream rc1 = ?to"
    "last (rc_cmds rc1) = XAdd (commandStream (rc_keyPrefix rc) s) (request_fields ?env ?to)"
    by (simp_all add: rc1_def rc_replyStream_def)
  have flds: "dict_of (tl (request_fields ?env ?to)) = ?flds"
    unfolding request_fields_def list.sel by (rule dict_of_request)
  obtain r where r: "py_entry_envelope False ?flds = Some (PyRequest r)"
    "rq_service r = s" "rq_method r = m" "rq_id r = JStr uuid"
    "rq_params r = js_nullish (json_norm p) (JObj [])"
    using request_entry [OF names p HOL.refl, of False uuid ?to] by blast
  have to: "?to \<noteq> []" using st(3) by (simp add: rc_replyStream_def replyStream_def)
  then have rt: "py_field False ''reply-to'' ?flds = Some ?to" by (simp add: py_field_reply_to)
  let ?cs = "commandStream (rc_keyPrefix rc) s"
  let ?ack = "PyXAck ?cs (consumerGroupName s) ''1-0''"
  let ?he = "py_handle_entry (\<lambda>d env sv. py_dispatch sv d env) (\<lambda>cmd. Inr ()) False pt s ?cs
    (consumerGroupName s) (''1-0'', ?flds) psv"
  have find: "find (\<lambda>n. commandStream (pt_key_prefix pt) n = ?cs) (jm_keys (pt_dispatchers pt)) = Some s"
    unfolding disp(2) using disp(1) names(1) keys by (intro find_stream) auto
  have he: "?he = (case py_dispatch psv s (PyRequest r) of
       (None, w') \<Rightarrow> (([PyDispatch (PyRequest r)], None), w')
     | (Some (Inl e), w') \<Rightarrow> (([PyDispatch (PyRequest r)], Some (Inl e)), w')
     | (Some (Inr reply), w') \<Rightarrow>
       (py_finish_entry (\<lambda>cmd. Inr ()) pt ?ack (PyRequest r) (Some ?to) reply, w'))"
    unfolding py_handle_entry_envelope [OF r(1) disp(1)] rt by simp
  let ?entries = "map (Pair ''1-1'') (concat (map (py_added_to ?to) (fst (fst ?he))))"
  have result: "fst (mixed_rpc_send ?env ms (rc, pt, psv)) =
    (case settled (call_timeout h (rc_calls (snd (reply_entries ?entries rc1)))) h of
       Some x \<Rightarrow> x | None \<Rightarrow> Inl (transport_error []))"
    by (simp add: mixed_rpc_send_def send rc1 same_names find flds rc_timeout_def split_beta Let_def)
  have o1: "open_call (JStr uuid) (JStr uuid) (rc_calls rc) = (h, rc_calls rc1)" using o rc1 by simp
  note timeout = timeout_after_open(1) [OF st(2) o1]
  note d = run [OF r(3,5,4)]
  show ?thesis
  proof (cases "\<exists>w. fst (py_dispatch psv s (PyRequest r)) = Some (Inr (Some w))")
    case True
    then obtain w sv1 where dp: "py_dispatch psv s (PyRequest r) = (Some (Inr (Some w)), sv1)"
      by (metis prod.collapse)
    with replies_jsonD [OF ok r(1), of s w] have w: "py_value w" "json_ok w" by simp_all
    from d dp obtain out where out: "res = Some out" "replies_agree (encode_outcome (JStr uuid) out) (Some w)"
      by (cases res) auto
    then obtain v where v: "encode_outcome (JStr uuid) out = Some v"
      by (cases "encode_outcome (JStr uuid) out") (auto simp: replies_agree_def)
    note dec = decode_py_reply [OF v out(2) [unfolded v] w]
    obtain ch rest where ch: "?to = ch # rest" using to by (cases ?to) auto
    have e: "?entries = [(''1-1'', [''type'', ''rpc'', ''envelope'', py_json_text w])]"
      unfolding he dp using w(1)
      by (simp add: py_finish_entry_def ch py_ack_def py_json_dumps_def py_added_to_def entry_list_def Let_def)
    have "fst (mixed_rpc_send ?env ms (rc, pt, psv)) = Inr w"
      unfolding result e using py_reply_settles [OF st(2) o1 w dec(2,3)] by simp
    then show ?thesis using dec(1) out(1) by auto
  next
    case False
    have none: "res = None \<or> res = Some NoAnswer"
    proof (cases res)
      case (Some out)
      with d obtain r' where r': "fst (py_dispatch psv s (PyRequest r)) = Some (Inr r')"
        "replies_agree (encode_outcome (JStr uuid) out) r'"
        by (cases "fst (py_dispatch psv s (PyRequest r))") (auto elim: dispatches_agree.elims)
      with False have "encode_outcome (JStr uuid) out = None" by (cases r') (auto simp: replies_agree_def)
      with Some show ?thesis by (cases out) auto
    qed simp
    have "fst (fst ?he) = [PyDispatch (PyRequest r)] \<or> fst (fst ?he) = [PyDispatch (PyRequest r), ?ack]"
      using False d unfolding he by (cases "py_dispatch psv s (PyRequest r)")
        (auto simp: py_finish_entry_def py_ack_def split: option.split sum.split list.split)
    then have e: "?entries = []" by (auto simp: py_added_to_def)
    have "fst (mixed_rpc_send ?env ms (rc, pt, psv)) = Inl (transport_error ''call timeout'')"
      unfolding result e using timeout by simp
    with none show ?thesis by (auto simp: results_alike_def)
  qed
qed

lemma mixed_call_lemma:
  assumes st: "rc_state rc = Started" "calls_inv (rc_calls rc)" "rc_instanceId rc \<noteq> []"
    and names: "SERVICE_RE s" "METHOD_RE m" "json_ok p" and p: "p \<noteq> JNull"
    and disp: "jm_get (pt_dispatchers pt) s = Some s" "pt_key_prefix pt = rc_keyPrefix rc"
    and keys: "\<And>n. n \<in> set (jm_keys (pt_dispatchers pt)) \<Longrightarrow> no_colon n"
    and entry: "jm_get (pv_services psv) s = Some pe"
    and agree: "services_agree \<lparr>se_contract = c, se_handlers = hs\<rparr> pe" and good: "good_service c hs"
    and own: "m \<notin> set object_prototype_names \<or> jm_get (ct_methods c) m \<noteq> None"
    and ok: "replies_json (pv_services psv)"
  shows "results_alike (wire_result (call_spec c hs m (js_nullish (json_norm p) (JObj []))))
    (fst (client_call mixed_rpc_send cl uuid s m p ms (rc, pt, psv)))"
proof -
  let ?env = "build_request (full_method s m) p (JStr uuid)"
  let ?ms = "case ms of None \<Rightarrow> cl_timeout cl | Some n \<Rightarrow> n"
  have run: "dispatches_agree (map_option (\<lambda>out. Inr (encode_outcome (JStr uuid) out))
      (call_spec c hs m (js_nullish (json_norm p) (JObj [])))) (fst (py_dispatch psv s (PyRequest r)))"
    if "rq_method r = m" "rq_params r = js_nullish (json_norm p) (JObj [])" "rq_id r = JStr uuid" for r
    using py_dispatch_spec [OF entry agree good, of r] own that by simp
  let ?spec = "call_spec c hs m (js_nullish (json_norm p) (JObj []))"
  from mixed_send_result [where ms = ?ms, OF st names p disp keys run ok]
  have x: "results_alike (wire_result ?spec)
      (case fst (mixed_rpc_send ?env ?ms (rc, pt, psv)) of Inl e \<Rightarrow> Inl e | Inr v \<Rightarrow> call_decode v)" by blast
  have "fst (client_call mixed_rpc_send cl uuid s m p ms (rc, pt, psv)) =
      (case fst (mixed_rpc_send ?env ?ms (rc, pt, psv)) of Inl e \<Rightarrow> Inl e | Inr v \<Rightarrow> call_decode v)"
    unfolding client_call_names [OF names(1,2)]
    by (cases "mixed_rpc_send ?env ?ms (rc, pt, psv)") (auto split: sum.split)
  with x show ?thesis by metis
qed

section \<open>An example\<close>

text \<open>The example service of \<open>ServerCore\<close> in Python.\<close>

definition py_object_model :: py_model where
  "py_object_model =
     \<lparr>pm_validate = \<lambda>v. case v of JObj ps \<Rightarrow> Valid v | _ \<Rightarrow> Invalid (JArr [JStr ''dict_type'']), pm_dump = \<lambda>v. v\<rparr>"

definition py_number_model :: py_model where
  "py_number_model =
     \<lparr>pm_validate = \<lambda>v. case v of JNum n \<Rightarrow> Valid v | _ \<Rightarrow> Invalid (JArr [JStr ''int_type'']), pm_dump = \<lambda>v. v\<rparr>"

definition py_add :: py_handler where
  "py_add v = Inr (Finishes
     (case js_get v ''a'' of
        JNum a \<Rightarrow> (case js_get v ''b'' of JNum b \<Rightarrow> Returned (JNum (a + b))
                    | _ \<Rightarrow> Raised (py_rpc_error (JNum 7) ''no b'' JNull))
      | _ \<Rightarrow> Raised (py_rpc_error (JNum 7) ''no a'' JNull)))"

definition py_calc_contract :: py_contract where
  "py_calc_contract = \<lparr>pc_service = ''calc'', pc_methods =
     [(''add'', \<lparr>me_params = py_object_model, me_result = Some py_number_model, me_handler_attr = ''add''\<rparr>),
      (''ping'', \<lparr>me_params = py_object_model, me_result = None, me_handler_attr = ''ping''\<rparr>)]\<rparr>"

definition py_calc_instance :: "string \<Rightarrow> py_handler option" where
  "py_calc_instance attr =
     (if attr = ''add'' then Some py_add
      else if attr = ''ping'' then Some (\<lambda>v. Inr (Finishes (Returned JNull))) else None)"

definition py_calc_server :: py_server where
  "py_calc_server = snd (py_register_service py_calc_contract py_calc_instance py_new_server)"

definition pt_sample :: "string py_transport" where
  "pt_sample = py_register ''calc'' ''calc''
     (case py_make_server True None None ''app'' None ''s1'' 60000 1024 5000 of Inr t \<Rightarrow> t | Inl e \<Rightarrow> undefined)"

lemma py_calc_services: "pv_services py_calc_server =
    [(''calc'', \<lparr>ps_contract = py_calc_contract, ps_instance = py_calc_instance\<rparr>)]"
  by (simp add: py_calc_server_def py_register_service_def py_new_server_def jm_has_def py_calc_contract_def)

lemma py_calc_entry: "jm_get (pv_services py_calc_server) ''calc'' =
    Some \<lparr>ps_contract = py_calc_contract, ps_instance = py_calc_instance\<rparr>"
  by (simp add: py_calc_services jm_get_def)

lemma pt_sample_facts: "jm_get (pt_dispatchers pt_sample) ''calc'' = Some ''calc''"
  "pt_key_prefix pt_sample = ''app''" "pt_reply_stream_maxlen pt_sample = 1024"
  "jm_keys (pt_dispatchers pt_sample) = [''calc'']"
  by (simp_all add: pt_sample_def py_register_def py_make_server_def jm_get_def jm_keys_def)

lemma calc_agrees: "services_agree \<lparr>se_contract = calc_contract, se_handlers = calc_handlers\<rparr>
    \<lparr>ps_contract = py_calc_contract, ps_instance = py_calc_instance\<rparr>"
proof -
  have params: "checks_agree (object_schema v) (pm_validate py_object_model v)" for v
    by (simp add: object_schema_def py_object_model_def split: jsval.split)
  have result: "case pm_validate py_number_model v of
      Valid y \<Rightarrow> number_schema v = Inr (pm_dump py_number_model y) | Invalid errs \<Rightarrow> is_Inl (number_schema v)
    | Raises e \<Rightarrow> False" for v
    by (simp add: number_schema_def py_number_model_def split: jsval.split)
  have add: "handlers_agree n (calc_add v) (py_add v)" for n v
    by (auto simp: calc_add_def py_add_def py_rpc_error_def split: jsval.split)
  have lookup: "jm_get (pc_methods py_calc_contract) m =
      (if m = ''add'' then Some \<lparr>me_params = py_object_model, me_result = Some py_number_model, me_handler_attr = ''add''\<rparr>
       else if m = ''ping'' then Some \<lparr>me_params = py_object_model, me_result = None, me_handler_attr = ''ping''\<rparr>
       else None)" for m
    by (simp add: py_calc_contract_def jm_get_def)
  have "methods_agree calc_method (calc_handlers ''add'')
      \<lparr>me_params = py_object_model, me_result = Some py_number_model, me_handler_attr = ''add''\<rparr> (py_calc_instance ''add'')"
    by (simp add: methods_agree_def calc_method_def calc_handlers_def py_calc_instance_def params add
        results_agree_def is_notification_def_def result)
  moreover have "methods_agree calc_note (calc_handlers ''ping'')
      \<lparr>me_params = py_object_model, me_result = None, me_handler_attr = ''ping''\<rparr> (py_calc_instance ''ping'')"
    by (simp add: methods_agree_def calc_note_def calc_handlers_def py_calc_instance_def params
        results_agree_def is_notification_def_def)
  ultimately show ?thesis
    by (auto simp: services_agree_def lookup_method_def calc_methods lookup)
qed

text \<open>An id that was read from JSON can be written as JSON.\<close>

lemma py_request_id:
  assumes "py_parse_envelope v = Inr (PyRequest r)"
  shows "py_value (rq_id r) \<and> json_ok (rq_id r)"
proof (cases v)
  case (JObj obj)
  with assms show ?thesis
    by (auto simp: py_parse_object_def py_parse_call_def py_parse_response_def Let_def
        split: if_splits jsval.splits)
qed (use assms in auto)

lemma py_add_cases:
  obtains k where "py_add p = Inr (Finishes (Returned (JNum k)))"
  | msg where "py_add p = Inr (Finishes (Raised (py_rpc_error (JNum 7) msg JNull)))"
  by (cases "js_get p ''a''"; cases "js_get p ''b''") (auto simp: py_add_def)

lemma py_calc_reply:
  assumes reply: "py_finish_step (py_dispatch_call psv n (jm_get (pv_services py_calc_server) n) notif i m p)
      = Some (Inr (Some w))"
    and i: "py_value i" "json_ok i"
  shows "py_value w \<and> json_ok w"
proof -
  note builders = py_build_error_response_def py_build_success_response_def py_errors_def py_not_found_def
  note steps = py_dispatch_call_def py_finish_step_def py_dispatch_resume_def py_resume_raised_def
    py_resume_returned_def py_rpc_error_def Let_def py_calc_services jm_get_def py_calc_contract_def
    py_object_model_def py_number_model_def py_calc_instance_def
  show ?thesis
  proof (cases "n = ''calc'' \<and> m = ''add''")
    case True
    then show ?thesis
      using reply i
      by (cases rule: py_add_cases [of p])
        (auto simp: steps builders split: jsval.splits if_splits)
  next
    case False
    with reply i show ?thesis
      by (auto simp: steps builders split: jsval.splits if_splits)
  qed
qed

lemma py_calc_json: "replies_json (pv_services py_calc_server)"
  unfolding replies_json_def
proof (intro allI impI)
  fix psv :: py_server and n "txt" parsed w
  assume sv: "pv_services psv = pv_services py_calc_server"
    and loaded: "rbind (py_json_loads txt) py_parse_envelope = Inr parsed"
    and reply: "fst (py_dispatch psv n parsed) = Some (Inr (Some w))"
  from loaded obtain v where v: "py_parse_envelope v = Inr parsed" by (auto simp: rbind_eq_Inr)
  show "py_value w \<and> json_ok w"
    using reply py_request_id [of v] v
    by (cases parsed)
      (use py_calc_reply in \<open>fastforce simp: py_dispatch_finish py_dispatch_begin_def sv Let_def\<close>,
        (use py_calc_reply [of psv n True JNull] in \<open>force simp: py_dispatch_finish py_dispatch_begin_def sv Let_def\<close>),
        simp_all add: py_dispatch_finish py_dispatch_begin_def py_finish_step_def Let_def)
qed

section \<open>Properties\<close>


definition sample_batch :: "(string \<times> string \<times> string option) list" where
  "sample_batch =
     [(''1-0'', json_text (build_request (full_method ''calc'' ''add'') (JObj [(''a'', JNum 2), (''b'', JNum 3)]) (JStr ''u1'')), Some ''r''),
      (''1-1'', ''oops'', None)]"

lemma sample_batch_facts:
  assumes "(i, txt, to) \<in> set sample_batch"
  shows "json_parse txt = Inr v \<Longrightarrow> \<not> parse_gap v"
    and "entry_envelope (entry_list (entry_pairs txt to)) = Some env \<Longrightarrow>
      lookup_method calc_contract (env_method env) \<noteq> Some Inherited"
proof -
  let ?p = "JObj [(''a'', JNum 2), (''b'', JNum 3)]"
  let ?env = "build_request (full_method ''calc'' ''add'') ?p (JStr ''u1'')"
  have ok: "json_ok ?env" by (simp add: build_request_def)
  have bad: "json_parse ''oops'' \<noteq> Inr v" for v
    by (simp add: json_parse_def next_char_def parse_ws_def is_ws_def parse_number_def parse_digits_def char_simps)
  have entry: "(txt = json_text ?env \<and> to = Some ''r'') \<or> (txt = ''oops'' \<and> to = None)"
    using assms by (auto simp: sample_batch_def)
  have gap: "\<not> parse_gap (json_norm ?env)"
    using request_no_gap [OF calc_names(1,2), of ?p] by simp
  show "\<not> parse_gap v" if "json_parse txt = Inr v"
    using entry that gap bad json_parse_text [OF ok] by auto
  show "lookup_method calc_contract (env_method env) \<noteq> Some Inherited"
    if "entry_envelope (entry_list (entry_pairs txt to)) = Some env"
  proof -
    from entry that bad have "txt = json_text ?env" "to = Some ''r''"
      by (auto simp: entry_envelope_def entry_list_envelope opt_or_def split: sum.splits)
    moreover obtain r where "entry_envelope [''type'', ''rpc'', ''envelope'', json_text ?env, ''reply-to'', ''r''] = Some (Request r)"
      "rq_method r = ''add''"
      using request_over_json [OF calc_names(1,2), of ?p "''u1''" "''r''"] by auto
    ultimately have "env_method env = ''add''"
      using that by (auto simp: entry_list_def entry_pairs_def)
    then show ?thesis by (simp add: lookup_method_def calc_methods)
  qed
qed




end
