(* ===== verification/Golden.thy ===== *)
theory Golden
  imports EmitTs EmitPy
begin

text \<open>
  The golden files of the code generator's own tests (\<open>ts/packages/codegen/tests/fixtures\<close>),
  as texts: the definitions of \<open>EmitTs\<close> and \<open>EmitPy\<close> produce them character by character. Of
  the Python files it is the part behind the models, which the external tool writes.
\<close>

definition plain_method :: "string \<Rightarrow> ir_method" where
  "plain_method n = \<lparr>im_name = n, im_isNotification = False,
     im_params = \<lparr>is_jsonSchema = JObj [], is_hash = []\<rparr>, im_result = Some \<lparr>is_jsonSchema = JObj [], is_hash = []\<rparr>\<rparr>"

definition plain_notification :: "string \<Rightarrow> ir_method" where
  "plain_notification n = \<lparr>im_name = n, im_isNotification = True,
     im_params = \<lparr>is_jsonSchema = JObj [], is_hash = []\<rparr>, im_result = None\<rparr>"

definition arith_ir :: ir_contract where
  "arith_ir = \<lparr>ic_service = ''arith'', ic_sourceFile = ''contracts/arith.ts'',
     ic_methods = [plain_method ''add'', plain_method ''divide'']\<rparr>"

definition notifications_ir :: ir_contract where
  "notifications_ir = \<lparr>ic_service = ''notifications'', ic_sourceFile = ''contracts/notifications.ts'',
     ic_methods = [plain_notification ''ping'']\<rparr>"

lemma golden_arith_ts:
  "renderTsFile ''0.1.0'' ''@/contracts/arith'' arith_ir = js_join nl
     [''// AUTO-GENERATED by @clamator/codegen v0.1.0 from arith.ts.'',
      ''// DO NOT EDIT. Re-run codegen to update.'',
      ''import { arithContract } from '' @ [CHR 0x27] @ ''@/contracts/arith'' @ [CHR 0x27] @ '';'',
      ''import type { ClamatorClient } from '' @ [CHR 0x27] @ ''@clamator/protocol'' @ [CHR 0x27] @ '';'',
      ''import type { z } from '' @ [CHR 0x27] @ ''zod'' @ [CHR 0x27] @ '';'',
      [],
      ''export type AddParams = z.infer<typeof arithContract.methods.add.params>;'',
      ''export type AddResult = z.infer<typeof arithContract.methods.add.result>;'',
      ''export type DivideParams = z.infer<typeof arithContract.methods.divide.params>;'',
      ''export type DivideResult = z.infer<typeof arithContract.methods.divide.result>;'',
      [],
      ''export class ArithClient {'',
      ''  constructor(private client: ClamatorClient) {}'',
      ''  add(params: AddParams, opts?: { timeoutMs?: number }): Promise<AddResult> {'',
      ''    return this.client.call('' @ [CHR 0x27] @ ''arith'' @ [CHR 0x27] @ '', '' @ [CHR 0x27] @ ''add'' @ [CHR 0x27] @ '', params, opts);'',
      ''  }'',
      ''  divide(params: DivideParams, opts?: { timeoutMs?: number }): Promise<DivideResult> {'',
      ''    return this.client.call('' @ [CHR 0x27] @ ''arith'' @ [CHR 0x27] @ '', '' @ [CHR 0x27] @ ''divide'' @ [CHR 0x27] @ '', params, opts);'',
      ''  }'',
      ''}'',
      [],
      ''export interface ArithService {'',
      ''  add(params: AddParams, opts?: { timeoutMs?: number }): Promise<AddResult>;'',
      ''  divide(params: DivideParams, opts?: { timeoutMs?: number }): Promise<DivideResult>;'',
      ''}'',
      []]"
  by code_simp

lemma golden_arith_py:
  "renderPyTail arith_ir = js_join nl
     [''class ArithClient:'',
      ''    def __init__(self, client: ClamatorClient) -> None:'',
      ''        self._client = client'',
      [],
      ''    async def add(self, params: AddParams, *, timeout_ms: int | None = None) -> AddResult:'',
      ''        raw = await self._client.call(\"arith\", \"add\", params.model_dump(mode='' @ [CHR 0x27] @ ''json'' @ [CHR 0x27] @ '', by_alias=True), timeout_ms=timeout_ms)'',
      ''        return AddResult.model_validate(raw)'',
      [],
      ''    async def divide(self, params: DivideParams, *, timeout_ms: int | None = None) -> DivideResult:'',
      ''        raw = await self._client.call(\"arith\", \"divide\", params.model_dump(mode='' @ [CHR 0x27] @ ''json'' @ [CHR 0x27] @ '', by_alias=True), timeout_ms=timeout_ms)'',
      ''        return DivideResult.model_validate(raw)'',
      [],
      [],
      ''class ArithService(ABC):'',
      ''    @abstractmethod'',
      ''    async def add(self, params: AddParams) -> AddResult: ...'',
      [],
      ''    @abstractmethod'',
      ''    async def divide(self, params: DivideParams) -> DivideResult: ...'',
      [],
      [],
      ''METHODS = {'',
      ''    \"add\": MethodEntry(params_model=AddParams, result_model=AddResult, handler_attr=\"add\"),'',
      ''    \"divide\": MethodEntry(params_model=DivideParams, result_model=DivideResult, handler_attr=\"divide\"),'',
      ''}'',
      [],
      ''arith_contract = Contract('',
      ''    service=\"arith\",'',
      ''    methods=METHODS,'',
      '')'',
      []]"
  by code_simp

lemma golden_notifications_py:
  "renderPyTail notifications_ir = js_join nl
     [''class NotificationsClient:'',
      ''    def __init__(self, client: ClamatorClient) -> None:'',
      ''        self._client = client'',
      [],
      ''    async def ping(self, params: PingParams) -> None:'',
      ''        await self._client.notify(\"notifications\", \"ping\", params.model_dump(mode='' @ [CHR 0x27] @ ''json'' @ [CHR 0x27] @ '', by_alias=True))'',
      [],
      [],
      ''class NotificationsService(ABC):'',
      ''    @abstractmethod'',
      ''    async def ping(self, params: PingParams) -> None: ...'',
      [],
      [],
      ''METHODS = {'',
      ''    \"ping\": MethodEntry(params_model=PingParams, result_model=None, handler_attr=\"ping\"),'',
      ''}'',
      [],
      ''notifications_contract = Contract('',
      ''    service=\"notifications\",'',
      ''    methods=METHODS,'',
      '')'',
      []]"
  by code_simp

lemma golden_py_header:
  "py_header ''0.1.0'' (ic_sourceFile arith_ir) = js_join nl
     [''# AUTO-GENERATED by @clamator/codegen v0.1.0 from arith.ts.'',
      ''# DO NOT EDIT. Re-run codegen to update.'',
      ''from __future__ import annotations'',
      ''from abc import ABC, abstractmethod'',
      ''from clamator_protocol import ClamatorClient, Contract, MethodEntry'',
      [], []]"
  by code_simp

text \<open>The expectations of \<open>case.test.ts\<close> and \<open>envelope.test.ts\<close>.\<close>

lemma case_tests:
  "camelToSnake ''processId'' = ''process_id''" "camelToSnake ''alreadySnake'' = ''already_snake''"
  "camelToSnake ''lower'' = ''lower''" "camelToSnake ''aBC'' = ''a_b_c''"
  "snakeToCamel ''process_id'' = ''processId''" "snakeToCamel ''alreadyCamel'' = ''alreadyCamel''"
  "kebabAndCamelToPascal ''engine'' = ''Engine''"
  "kebabAndCamelToPascal ''excavator-engine'' = ''ExcavatorEngine''"
  "kebabAndCamelToPascal ''processStream'' = ''ProcessStream''"
  by code_simp+

lemma envelope_tests:
  "SERVICE_RE ''engine'' \<and> SERVICE_RE ''order-service'' \<and> \<not> SERVICE_RE ''Engine'' \<and> \<not> SERVICE_RE ''1engine''"
  "METHOD_RE ''launch'' \<and> METHOD_RE ''launchProcess'' \<and> \<not> METHOD_RE ''launch-process'' \<and> \<not> METHOD_RE ''Launch''"
  "is_Inl (parse_envelope (JArr [JObj []]))"
  "is_Inl (parse_envelope (JObj [(''jsonrpc'', JStr ''1.0''), (''method'', JStr ''a.b''), (''params'', JObj [])]))"
  "is_Inl (parse_envelope (JObj [(''jsonrpc'', JStr ''2.0''), (''method'', JStr ''launch''), (''params'', JObj [])]))"
  "is_Inl (parse_envelope (JObj [(''jsonrpc'', JStr ''2.0''), (''method'', JStr ''Engine.launch''), (''params'', JObj [])]))"
  "is_Inl (parse_envelope (JObj [(''jsonrpc'', JStr ''2.0''), (''method'', JStr ''engine.Launch''), (''params'', JObj [])]))"
  by code_simp+

end
