(* ===== verification/Spec2Isabelle.thy ===== *)
theory Spec2Isabelle
  imports EndToEnd Backoff Cli ReadmeCheck Overlap InterleavedCall PyInterop Golden
begin

text \<open>
  A verification development for the TypeScript code of clamator, a contract-first RPC library:
  a client core and a server core that talk JSON-RPC 2.0 over a transport, a transport within
  one process, a transport over Redis streams, and a code generator for typed wrappers.

  \<^bold>\<open>Parts and theories.\<close> Paths are relative to \<open>src/ts/packages\<close> unless they start with \<open>scripts\<close>.

  \<^item> \<open>Prelude\<close>, \<open>JsMap\<close>, \<open>JsValue\<close>: results as sums, strings, digits, white space; \<open>Map\<close> as an
    association list in insertion order behind the locale \<open>js_map\<close>; JavaScript values, thrown
    values and log records.
  \<^item> \<open>Errors\<close> (\<open>protocol/src/error.ts\<close>), \<open>Envelope\<close> (\<open>protocol/src/envelope.ts\<close>), \<open>Contracts\<close>
    (\<open>protocol/src/contract.ts\<close>): one definition per function, with its source name where that is free.
  \<^item> \<open>Interfaces\<close> (\<open>protocol/src/transport.ts\<close>): the locales \<open>lifecycle\<close>, \<open>registry\<close> and
    \<open>transport_guard\<close>, which the cores and the transports interpret.
  \<^item> \<open>ServerCore\<close> (\<open>protocol/src/server-core.ts\<close>): a record \<open>server\<close>, the dispatcher split at its
    \<open>await\<close> (\<open>dispatch_begin\<close>, \<open>dispatch_resume\<close>) and composed again (\<open>dispatch\<close>), the step
    relation \<open>server_step\<close> of dispatches in any interleaving, \<open>server_start\<close>, and \<open>server_stop\<close> with
    its drain on a clock in milliseconds. \<open>call_spec\<close> is the abstract service.
  \<^item> \<open>ClientCore\<close> (\<open>protocol/src/client-core.ts\<close>): \<open>client_call\<close>, \<open>client_notify\<close>, start and stop over
    any transport.
  \<^item> \<open>PendingCalls\<close>: the table of pending calls with its timers and promises, which both
    client-side transports keep; the locale \<open>call_machine\<close> gives what holds in every run of a
    machine whose events act on the table through five operations.
  \<^item> \<open>MemoryTransport\<close> (\<open>over-memory/src\<close>): the bus and the transport; a run is a list of events
    (a send, the end of its microtask, a timer, a notification, start, stop).
  \<^item> \<open>Json\<close>: \<open>JSON.stringify\<close>, compact and indented, and \<open>JSON.parse\<close>, which are part of the
    language; the locale \<open>white_layout\<close> proves the parser once for every layout, and \<open>wire_codec\<close>
    is what the transports need of them.
  \<^item> \<open>Keys\<close>, \<open>Backoff\<close>, \<open>RedisClient\<close>, \<open>RedisServer\<close> (\<open>over-redis/src\<close>): stream names, the client
    transport with its reply loop turn by turn and its stop sequence, the server transport with
    its consumer and reclaim loops and the handling of one entry. Redis itself is outside the
    repository: every answer of a command is a parameter of the step that awaits it.
  \<^item> \<open>CaseConv\<close>, \<open>Lower\<close>, \<open>EmitTs\<close>, \<open>EmitPy\<close>, \<open>ManifestFile\<close>, \<open>Cli\<close> (\<open>codegen/src\<close>): loading,
    lowering and sorting of contracts, the text of every generated file, and the command with its
    declared options. File system calls are recorded as \<open>gen_op\<close> values; \<open>tsImport\<close>, \<open>localeCompare\<close>, \<open>zodToJsonSchema\<close>,
    the hash and \<open>datamodel-codegen\<close> are parameters.
  \<^item> \<open>Golden\<close>: the golden files and expectations of the repository's own tests, reproduced by the
    definitions character by character.
  \<^item> \<open>ReadmeCheck\<close> (\<open>scripts/check-readme-verbatim.mjs\<close>): the check of the README code blocks.
  \<^item> \<open>Overlap\<close>: calls of \<open>start\<close> and \<open>stop\<close> that overlap, split at their awaits; the other theories run
    each of them in one go.
  \<^item> \<open>RedisLoops\<close>: the same consumer and reclaim loops from \<open>await\<close> to \<open>await\<close>: a process per loop with
    its phase, interleaved with the other loops, with \<open>stop\<close> and with registrations.
  \<^item> \<open>ServingLoops\<close>: these loops with the dispatchers of the server core behind them, which is what a
    running \<open>RedisRpcServer\<close> is.
  \<^item> \<open>Assembly\<close>: the clients and servers that the packages export, with their defaults.
  \<^item> \<open>EndToEnd\<close>: the cores joined through the memory transport and through both Redis transports, one
    call at a time. \<open>InterleavedCall\<close>: a client transport and a running server with any interleaving of
    their events; what Redis delivers to either is a named hypothesis.
  \<^item> \<open>PyProtocol\<close>, \<open>PyServer\<close>, \<open>PyRedis\<close> (\<open>src/py/packages\<close>: \<open>envelope.py\<close>, \<open>error.py\<close>,
    \<open>contract.py\<close>, \<open>server_core.py\<close>, the reply side of \<open>client_core.py\<close>, \<open>keys.py\<close> and the handling of entries in
    \<open>server_transport.py\<close>): the second implementation of the protocol, with the same \<open>jsval\<close> for the values JSON carries.
    \<open>same_parse\<close>, \<open>services_agree\<close>, \<open>handled_agree\<close> relate it to the first; \<open>PyInterop\<close> joins the
    TypeScript client with the Python server.

  \<^bold>\<open>What is shown.\<close> A call through either transport gives what the abstract service says
  (\<open>EndToEnd\<close>), on top of a refinement theorem for the dispatcher and round trips for envelopes and
  for JSON. Every call that is open has an armed timer, \<open>stop\<close> leaves none open, an outcome is
  final, and a reply settles the call of its id only. A stream entry is acknowledged last, once,
  and not before its reply is out, in every interleaving of the loops; poison is acknowledged and
  skipped; behind \<open>stop\<close> the loops come to their end (\<open>RedisLoops\<close>, which also shows that a turn as
  one function is what its steps do). However handlers and loops interleave, every reply is the
  one a dispatcher on its own gives (\<open>ServingLoops\<close>), and a call of a client is only ever resolved
  with what the abstract service says for its own parameters (\<open>InterleavedCall\<close>). The Python implementation reads the same messages in the same way up to three
  named exceptions (\<open>PyProtocol\<close>), its server transport can stand in for the TypeScript one, and a TypeScript client gets
  from it what the abstract service says, but for the data of some errors (\<open>PyInterop\<close>). What has
  been stopped stays silent, unless a \<open>start\<close> was still on its way (\<open>Overlap\<close>). \<open>defineContract\<close>, \<open>parseEnvelope\<close> and \<open>exceptionToErrorData\<close> are
  characterised exactly. The code generator is independent of the directory order, keeps every method, and
  writes a manifest that reads back. The README check accepts exactly the READMEs whose blocks
  agree with their sources. Several theorems state behaviour that the code should not have: the
  handler that throws synchronously, the numeric id of the memory transport, the two failed
  starts, the two handlers of one service that run at once, and the import name of a service such as \<open>job-2\<close>.

  \<^bold>\<open>Bounds and fuel.\<close> The JSON parser takes fuel; \<open>json_parse\<close> gives it the length of the text plus one,
  which the round trip shows to be enough for every text that \<open>JSON.stringify\<close> writes. All other
  recursions terminate by structure or by a proved measure. Numbers are integers, and exact: what a double
  rounds, beyond \<open>2 ^ 53\<close>, is outside the model.

  \<^bold>\<open>Not modelled.\<close> Characters beyond 255 and fractional numbers; the order of integer-like property
  names and the name \<open>__proto__\<close>; zod schemas (a schema is a parse function); the inside of Redis
  (what \<open>XREADGROUP\<close> and \<open>XAUTOCLAIM\<close> select); the inside of the option parser; of the Python packages the
  memory transport, the Redis client transport, the backoff and the starts, stops and loops, which repeat
  the design of the TypeScript ones; tests, the interop harness and the release script.
\<close>

section \<open>Properties\<close>

text \<open>
  C28: What has been stopped stays silent. Whatever starts and stops, one after the other, follow a
  normal \<open>stop\<close>, the transports refuse to start, to send and to notify, the Redis server transport refuses to
  start, and so do the client and server cores.
\<close>

theorem stopped_stay_silent:
  fixes env :: jsval and cs :: "lc_command list"
    and m :: "'d mem" and rc :: redis_client and rs :: "'e redis_server"
    and sv :: "server \<times> 't" and cl :: "client \<times> 'u"
  assumes mt: "mt = lc_run mem_start mem_stop cs (snd (mem_stop m))"
    and rt: "rt = lc_run rc_start rc_stop cs (snd (rc_stop rc))"
    and st: "st = lc_run (rs_start xgroup) rs_stop cs (snd (rs_stop rs))"
    and sc: "fst (fst (server_stop tstop inflight graceMs now sv)) = Inr ()"
      "sc = lc_run (server_start reg tstart) (\<lambda>s. fst (server_stop tstop inflight graceMs now s)) cs
         (snd (fst (server_stop tstop inflight graceMs now sv)))"
    and cc: "fst (client_stop cstop cl) = Inr ()"
      "cc = lc_run (client_start cstart) (client_stop cstop) cs (snd (client_stop cstop cl))"
  shows "is_Inl (fst (mem_start mt)) \<and> is_Inl (fst (mem_send env mt)) \<and> is_Inl (fst (mem_notify env mt))
    \<and> is_Inl (fst (rc_start rt)) \<and> is_Inl (fst (rc_send env rt)) \<and> is_Inl (fst (rc_notify xadd env rt))
    \<and> is_Inl (fst (rs_start xgroup st))
    \<and> is_Inl (fst (server_start reg tstart sc)) \<and> is_Inl (fst (client_start cstart cc))"
proof -
  have ms: "fst (mem_stop m) = Inr ()" by (simp add: mem_stop_def split: prod.split)
  have rs: "fst (rc_stop rc) = Inr ()" by (simp add: rc_stop_def)
  have ss: "fst (rs_stop rs) = Inr ()" by (simp add: rs_stop_def)
  show ?thesis
    using mem_tr.no_restart [OF ms, of cs] mem_tr.silent_after_stop [where env = env and cs = cs, OF ms]
      rc_tr.no_restart [OF rs, of cs] rc_tr.silent_after_stop [where env = env and cs = cs, OF rs]
      rs_lc.no_restart [OF ss, of xgroup cs]
      server_lc.no_restart [of tstop inflight graceMs now sv reg tstart cs, OF sc(1)]
      client_lc.no_restart [of cstop cl cstart cs, OF cc(1)]
    unfolding mt rt st sc(2) cc(2) by blast
qed

theorem stopped_stay_silent_witness:
  "is_Inl (fst (mem_start (lc_run mem_start mem_stop [CmdStart, CmdStop] (snd (mem_stop (new_mem, [(''x'', ())]))))))"
proof -
  have s: "fst (fst (server_stop (\<lambda>t. (Inr (), t)) (\<lambda>s. []) None 0 (calc_server, ()))) = Inr ()"
    by (simp add: server_stop_def)
  have c: "fst (client_stop (\<lambda>t. (Inr (), t)) (new_client None, ())) = Inr ()"
    by (simp add: client_stop_def)
  show ?thesis
    using stopped_stay_silent [OF HOL.refl HOL.refl HOL.refl s HOL.refl c HOL.refl,
      of "[CmdStart, CmdStop]" "(new_mem, [(''x'', ())])"]
    by blast
qed

end
